(* ===== verification/C_Prelude.thy ===== *)
theory C_Prelude
  imports Main "HOL-Library.State_Monad" "HOL-Library.Word"
begin

text \<open>
  The vocabulary the component theories share.

  \<^item> Output: every call of \<open>printf\<close> (or \<open>perror\<close>, \<open>fprintf(stderr, ..)\<close>) is
    recorded with its format string and its arguments, in program order.
  \<^item> A running program: a record with the kernel's state, \<open>errno\<close> and the output so far;
    a program is a state transformer over it (the \<open>State_Monad\<close> of the library).
  \<^item> System calls: code that is not in the repository. A call is a parameter of type
    \<open>('k, 'a) kcall\<close>: from the kernel's state to an error number or a value, and the
    next kernel state. \<open>sys\<close> and \<open>sysbuf\<close> turn it into the C convention (-1 and
    \<open>errno\<close>).
  \<^item> C strings and \<open>errno\<close> values as the headers have them on Linux.
  \<^item> Transition systems: reachability, and the locale of an inductive invariant.
\<close>

section \<open>Collections of facts\<close>

named_theorems io_simps \<open>unfolding a program down to its run\<close>
named_theorems errno_defs \<open>the numeric values of error numbers\<close>
named_theorems sys_laws \<open>laws of system calls used by the simplifier\<close>

section \<open>Output and the state of a program\<close>

datatype farg = FInt int | FStr string | FChar char

datatype outev =
    Printf string "farg list"
  | Perror string
  | Eprintf string "farg list"

record 'k proc =
  kern :: 'k
  errno :: int
  outs :: "outev list"

type_synonym ('k, 'a) io = "('k proc, 'a) state"
type_synonym ('k, 'a) kcall = "'k \<Rightarrow> (int + 'a) \<times> 'k"

abbreviation ret :: "'a \<Rightarrow> ('s, 'a) state" where
  "ret \<equiv> State_Monad.return"

definition emit :: "outev \<Rightarrow> ('k, unit) io" where
  "emit e = State (\<lambda>s. ((), s\<lparr>outs := outs s @ [e]\<rparr>))"

definition printf :: "string \<Rightarrow> farg list \<Rightarrow> ('k, unit) io" where
  "printf fmt args = emit (Printf fmt args)"

definition perror :: "string \<Rightarrow> ('k, unit) io" where
  "perror msg = emit (Perror msg)"

definition eprintf :: "string \<Rightarrow> farg list \<Rightarrow> ('k, unit) io" where
  "eprintf fmt args = emit (Eprintf fmt args)"

definition get_errno :: "('k, int) io" where
  "get_errno = State (\<lambda>s. (errno s, s))"

definition set_errno :: "int \<Rightarrow> ('k, unit) io" where
  "set_errno e = State (\<lambda>s. ((), s\<lparr>errno := e\<rparr>))"

text \<open>
  A system call that returns an \<open>int\<close>: -1 and \<open>errno\<close> on failure. A call that fills a
  buffer (\<open>read\<close>, \<open>recvfrom\<close>): the number of bytes and the bytes.
\<close>

definition sys :: "('k, int) kcall \<Rightarrow> ('k, int) io" where
  "sys f = State (\<lambda>s. case f (kern s) of
      (Inl e, k) \<Rightarrow> (-1, s\<lparr>kern := k, errno := e\<rparr>)
    | (Inr v, k) \<Rightarrow> (v, s\<lparr>kern := k\<rparr>))"

definition sysbuf :: "('k, char list) kcall \<Rightarrow> ('k, int \<times> char list) io" where
  "sysbuf f = State (\<lambda>s. case f (kern s) of
      (Inl e, k) \<Rightarrow> ((-1, []), s\<lparr>kern := k, errno := e\<rparr>)
    | (Inr bs, k) \<Rightarrow> ((int (length bs), bs), s\<lparr>kern := k\<rparr>))"

text \<open>A call whose failure the C library reports by a null pointer or a nonzero code.\<close>

definition sysopt :: "('k, 'a) kcall \<Rightarrow> ('k, 'a option) io" where
  "sysopt f = State (\<lambda>s. case f (kern s) of
      (Inl e, k) \<Rightarrow> (None, s\<lparr>kern := k, errno := e\<rparr>)
    | (Inr v, k) \<Rightarrow> (Some v, s\<lparr>kern := k\<rparr>))"

lemma run_emit [io_simps]: "run_state (emit e) s = ((), s\<lparr>outs := outs s @ [e]\<rparr>)"
  by (simp add: emit_def)

lemma run_printf [io_simps]:
  "run_state (printf fmt args) s = ((), s\<lparr>outs := outs s @ [Printf fmt args]\<rparr>)"
  by (simp add: printf_def run_emit)

lemma run_perror [io_simps]:
  "run_state (perror msg) s = ((), s\<lparr>outs := outs s @ [Perror msg]\<rparr>)"
  by (simp add: perror_def run_emit)

lemma run_eprintf [io_simps]:
  "run_state (eprintf fmt args) s = ((), s\<lparr>outs := outs s @ [Eprintf fmt args]\<rparr>)"
  by (simp add: eprintf_def run_emit)

lemma run_get_errno [io_simps]: "run_state get_errno s = (errno s, s)"
  by (simp add: get_errno_def)

lemma run_set_errno [io_simps]: "run_state (set_errno e) s = ((), s\<lparr>errno := e\<rparr>)"
  by (simp add: set_errno_def)

lemma run_sys [io_simps]:
  "run_state (sys f) s = (case f (kern s) of
      (Inl e, k) \<Rightarrow> (-1, s\<lparr>kern := k, errno := e\<rparr>)
    | (Inr v, k) \<Rightarrow> (v, s\<lparr>kern := k\<rparr>))"
  by (simp add: sys_def)

lemma run_sysbuf [io_simps]:
  "run_state (sysbuf f) s = (case f (kern s) of
      (Inl e, k) \<Rightarrow> ((-1, []), s\<lparr>kern := k, errno := e\<rparr>)
    | (Inr bs, k) \<Rightarrow> ((int (length bs), bs), s\<lparr>kern := k\<rparr>))"
  by (simp add: sysbuf_def)

lemma run_sysopt [io_simps]:
  "run_state (sysopt f) s = (case f (kern s) of
      (Inl e, k) \<Rightarrow> (None, s\<lparr>kern := k, errno := e\<rparr>)
    | (Inr v, k) \<Rightarrow> (Some v, s\<lparr>kern := k\<rparr>))"
  by (simp add: sysopt_def)

lemma run_if [io_simps]:
  "run_state (if b then m else n) s = (if b then run_state m s else run_state n s)"
  by simp

section \<open>Error numbers and C strings\<close>

definition ENOENT :: int where [errno_defs]: "ENOENT = 2"
definition EINTR :: int where [errno_defs]: "EINTR = 4"
definition EBADF :: int where [errno_defs]: "EBADF = 9"
definition EAGAIN :: int where [errno_defs]: "EAGAIN = 11"
definition EACCES :: int where [errno_defs]: "EACCES = 13"
definition EEXIST :: int where [errno_defs]: "EEXIST = 17"
definition EINVAL :: int where [errno_defs]: "EINVAL = 22"
definition EFBIG :: int where [errno_defs]: "EFBIG = 27"
definition EDEADLK :: int where [errno_defs]: "EDEADLK = 35"

abbreviation NL :: char where "NL \<equiv> CHR 0x0A"
abbreviation NUL :: char where "NUL \<equiv> CHR 0x00"
abbreviation TAB :: char where "TAB \<equiv> CHR 0x09"

text \<open>The string a \<open>char *\<close> points at: the bytes before the first null byte.\<close>

definition cstr :: "char list \<Rightarrow> string" where
  "cstr buf = takeWhile (\<lambda>c. c \<noteq> NUL) buf"

definition strlen :: "char list \<Rightarrow> nat" where
  "strlen buf = length (cstr buf)"

lemma cstr_append_NUL [simp]: "cstr (xs @ NUL # ys) = cstr xs"
  by (simp add: cstr_def takeWhile_tail)

lemma cstr_no_NUL [simp]: "NUL \<notin> set xs \<Longrightarrow> cstr xs = xs"
  by (auto simp: cstr_def takeWhile_eq_all_conv)

lemma cstr_le: "length (cstr xs) \<le> length xs"
  by (simp add: cstr_def length_takeWhile_le)

lemma cstr_full: "length (cstr xs) = length xs \<longleftrightarrow> NUL \<notin> set xs"
  by (induction xs) (auto simp: cstr_def)

text \<open>\<open>argv[i][j]\<close>: past the end of the string it is the null byte.\<close>

definition char_at :: "string \<Rightarrow> nat \<Rightarrow> char" where
  "char_at s j = (if j < length s then s ! j else NUL)"

text \<open>\<open>atoi\<close>: leading white space, a sign, digits.\<close>

definition digit :: "char \<Rightarrow> int option" where
  "digit c = (let n = int (of_char c) - 48 in if 0 \<le> n \<and> n < 10 then Some n else None)"

fun atoi_digits :: "int \<Rightarrow> string \<Rightarrow> int" where
  "atoi_digits acc [] = acc"
| "atoi_digits acc (c # cs) = (case digit c of None \<Rightarrow> acc | Some d \<Rightarrow> atoi_digits (10 * acc + d) cs)"

fun atoi :: "string \<Rightarrow> int" where
  "atoi [] = 0"
| "atoi (c # cs) =
     (if c \<in> {CHR '' '', TAB, NL, CHR 0x0B, CHR 0x0C, CHR 0x0D} then atoi cs
      else if c = CHR ''-'' then - atoi_digits 0 cs
      else if c = CHR ''+'' then atoi_digits 0 cs
      else atoi_digits 0 (c # cs))"

section \<open>Transition systems\<close>

inductive reach :: "('s \<Rightarrow> bool) \<Rightarrow> ('s \<Rightarrow> 's \<Rightarrow> bool) \<Rightarrow> 's \<Rightarrow> bool"
  for init :: "'s \<Rightarrow> bool" and step :: "'s \<Rightarrow> 's \<Rightarrow> bool" where
  reach_init: "init s \<Longrightarrow> reach init step s"
| reach_step: "reach init step s \<Longrightarrow> step s t \<Longrightarrow> reach init step t"

lemma reach_run:
  "reach init step s \<Longrightarrow> step\<^sup>*\<^sup>* s t \<Longrightarrow> reach init step t"
  by (rotate_tac, induction rule: rtranclp_induct) (auto intro: reach_step)

locale inductive_invariant =
  fixes init :: "'s \<Rightarrow> bool" and step :: "'s \<Rightarrow> 's \<Rightarrow> bool" and inv :: "'s \<Rightarrow> bool"
  assumes inv_init: "init s \<Longrightarrow> inv s"
    and inv_step: "step s t \<Longrightarrow> inv s \<Longrightarrow> inv t"
begin

lemma inv_reach: "reach init step s \<Longrightarrow> inv s"
  by (induction rule: reach.induct) (auto intro: inv_init inv_step)

lemma inv_run: "step\<^sup>*\<^sup>* s t \<Longrightarrow> inv s \<Longrightarrow> inv t"
  by (induction rule: rtranclp_induct) (auto intro: inv_step)

end

text \<open>Every run of a system whose steps decrease a measure is finite.\<close>

locale decreasing_system =
  fixes step :: "'s \<Rightarrow> 's \<Rightarrow> bool" and inv :: "'s \<Rightarrow> bool" and rank :: "'s \<Rightarrow> nat"
  assumes keeps: "step s t \<Longrightarrow> inv s \<Longrightarrow> inv t"
    and decreases: "step s t \<Longrightarrow> inv s \<Longrightarrow> rank t < rank s"
begin

lemma run_bound: "(step ^^ n) s t \<Longrightarrow> inv s \<Longrightarrow> n + rank t \<le> rank s"
proof (induction n arbitrary: t)
  case 0
  then show ?case by simp
next
  case (Suc n)
  from Suc.prems(1) obtain u where u: "(step ^^ n) s u" and ut: "step u t"
    by auto
  from u have "step\<^sup>*\<^sup>* s u" by (rule relpowp_imp_rtranclp)
  then have "inv u" using Suc.prems(2)
    by (induction rule: rtranclp_induct) (auto intro: keeps)
  with ut have "rank t < rank u" by (rule decreases)
  moreover have "n + rank u \<le> rank s" using Suc.IH [OF u Suc.prems(2)] .
  ultimately show ?case by simp
qed

text \<open>A run that is not stuck can be continued; so some run ends in a stuck state.\<close>

lemma reaches_stuck: "inv s \<Longrightarrow> \<exists>t. step\<^sup>*\<^sup>* s t \<and> inv t \<and> (\<forall>u. \<not> step t u)"
proof (induction "rank s" arbitrary: s rule: less_induct)
  case less
  show ?case
  proof (cases "\<exists>u. step s u")
    case True
    then obtain u where su: "step s u" by blast
    with less.prems have "inv u" and "rank u < rank s" by (auto intro: keeps decreases)
    from less.hyps [OF this(2) this(1)] su show ?thesis
      by (meson converse_rtranclp_into_rtranclp)
  next
    case False
    with less.prems show ?thesis by blast
  qed
qed

end

section \<open>Mutual exclusion by a lock\<close>

text \<open>
  The lock of a system with numbered threads, by its holder, and the threads that are
  inside the section it protects: the holder is inside, and nobody else.
\<close>

definition guards :: "nat option \<Rightarrow> (nat \<Rightarrow> bool) \<Rightarrow> bool" where
  "guards h cs \<longleftrightarrow> (\<forall>i. cs i \<longleftrightarrow> h = Some i)"

lemma guards_unique: "guards h cs \<Longrightarrow> cs i \<Longrightarrow> cs j \<Longrightarrow> i = j"
  by (auto simp: guards_def)

lemma guards_holder: "guards h cs \<Longrightarrow> cs i \<Longrightarrow> h = Some i"
  by (simp add: guards_def)

lemma guards_free: "guards None cs \<Longrightarrow> \<not> cs i"
  by (simp add: guards_def)

lemma guards_acquire: "guards None cs \<Longrightarrow> guards (Some i) (cs(i := True))"
  by (auto simp: guards_def)

lemma guards_release: "guards h cs \<Longrightarrow> cs i \<Longrightarrow> guards None (cs(i := False))"
  by (auto simp: guards_def)

lemma guards_stay: "guards h cs \<Longrightarrow> cs i = q \<Longrightarrow> guards h (cs(i := q))"
  by (auto simp: guards_def)

lemma guards_init: "guards None (\<lambda>_. False)"
  by (simp add: guards_def)

end
