(* ===== verification/Read_Line.thy ===== *)
theory Read_Line
  imports C_Prelude
begin

text \<open>
  \<open>socket/internet_tcp/common.c\<close>: \<open>readLine\<close>, the routine both ends of the TCP demo
  use, and \<open>fatalError\<close>. The descriptor is read through a parameter: \<open>read(fd, &ch, 1)\<close>
  is a system call. The locale \<open>byte_source\<close> holds what POSIX promises of it on a
  stream, and the theory proves \<open>readLine\<close> against its comment inside that locale.
  A receive script (the chunks, interruptions and failures a descriptor will deliver, in
  order) is the concrete source every other component of the socket programs reads from.
\<close>

section \<open>The routine\<close>

text \<open>
  The loop of \<open>readLine\<close>. The pointer \<open>p\<close> of the C code is always
  \<open>buffer + totalReadSize\<close>. \<open>None\<close> stands for "has not returned yet": the first
  argument after \<open>n\<close> bounds the number of \<open>read\<close> calls.
\<close>

fun readLine_loop ::
  "('k, char list) kcall \<Rightarrow> nat \<Rightarrow> nat \<Rightarrow> nat \<Rightarrow> char list \<Rightarrow>
   ('k, (int \<times> char list) option) io" where
  "readLine_loop rd n 0 totalReadSize buffer = ret None"
| "readLine_loop rd n (Suc fuel) totalReadSize buffer = do {
     (readSize, bs) \<leftarrow> sysbuf rd;
     if readSize = -1 then do {
       e \<leftarrow> get_errno;
       if e = EINTR then readLine_loop rd n fuel totalReadSize buffer
       else ret (Some (-1, buffer))
     }
     else if readSize = 0 then
       (if totalReadSize = 0 then ret (Some (0, buffer))
        else ret (Some (int totalReadSize, buffer[totalReadSize := NUL])))
     else
       (let ch = hd bs;
            room = totalReadSize < n - 1;
            buffer' = (if room then buffer[totalReadSize := ch] else buffer);
            total' = (if room then totalReadSize + 1 else totalReadSize)
        in if ch = NL then ret (Some (int total', buffer'[total' := NUL]))
           else readLine_loop rd n fuel total' buffer')
   }"

definition readLine ::
  "('k, char list) kcall \<Rightarrow> nat \<Rightarrow> char list option \<Rightarrow> nat \<Rightarrow>
   ('k, (int \<times> char list option) option) io" where
  "readLine rd fuel buffer n =
     (case buffer of
        None \<Rightarrow> do { _ \<leftarrow> set_errno EINVAL; ret (Some (-1, None)) }
      | Some buf \<Rightarrow>
          if n \<le> 0 then do { _ \<leftarrow> set_errno EINVAL; ret (Some (-1, Some buf)) }
          else do {
            r \<leftarrow> readLine_loop rd n fuel 0 buf;
            ret (map_option (\<lambda>(v, b). (v, Some b)) r)
          })"

definition EXIT_SUCCESS :: int where "EXIT_SUCCESS = 0"
definition EXIT_FAILURE :: int where "EXIT_FAILURE = 1"

text \<open>\<open>fatalError\<close> prints its message and ends the program with the failure status.\<close>

definition fatalError :: "string \<Rightarrow> ('k, int) io" where
  "fatalError msg = do { _ \<leftarrow> printf ''%s\<newline>'' [FStr msg]; ret EXIT_FAILURE }"

section \<open>What the comment promises\<close>

text \<open>The first line of a byte sequence, its newline included.\<close>

fun first_line :: "char list \<Rightarrow> char list" where
  "first_line [] = []"
| "first_line (c # cs) = (if c = NL then [c] else c # first_line cs)"

lemma first_line_empty [simp]: "first_line bs = [] \<longleftrightarrow> bs = []"
  by (cases bs) auto

lemma first_line_length: "length (first_line bs) \<le> length bs"
  by (induction bs) auto

lemma first_line_prefix: "bs = first_line bs @ drop (length (first_line bs)) bs"
  by (induction bs) auto

lemma first_line_append_NL: "NL \<notin> set bs \<Longrightarrow> first_line (bs @ NL # rest) = bs @ [NL]"
  by (induction bs) auto

lemma first_line_no_NL: "NL \<notin> set bs \<Longrightarrow> first_line bs = bs"
  by (induction bs) auto

lemma first_line_idem [simp]: "first_line (first_line bs) = first_line bs"
  by (induction bs) auto

lemma set_first_line: "set (first_line bs) \<subseteq> set bs"
  by (induction bs) auto

lemma first_line_take: "first_line (take m (first_line bs)) = take m (first_line bs)"
proof (induction bs arbitrary: m)
  case (Cons c cs)
  then show ?case by (cases m) auto
qed simp

text \<open>The buffer after a line of bytes was stored at its start and terminated.\<close>

definition stored :: "char list \<Rightarrow> char list \<Rightarrow> char list" where
  "stored line buffer = line @ NUL # drop (length line + 1) buffer"

lemma stored_length: "length line < length buffer \<Longrightarrow> length (stored line buffer) = length buffer"
  by (simp add: stored_def)

lemma cstr_stored: "NUL \<notin> set line \<Longrightarrow> cstr (stored line buffer) = line"
  by (simp add: stored_def)

text \<open>The two writes of the loop, on a buffer whose first bytes are the line so far.\<close>

lemma store_byte:
  "length got < length buffer \<Longrightarrow>
   (got @ drop (length got) buffer)[length got := c] = got @ c # drop (Suc (length got)) buffer"
  by (simp add: list_update_append upd_conv_take_nth_drop)

lemma terminate_stored:
  "length got < length buffer \<Longrightarrow>
   (got @ drop (length got) buffer)[length got := NUL] = stored got buffer"
  by (simp add: store_byte stored_def)

text \<open>One turn of the loop that receives a byte.\<close>

lemma readLine_loop_byte:
  assumes "rd (kern s) = (Inr [c], k)" and "length got \<le> n - 1" and "0 < n" and "n \<le> length buffer"
  shows "run_state (readLine_loop rd n (Suc fuel) (length got) (got @ drop (length got) buffer)) s =
    (let got' = take (n - 1) (got @ [c])
     in if c = NL then (Some (int (length got'), stored got' buffer), s\<lparr>kern := k\<rparr>)
        else run_state (readLine_loop rd n fuel (length got') (got' @ drop (length got') buffer))
               (s\<lparr>kern := k\<rparr>))"
proof (cases "length got < n - 1")
  case True
  then have "take (n - 1) (got @ [c]) = got @ [c]" by simp
  with True assms show ?thesis
    using terminate_stored [of "got @ [c]" buffer] less_le_trans [of "length got + 1" n]
    by (auto simp add: io_simps Let_def store_byte)
next
  case False
  then have "take (n - 1) (got @ [c]) = got" using assms by simp
  with False assms show ?thesis
    using terminate_stored [of got buffer] by (auto simp: io_simps Let_def)
qed

text \<open>\<open>readLine\<close> touches the kernel through \<open>read\<close> only: what \<open>read\<close> keeps, it keeps.\<close>

lemma readLine_loop_frame:
  assumes "\<And>k r k'. rd k = (r, k') \<Longrightarrow> f k' = f k"
  shows "run_state (readLine_loop rd n fuel t buffer) s = (v, s') \<Longrightarrow> f (kern s') = f (kern s)"
proof (induction fuel arbitrary: t buffer s)
  case (Suc fuel)
  obtain r k where rd: "rd (kern s) = (r, k)" by force
  with assms have "f k = f (kern s)" by blast
  with Suc rd show ?case
    by (cases r) (fastforce simp: io_simps Let_def split: if_splits)+
qed simp

lemma readLine_frame:
  assumes "\<And>k r k'. rd k = (r, k') \<Longrightarrow> f k' = f k"
    and "run_state (readLine rd fuel buffer n) s = (v, s')"
  shows "f (kern s') = f (kern s)"
  using assms(2) readLine_loop_frame [where rd = rd and f = f, OF assms(1)]
  by (fastforce simp: readLine_def io_simps split: option.splits if_splits prod.splits)

section \<open>A byte source\<close>

text \<open>
  What POSIX says of \<open>read(fd, &ch, 1)\<close> on a stream whose peer has sent \<open>pending\<close>
  bytes before the end of file: one byte and the rest, the end of file, or an
  interruption by a signal (finitely many, counted by \<open>intr\<close>). \<open>ok\<close> are the states
  in which the descriptor does not fail otherwise.
\<close>

locale byte_source =
  fixes rd :: "('k, char list) kcall"
    and ok :: "'k \<Rightarrow> bool"
    and pending :: "'k \<Rightarrow> char list"
    and intr :: "'k \<Rightarrow> nat"
  assumes rd_eof: "ok k \<Longrightarrow> rd k = (Inr [], k') \<Longrightarrow> ok k' \<and> pending k = [] \<and> pending k' = []"
    and rd_byte: "ok k \<Longrightarrow> rd k = (Inr (c # cs), k') \<Longrightarrow>
      ok k' \<and> cs = [] \<and> pending k = c # pending k' \<and> intr k' \<le> intr k"
    and rd_intr: "ok k \<Longrightarrow> rd k = (Inl e, k') \<Longrightarrow>
      ok k' \<and> e = EINTR \<and> pending k' = pending k \<and> intr k' < intr k"
begin

text \<open>
  The loop started with \<open>t\<close> bytes stored ends with the first line appended to them, cut
  to \<open>n - 1\<close> bytes and terminated, and leaves what follows the line unread. Each
  \<open>read\<close> consumes a byte or an interruption, so the stated fuel is enough.
\<close>

lemma readLine_loop_spec:
  assumes "ok (kern s)" and "length (pending (kern s)) + intr (kern s) < fuel"
    and "length got \<le> n - 1" and "0 < n" and "n \<le> length buffer"
    and "got \<noteq> [] \<or> (pending (kern s) \<noteq> [] \<and> 2 \<le> n)"
  shows "\<exists>s'. run_state (readLine_loop rd n fuel (length got)
                 (got @ drop (length got) buffer)) s
           = (Some (let l = take (n - 1) (got @ first_line (pending (kern s)))
                    in (int (length l), stored l buffer)), s')
         \<and> ok (kern s') \<and> outs s' = outs s
         \<and> pending (kern s') = drop (length (first_line (pending (kern s)))) (pending (kern s))"
  using assms
proof (induction fuel arbitrary: s got)
  case 0
  then show ?case by simp
next
  case (Suc fuel)
  have len: "length got < length buffer" using Suc.prems by simp
  obtain r k where rd: "rd (kern s) = (r, k)" by force
  consider (intr) e where "r = Inl e" | (eof) "r = Inr []" | (byte) c cs where "r = Inr (c # cs)"
    by (metis list.exhaust sum.exhaust)
  then show ?case
  proof cases
    case intr
    from rd_intr Suc.prems(1) rd intr
    have "ok k" "e = EINTR" "pending k = pending (kern s)" "intr k < intr (kern s)" by auto
    then show ?thesis using Suc.IH [of "s\<lparr>kern := k, errno := EINTR\<rparr>" got] Suc.prems rd intr
      by (simp add: io_simps)
  next
    case eof
    from rd_eof Suc.prems(1) rd eof
    have "ok k" "pending (kern s) = []" "pending k = []" by auto
    then show ?thesis using Suc.prems rd eof len
      by (simp add: io_simps terminate_stored)
  next
    case byte
    from rd_byte Suc.prems(1) rd byte
    have k: "ok k" "cs = []" "pending (kern s) = c # pending k" "intr k \<le> intr (kern s)" by auto
    define got' where "got' = take (n - 1) (got @ [c])"
    have got': "length got' \<le> n - 1" "got' \<noteq> []"
      using Suc.prems k(3) by (auto simp: got'_def)
    have cut: "take (n - 1) (got' @ xs) = take (n - 1) (got @ c # xs)" for xs
      by (cases "length got < n - 1") (auto simp: got'_def take_Cons' Suc.prems)
    note step = readLine_loop_byte [of rd s c k got n buffer fuel, folded got'_def]
    show ?thesis
    proof (cases "c = NL")
      case True
      then show ?thesis using step Suc.prems k rd byte len cut [of "[]"] got'
        by (simp add: Let_def del: take_append readLine_loop.simps)
    next
      case False
      then show ?thesis
        using Suc.IH [of "s\<lparr>kern := k\<rparr>" got'] step Suc.prems k rd byte got' len
        by (simp add: Let_def cut del: take_append length_take One_nat_def readLine_loop.simps)
    qed
  qed
qed

lemma readLine_spec:
  assumes "ok (kern s)" and "length (pending (kern s)) + intr (kern s) < fuel"
    and "2 \<le> n" and "n \<le> length buffer" and "pending (kern s) \<noteq> []"
  shows "\<exists>s'. run_state (readLine rd fuel (Some buffer) n) s
           = (Some (let l = take (n - 1) (first_line (pending (kern s)))
                    in (int (length l), Some (stored l buffer))), s')
         \<and> ok (kern s') \<and> outs s' = outs s
         \<and> pending (kern s') = drop (length (first_line (pending (kern s)))) (pending (kern s))"
  using readLine_loop_spec [of s fuel "[]" n buffer] assms
  by (auto simp: readLine_def Let_def)

text \<open>At the end of the stream nothing is stored and 0 is returned.\<close>

lemma readLine_loop_eof:
  assumes "ok (kern s)" and "intr (kern s) < fuel" and "pending (kern s) = []"
  shows "\<exists>s'. run_state (readLine_loop rd n fuel 0 buffer) s = (Some (0, buffer), s')
         \<and> ok (kern s') \<and> outs s' = outs s \<and> pending (kern s') = []"
  using assms
proof (induction fuel arbitrary: s)
  case (Suc fuel)
  obtain r k where rd: "rd (kern s) = (r, k)" by force
  show ?case
  proof (cases r)
    case (Inl e)
    with rd_intr Suc.prems(1) rd
    have "ok k" "e = EINTR" "pending k = []" "intr k < intr (kern s)" using Suc.prems(3) by auto
    then show ?thesis using Suc.IH [of "s\<lparr>kern := k, errno := EINTR\<rparr>"] Suc.prems rd Inl
      by (simp add: io_simps)
  next
    case (Inr bs)
    then have "bs = []" using rd_byte Suc.prems rd by (cases bs) auto
    then show ?thesis using rd_eof [of "kern s" k] Suc.prems rd Inr
      by (simp add: io_simps)
  qed
qed simp

end

section \<open>Receive scripts\<close>

text \<open>
  What a descriptor will deliver: chunks of data, interruptions and failures, then the end
  of file. A \<open>read\<close> of at most \<open>n\<close> bytes takes the next event; a chunk longer than
  \<open>n\<close> is split, a shorter one is a short read. Quantifying over scripts quantifies over
  the ways a kernel can serve a stream.
\<close>

datatype rxev = Data "char list" | Intr | Fail int

fun script_read :: "nat \<Rightarrow> (rxev list, char list) kcall" where
  "script_read n [] = (Inr [], [])"
| "script_read n (Intr # es) = (Inl EINTR, es)"
| "script_read n (Fail e # es) = (Inl e, es)"
| "script_read n (Data bs # es) =
     (Inr (take n bs), if length bs \<le> n then es else Data (drop n bs) # es)"

fun clean_event :: "rxev \<Rightarrow> bool" where
  "clean_event (Data bs) = (bs \<noteq> [])"
| "clean_event Intr = True"
| "clean_event (Fail e) = False"

fun event_data :: "rxev \<Rightarrow> char list" where
  "event_data (Data bs) = bs"
| "event_data Intr = []"
| "event_data (Fail e) = []"

definition clean_script :: "rxev list \<Rightarrow> bool" where
  "clean_script es = list_all clean_event es"

definition script_data :: "rxev list \<Rightarrow> char list" where
  "script_data es = concat (map event_data es)"

definition script_intr :: "rxev list \<Rightarrow> nat" where
  "script_intr es = length (filter (\<lambda>e. e = Intr) es)"

lemma script_data_simps [simp]:
  "script_data [] = []"
  "script_data (e # es) = event_data e @ script_data es"
  by (simp_all add: script_data_def)

lemma clean_script_simps [simp]:
  "clean_script []"
  "clean_script (e # es) \<longleftrightarrow> clean_event e \<and> clean_script es"
  by (simp_all add: clean_script_def)

lemma script_intr_simps [simp]:
  "script_intr [] = 0"
  "script_intr (e # es) = (if e = Intr then 1 else 0) + script_intr es"
  by (simp_all add: script_intr_def)

interpretation script: byte_source "script_read 1" clean_script script_data script_intr
proof
  fix k k' :: "rxev list" and c cs e
  show "clean_script k' \<and> script_data k = [] \<and> script_data k' = []"
    if "clean_script k" "script_read 1 k = (Inr [], k')"
    using that by (cases "(1::nat, k)" rule: script_read.cases) auto
  show "clean_script k' \<and> cs = [] \<and> script_data k = c # script_data k' \<and> script_intr k' \<le> script_intr k"
    if "clean_script k" "script_read 1 k = (Inr (c # cs), k')"
    using that by (cases "(1::nat, k)" rule: script_read.cases) (auto simp: neq_Nil_conv split: if_splits)
  show "clean_script k' \<and> e = EINTR \<and> script_data k' = script_data k \<and> script_intr k' < script_intr k"
    if "clean_script k" "script_read 1 k = (Inl e, k')"
    using that by (cases "(1::nat, k)" rule: script_read.cases) auto
qed

section \<open>Properties of readLine\<close>

lemma readLine_loop_safe:
  assumes "run_state (readLine_loop rd n fuel t buffer) s = (Some (v, buffer'), s')"
    and "t < n"
  shows "length buffer' = length buffer \<and> drop n buffer' = drop n buffer \<and> -1 \<le> v \<and> v < int n"
  using assms
proof (induction fuel arbitrary: t buffer s)
  case (Suc fuel)
  obtain r k where rd: "rd (kern s) = (r, k)" by force
  show ?case
  proof (cases r)
    case (Inl e)
    with Suc.prems rd Suc.IH show ?thesis by (auto simp: io_simps split: if_splits)
  next
    case (Inr bs)
    let ?room = "t < n - 1"
    let ?buffer = "if ?room then buffer[t := hd bs] else buffer"
    let ?t = "if ?room then t + 1 else t"
    have room: "length ?buffer = length buffer" "drop n ?buffer = drop n buffer" "?t < n"
      using Suc.prems(2) by auto
    show ?thesis
    proof (cases "bs = [] \<or> hd bs = NL")
      case True
      with Suc.prems rd Inr room show ?thesis by (auto simp: io_simps Let_def split: if_splits)
    next
      case False
      with Suc.prems rd Inr have "run_state (readLine_loop rd n fuel ?t ?buffer) (s\<lparr>kern := k\<rparr>)
          = (Some (v, buffer'), s')"
        by (simp add: io_simps Let_def)
      from Suc.IH [OF this room(3)] room show ?thesis by simp
    qed
  qed
qed simp

text \<open>
  C20. \<open>readLine\<close> is memory safe against every kernel: whatever \<open>read\<close> returns, and
  whenever the call returns at all, no byte of the caller's memory at or beyond offset
  \<open>n\<close> changes, and the result lies between -1 and \<open>n - 1\<close>.
\<close>

theorem readLine_memory_safe:
  assumes "run_state (readLine rd fuel (Some buffer) n) s = (Some (v, buffer'), s')"
  shows "\<exists>b. buffer' = Some b \<and> length b = length buffer \<and> drop n b = drop n buffer
      \<and> -1 \<le> v \<and> (v = -1 \<or> v < int n)"
proof (cases "n \<le> 0")
  case True
  with assms show ?thesis by (auto simp: readLine_def io_simps)
next
  case False
  with assms obtain b where "buffer' = Some b"
      and "run_state (readLine_loop rd n fuel 0 buffer) s = (Some (v, b), s')"
    by (auto simp: readLine_def split: prod.splits)
  with readLine_loop_safe [of rd n fuel 0 buffer s v b s'] False show ?thesis by auto
qed

theorem readLine_memory_safe_witness:
  "run_state (readLine (script_read 1) 9 (Some (replicate 5 CHR ''#'')) 3)
     \<lparr>kern = [Data ''abc'', Intr, Data ''d\<newline>''], errno = 0, outs = []\<rparr>
     = (Some (2, Some [CHR ''a'', CHR ''b'', NUL, CHR ''#'', CHR ''#'']),
        \<lparr>kern = [], errno = EINTR, outs = []\<rparr>)
   \<and> drop 3 [CHR ''a'', CHR ''b'', NUL, CHR ''#'', CHR ''#''] = drop 3 (replicate 5 CHR ''#'')"
proof -
  have run: "run_state (readLine (script_read 1) 9 (Some (replicate 5 CHR ''#'')) 3)
     \<lparr>kern = [Data ''abc'', Intr, Data ''d\<newline>''], errno = 0, outs = []\<rparr>
     = (Some (2, Some [CHR ''a'', CHR ''b'', NUL, CHR ''#'', CHR ''#'']),
        \<lparr>kern = [], errno = EINTR, outs = []\<rparr>)"
    by (simp add: readLine_def io_simps Let_def numeral_eq_Suc)
  from readLine_memory_safe [OF run] run show ?thesis by auto
qed

text \<open>
  C1. \<open>readLine\<close> reads exactly one line. On a stream with at least one byte left,
  however the kernel cuts it into chunks and however often it interrupts the call,
  \<open>readLine\<close> returns after at most one \<open>read\<close> per byte and interruption; it stores
  the first line (newline included), cut to \<open>n - 1\<close> bytes and null-terminated, returns
  the number of bytes stored, and leaves everything after the line unread: the excess of a
  long line is discarded.
\<close>

theorem readLine_reads_one_line:
  assumes "clean_script rx" and "script_data rx \<noteq> []"
    and "length (script_data rx) + script_intr rx < fuel"
    and "2 \<le> n" and "n \<le> length buffer"
  shows "\<exists>s'. run_state (readLine (script_read 1) fuel (Some buffer) n)
             \<lparr>kern = rx, errno = e, outs = os\<rparr>
           = (Some (let l = take (n - 1) (first_line (script_data rx))
                    in (int (length l), Some (stored l buffer))), s')
         \<and> outs s' = os
         \<and> script_data (kern s') = drop (length (first_line (script_data rx))) (script_data rx)"
  using script.readLine_spec [of "\<lparr>kern = rx, errno = e, outs = os\<rparr>" fuel n buffer] assms
  by auto

theorem readLine_reads_one_line_witness:
  "\<exists>s'. run_state (readLine (script_read 1) 12 (Some (replicate 8 CHR ''#'')) 8)
        \<lparr>kern = [Data ''hel'', Intr, Data ''lo\<newline>next''], errno = 0, outs = []\<rparr>
      = (Some (6, Some (''hello\<newline>'' @ [NUL, CHR ''#''])), s')
    \<and> script_data (kern s') = ''next''"
  using readLine_reads_one_line
    [of "[Data ''hel'', Intr, Data ''lo\<newline>next'']" 12 8 "replicate 8 CHR ''#''" 0 "[]"]
  by (auto simp: Let_def stored_def numeral_eq_Suc)

text \<open>
  At the end of the stream \<open>readLine\<close> returns 0 and stores nothing, after as many
  retries as there are interruptions.
\<close>

lemma readLine_eof:
  assumes "clean_script rx" and "script_data rx = []" and "script_intr rx < fuel" and "0 < n"
  shows "\<exists>s'. run_state (readLine (script_read 1) fuel (Some buffer) n)
             \<lparr>kern = rx, errno = e, outs = os\<rparr> = (Some (0, Some buffer), s') \<and> outs s' = os"
  using script.readLine_loop_eof [of "\<lparr>kern = rx, errno = e, outs = os\<rparr>" fuel n buffer] assms
  by (auto simp: readLine_def)

end
