(* ===== verification/Tcp_Echo.thy ===== *)
theory Tcp_Echo
  imports Read_Line
begin

text \<open>
  The TCP echo demo, \<open>socket/internet_tcp\<close>: \<open>client.c\<close> and \<open>server.c\<close> on top of
  \<open>readLine\<close>. The socket interface of the kernel is the record \<open>sock_os\<close>, an
  argument of every definition. The locale \<open>socket_fds\<close> states what POSIX says of
  descriptors; the connect and bind loops are proved to leak none. \<open>net_os\<close> is a
  network in memory that satisfies it, on which the two ends are composed.
\<close>

section \<open>The socket interface\<close>

record addrinfo =
  ai_family :: int
  ai_socktype :: int
  ai_protocol :: int
  ai_addr :: string

record 'k sock_os =
  so_getaddrinfo :: "string option \<Rightarrow> string \<Rightarrow> ('k, addrinfo list) kcall"
  so_ignore_sigpipe :: "('k, int) kcall"
  so_socket :: "int \<Rightarrow> int \<Rightarrow> int \<Rightarrow> ('k, int) kcall"
  so_reuseaddr :: "int \<Rightarrow> ('k, int) kcall"
  so_connect :: "int \<Rightarrow> string \<Rightarrow> ('k, int) kcall"
  so_bind :: "int \<Rightarrow> string \<Rightarrow> ('k, int) kcall"
  so_listen :: "int \<Rightarrow> int \<Rightarrow> ('k, int) kcall"
  so_getsockname :: "int \<Rightarrow> ('k, string) kcall"
  so_getnameinfo :: "string \<Rightarrow> ('k, string \<times> string) kcall"
  so_accept :: "int \<Rightarrow> ('k, int \<times> string) kcall"
  so_read :: "int \<Rightarrow> nat \<Rightarrow> ('k, char list) kcall"
  so_write :: "int \<Rightarrow> char list \<Rightarrow> ('k, int) kcall"
  so_close :: "int \<Rightarrow> ('k, int) kcall"

definition BACKLOG :: int where "BACKLOG = 50"

text \<open>\<open>NI_MAXHOST\<close> is 1025 and \<open>NI_MAXSERV\<close> is 32 in \<open>netdb.h\<close>.\<close>

definition ADDRSTRLEN :: nat where "ADDRSTRLEN = 1025 + 32 + 10"

definition g_buffSize :: nat where "g_buffSize = 64"

section \<open>The client\<close>

text \<open>The loop over the addresses: the first one that connects, as its descriptor.\<close>

fun connect_loop :: "'k sock_os \<Rightarrow> addrinfo list \<Rightarrow> ('k, int option) io" where
  "connect_loop os [] = ret None"
| "connect_loop os (rp # rest) = do {
     cfd \<leftarrow> sys (so_socket os (ai_family rp) (ai_socktype rp) (ai_protocol rp));
     if cfd = -1 then connect_loop os rest
     else do {
       r \<leftarrow> sys (so_connect os cfd (ai_addr rp));
       if r \<noteq> -1 then ret (Some cfd)
       else do {
         _ \<leftarrow> printf ''connect failed\<newline>'' [];
         _ \<leftarrow> sys (so_close os cfd);
         connect_loop os rest
       }
     }
   }"

text \<open>
  The exchange on the connected descriptor. Comparing the \<open>ssize_t\<close> of \<open>write\<close> with the
  \<open>size_t\<close> length makes -1 differ from every length, as it does here.
\<close>

definition client_exchange ::
  "'k sock_os \<Rightarrow> nat \<Rightarrow> int \<Rightarrow> string \<Rightarrow> char list \<Rightarrow> ('k, int option) io" where
  "client_exchange os fuel cfd msg buffer = do {
     w \<leftarrow> sys (so_write os cfd (cstr msg));
     if w \<noteq> int (strlen msg) then map_state Some (fatalError ''write size != msg length'')
     else do {
       w2 \<leftarrow> sys (so_write os cfd [NL]);
       if w2 \<noteq> 1 then map_state Some (fatalError ''write size != msg length'')
       else do {
         r \<leftarrow> readLine (so_read os cfd 1) fuel (Some buffer) g_buffSize;
         case r of
           None \<Rightarrow> ret None
         | Some (readSize, buf) \<Rightarrow>
             if readSize \<le> 0 then map_state Some (fatalError ''read line had error'')
             else do {
               _ \<leftarrow> printf ''read buffer from server: %d [%s]\<newline>''
                      [FInt readSize, FStr (cstr (the buf))];
               _ \<leftarrow> sys (so_close os cfd);
               ret (Some 0)
             }
       }
     }
   }"

text \<open>\<open>main\<close> of \<open>client.c\<close>: the exit status, or \<open>None\<close> while \<open>readLine\<close> has not returned.\<close>

definition client_main ::
  "'k sock_os \<Rightarrow> nat \<Rightarrow> char list \<Rightarrow> string list \<Rightarrow> ('k, int option) io" where
  "client_main os fuel buffer argv =
     (if length argv < 4 \<or> argv ! 1 = ''--help'' \<or> argv ! 1 = ''-h'' then do {
        _ \<leftarrow> printf ''usage: %s host port msg\<newline>'' [FStr (argv ! 0)];
        ret (Some EXIT_SUCCESS)
      }
      else do {
        result \<leftarrow> sysopt (so_getaddrinfo os (Some (argv ! 1)) (argv ! 2));
        case result of
          None \<Rightarrow> map_state Some (fatalError ''get addr info error'')
        | Some addrs \<Rightarrow> do {
            cfd \<leftarrow> connect_loop os addrs;
            case cfd of
              None \<Rightarrow> map_state Some (fatalError ''could not connect socket'')
            | Some fd \<Rightarrow> client_exchange os fuel fd (argv ! 3) buffer
          }
      })"

section \<open>The server\<close>

datatype bind_result = Bound int | NoAddress | SockOptFailed

fun bind_loop :: "'k sock_os \<Rightarrow> addrinfo list \<Rightarrow> ('k, bind_result) io" where
  "bind_loop os [] = ret NoAddress"
| "bind_loop os (rp # rest) = do {
     lfd \<leftarrow> sys (so_socket os (ai_family rp) (ai_socktype rp) (ai_protocol rp));
     if lfd = -1 then bind_loop os rest
     else do {
       r \<leftarrow> sys (so_reuseaddr os lfd);
       if r = -1 then ret SockOptFailed
       else do {
         b \<leftarrow> sys (so_bind os lfd (ai_addr rp));
         if b = 0 then ret (Bound lfd)
         else do {
           _ \<leftarrow> printf ''bind failed, clost this socket and try next address'' [];
           _ \<leftarrow> sys (so_close os lfd);
           bind_loop os rest
         }
       }
     }
   }"

text \<open>
  \<open>main\<close> of \<open>server.c\<close> up to the loop: the listening descriptor (\<open>Inr\<close>) or an exit
  status (\<open>Inl\<close>).
\<close>

definition server_listen :: "'k sock_os \<Rightarrow> int \<Rightarrow> ('k, int + int) io" where
  "server_listen os lfd = do {
     l \<leftarrow> sys (so_listen os lfd BACKLOG);
     if l = -1 then map_state Inl (fatalError ''listen error'')
     else do {
       a \<leftarrow> sysopt (so_getsockname os lfd);
       nm \<leftarrow> sysopt (so_getnameinfo os (case a of None \<Rightarrow> [] | Some x \<Rightarrow> x));
       _ \<leftarrow> (case nm of None \<Rightarrow> ret ()
              | Some (h, sv) \<Rightarrow> printf ''server socket is %s:%s\<newline>'' [FStr h, FStr sv]);
       _ \<leftarrow> printf ''wait for new connect\<newline>'' [];
       ret (Inr lfd)
     }
   }"

definition server_setup :: "'k sock_os \<Rightarrow> string list \<Rightarrow> ('k, int + int) io" where
  "server_setup os argv =
     (if length argv < 2 \<or> argv ! 1 = ''--help'' \<or> argv ! 1 = ''-h'' then do {
        _ \<leftarrow> printf ''usage: %s port\<newline>'' [FStr (argv ! 0)];
        ret (Inl EXIT_SUCCESS)
      }
      else do {
        sg \<leftarrow> sys (so_ignore_sigpipe os);
        if sg = -1 then map_state Inl (fatalError ''signal ignore error'')
        else do {
          result \<leftarrow> sysopt (so_getaddrinfo os None (argv ! 1));
          case result of
            None \<Rightarrow> map_state Inl (fatalError ''get addr info error'')
          | Some addrs \<Rightarrow> do {
              b \<leftarrow> bind_loop os addrs;
              case b of
                SockOptFailed \<Rightarrow> map_state Inl (fatalError ''set sock opt error'')
              | NoAddress \<Rightarrow> map_state Inl (fatalError ''couldn't bind socket to any address'')
              | Bound lfd \<Rightarrow> server_listen os lfd
            }
        }
      })"

text \<open>What is done with an accepted connection, after the name of the peer is known.\<close>

definition serve_client ::
  "'k sock_os \<Rightarrow> nat \<Rightarrow> int \<Rightarrow> string \<Rightarrow> char list \<Rightarrow> ('k, char list option) io" where
  "serve_client os fuel cltFd addrStr buffer = do {
     r \<leftarrow> readLine (so_read os cltFd 1) fuel (Some buffer) g_buffSize;
     case r of
       None \<Rightarrow> ret None
     | Some (readSize, buf) \<Rightarrow>
         if readSize \<le> 0 then do {
           _ \<leftarrow> sys (so_close os cltFd);
           ret buf
         }
         else do {
           _ \<leftarrow> printf ''connection from %s: %d [%s]\<newline>''
                  [FStr addrStr, FInt readSize, FStr (cstr (the buf))];
           w \<leftarrow> sys (so_write os cltFd (cstr (the buf)));
           _ \<leftarrow> (if w \<noteq> readSize then eprintf ''Error on write'' [] else ret ());
           c \<leftarrow> sys (so_close os cltFd);
           _ \<leftarrow> (if c = -1 then printf ''close error'' [] else ret ());
           ret buf
         }
   }"

text \<open>
  One turn of the server's loop: the buffer for the next turn (it is declared outside the
  loop), or \<open>None\<close> while \<open>readLine\<close> has not returned.
\<close>

definition serve_one ::
  "'k sock_os \<Rightarrow> nat \<Rightarrow> int \<Rightarrow> char list \<Rightarrow> ('k, char list option) io" where
  "serve_one os fuel lfd buffer = do {
     acc \<leftarrow> sysopt (so_accept os lfd);
     case acc of
       None \<Rightarrow> do { _ \<leftarrow> printf ''accept error'' []; ret (Some buffer) }
     | Some (cltFd, cltAddr) \<Rightarrow> do {
         nm \<leftarrow> sysopt (so_getnameinfo os cltAddr);
         serve_client os fuel cltFd
           (take (ADDRSTRLEN - 1)
             (case nm of None \<Rightarrow> ''(?UNKNOWN?)''
              | Some (h, sv) \<Rightarrow> ''('' @ h @ '', '' @ sv @ '')''))
           buffer
       }
   }"

text \<open>The first \<open>m\<close> turns of the endless loop.\<close>

fun server_loop ::
  "'k sock_os \<Rightarrow> nat \<Rightarrow> int \<Rightarrow> nat \<Rightarrow> char list \<Rightarrow> ('k, char list option) io" where
  "server_loop os fuel lfd 0 buffer = ret (Some buffer)"
| "server_loop os fuel lfd (Suc m) buffer = do {
     b \<leftarrow> serve_one os fuel lfd buffer;
     case b of None \<Rightarrow> ret None | Some buf \<Rightarrow> server_loop os fuel lfd m buf
   }"

section \<open>Descriptors\<close>

text \<open>The effect of a loop on the open descriptors: none, or the one it returns.\<close>

fun fd_effect :: "int option \<Rightarrow> int set \<Rightarrow> int set \<Rightarrow> bool" where
  "fd_effect None A B = (B = A)"
| "fd_effect (Some fd) A B = (0 \<le> fd \<and> fd \<notin> A \<and> B = insert fd A)"

fun bound_fd :: "bind_result \<Rightarrow> int option" where
  "bound_fd (Bound fd) = Some fd"
| "bound_fd NoAddress = None"
| "bound_fd SockOptFailed = None"

text \<open>
  What POSIX says of the descriptors of a process: \<open>socket\<close> returns a new one, a failing
  \<open>socket\<close> none, \<open>connect\<close>, \<open>bind\<close> and \<open>setsockopt\<close> change none, \<open>close\<close> gives one back.
\<close>

locale socket_fds =
  fixes os :: "'k sock_os" and open_fds :: "'k \<Rightarrow> int set"
  assumes socket_ok: "so_socket os f t p k = (Inr fd, k') \<Longrightarrow>
      0 \<le> fd \<and> fd \<notin> open_fds k \<and> open_fds k' = insert fd (open_fds k)"
    and socket_err: "so_socket os f t p k = (Inl e, k') \<Longrightarrow> open_fds k' = open_fds k"
    and connect_fds: "so_connect os fd a k = (r, k') \<Longrightarrow> open_fds k' = open_fds k"
    and connect_ok: "so_connect os fd a k = (Inr v, k') \<Longrightarrow> v = 0"
    and reuseaddr_fds: "so_reuseaddr os fd k = (r, k') \<Longrightarrow> open_fds k' = open_fds k"
    and bind_fds: "so_bind os fd a k = (r, k') \<Longrightarrow> open_fds k' = open_fds k"
    and close_fds: "so_close os fd k = (r, k') \<Longrightarrow> open_fds k' = open_fds k - {fd}"
begin

lemma connect_loop_fds:
  "run_state (connect_loop os addrs) s = (r, s') \<Longrightarrow>
   fd_effect r (open_fds (kern s)) (open_fds (kern s'))"
proof (induction addrs arbitrary: s)
  case (Cons a addrs)
  obtain v k1 where sock: "so_socket os (ai_family a) (ai_socktype a) (ai_protocol a) (kern s) = (v, k1)"
    by force
  show ?case
  proof (cases v)
    case (Inl e)
    with Cons.IH [of "s\<lparr>kern := k1, errno := e\<rparr>"] Cons.prems sock socket_err [OF sock [unfolded Inl]]
    show ?thesis by (simp add: io_simps)
  next
    case (Inr fd)
    note fd = socket_ok [OF sock [unfolded Inr]]
    obtain w k2 where con: "so_connect os fd (ai_addr a) k1 = (w, k2)" by force
    obtain c k3 where cl: "so_close os fd k2 = (c, k3)" by force
    have k3: "open_fds k3 = open_fds (kern s)"
      using fd connect_fds [OF con] close_fds [OF cl] by auto
    show ?thesis
    proof (cases w)
      case (Inr z)
      then show ?thesis using Cons.prems sock \<open>v = Inr fd\<close> con fd connect_fds [OF con]
          connect_ok [OF con [unfolded Inr]]
        by (auto simp: io_simps)
    next
      case (Inl e)
      then show ?thesis using Cons.prems sock \<open>v = Inr fd\<close> con cl k3 fd Cons.IH
        by (cases c) (fastforce simp: io_simps)+
    qed
  qed
qed simp

lemma bind_loop_fds:
  "run_state (bind_loop os addrs) s = (r, s') \<Longrightarrow>
   r \<noteq> SockOptFailed \<Longrightarrow> fd_effect (bound_fd r) (open_fds (kern s)) (open_fds (kern s'))"
proof (induction addrs arbitrary: s)
  case (Cons a addrs)
  obtain v k1 where sock: "so_socket os (ai_family a) (ai_socktype a) (ai_protocol a) (kern s) = (v, k1)"
    by force
  show ?case
  proof (cases v)
    case (Inl e)
    with Cons.IH [of "s\<lparr>kern := k1, errno := e\<rparr>"] Cons.prems sock socket_err [OF sock [unfolded Inl]]
    show ?thesis by (simp add: io_simps)
  next
    case (Inr fd)
    note fd = socket_ok [OF sock [unfolded Inr]]
    obtain o1 k2 where opt: "so_reuseaddr os fd k1 = (o1, k2)" by force
    obtain w k3 where bnd: "so_bind os fd (ai_addr a) k2 = (w, k3)" by force
    obtain c k4 where cl: "so_close os fd k3 = (c, k4)" by force
    have k3: "open_fds k3 = insert fd (open_fds (kern s))"
      using fd reuseaddr_fds [OF opt] bind_fds [OF bnd] by auto
    then have k4: "open_fds k4 = open_fds (kern s)"
      using fd close_fds [OF cl] by auto
    show ?thesis using Cons.prems sock \<open>v = Inr fd\<close> opt bnd cl k3 k4 fd Cons.IH
      by (cases o1; cases w; cases c) (fastforce simp: io_simps split: if_splits)+
  qed
qed simp

end

section \<open>A network in memory\<close>

text \<open>
  One process's view of a network: its descriptors, the families \<open>socket\<close> supports, the
  addresses that accept a connection, the connections waiting for \<open>accept\<close> with what
  each peer will send, and the bytes received (a script) and sent on the current
  connection. \<open>n_wr\<close> is a script of what comes of the next writes: an error, or at most so many
  bytes taken; when it is used up, writes are complete.
\<close>

record net =
  n_open :: "int list"
  n_families :: "int list"
  n_addrs :: "addrinfo list"
  n_reach :: "string list"
  n_queue :: "(string \<times> rxev list) list"
  n_rx :: "rxev list"
  n_tx :: "char list"
  n_wr :: "(int + nat) list"

definition fresh_fd :: "int list \<Rightarrow> int" where
  "fresh_fd fds = foldr max fds 2 + 1"

lemma fresh_fd_new: "fresh_fd fds \<notin> set fds" "0 \<le> fresh_fd fds"
proof -
  have "x \<le> foldr max fds 2" if "x \<in> set fds" for x
    using that by (induction fds) auto
  then show "fresh_fd fds \<notin> set fds" by (fastforce simp: fresh_fd_def)
  have "2 \<le> foldr max fds 2" by (induction fds) auto
  then show "0 \<le> fresh_fd fds" by (simp add: fresh_fd_def)
qed

definition net_socket :: "int \<Rightarrow> int \<Rightarrow> int \<Rightarrow> (net, int) kcall" where
  "net_socket f t p k =
     (if f \<in> set (n_families k)
      then (Inr (fresh_fd (n_open k)), k\<lparr>n_open := fresh_fd (n_open k) # n_open k\<rparr>)
      else (Inl 97, k))"

definition net_reach :: "int \<Rightarrow> string \<Rightarrow> (net, int) kcall" where
  "net_reach fd a k = (if a \<in> set (n_reach k) then Inr 0 else Inl 111, k)"

definition net_accept :: "int \<Rightarrow> (net, int \<times> string) kcall" where
  "net_accept lfd k =
     (case n_queue k of
        [] \<Rightarrow> (Inl EAGAIN, k)
      | (a, rx) # q \<Rightarrow>
          (Inr (fresh_fd (n_open k), a),
           k\<lparr>n_open := fresh_fd (n_open k) # n_open k, n_queue := q, n_rx := rx, n_tx := []\<rparr>))"

definition net_close :: "int \<Rightarrow> (net, int) kcall" where
  "net_close fd k =
     (if fd \<in> set (n_open k) then Inr 0 else Inl EBADF, k\<lparr>n_open := removeAll fd (n_open k)\<rparr>)"

definition net_read :: "int \<Rightarrow> nat \<Rightarrow> (net, char list) kcall" where
  "net_read fd n k = (case script_read n (n_rx k) of (r, rx) \<Rightarrow> (r, k\<lparr>n_rx := rx\<rparr>))"

text \<open>The bytes the next write takes, and whether every write can take \<open>n\<close> bytes.\<close>

fun taken :: "(int + nat) list \<Rightarrow> char list \<Rightarrow> char list" where
  "taken [] bs = bs"
| "taken (Inl e # w) bs = []"
| "taken (Inr n # w) bs = take n bs"

fun roomy :: "nat \<Rightarrow> (int + nat) list \<Rightarrow> bool" where
  "roomy n [] \<longleftrightarrow> True"
| "roomy n (Inl e # w) \<longleftrightarrow> False"
| "roomy n (Inr m # w) \<longleftrightarrow> n \<le> m \<and> roomy n w"

definition net_write :: "int \<Rightarrow> char list \<Rightarrow> (net, int) kcall" where
  "net_write fd bs k =
     (case n_wr k of
        Inl e # w \<Rightarrow> (Inl e, k\<lparr>n_wr := w\<rparr>)
      | w \<Rightarrow> (Inr (int (length (taken w bs))), k\<lparr>n_wr := tl w, n_tx := n_tx k @ taken w bs\<rparr>))"

lemma roomy_taken: "roomy n w \<Longrightarrow> length bs \<le> n \<Longrightarrow> taken w bs = bs"
  by (cases "(w, bs)" rule: taken.cases) auto

lemma roomy_tl: "roomy n w \<Longrightarrow> roomy n (tl w)"
  by (cases "(n, w)" rule: roomy.cases) auto

lemma net_write_room:
  "roomy n (n_wr k) \<Longrightarrow> length bs \<le> n \<Longrightarrow>
   net_write fd bs k = (Inr (int (length bs)), k\<lparr>n_wr := tl (n_wr k), n_tx := n_tx k @ bs\<rparr>)"
  by (cases "(n, n_wr k)" rule: roomy.cases) (auto simp: net_write_def)

text \<open>A write that fails or is short returns another value than the length of the line.\<close>

lemma taken_cut: "taken w (cstr line) = line \<longleftrightarrow> length (taken w (cstr line)) = length line"
proof -
  have "\<exists>m. taken w bs = take m bs" for bs
    by (cases "(w, bs)" rule: taken.cases) (auto intro: exI [of _ 0] exI [of _ "length bs"])
  then obtain m n where "taken w (cstr line) = take m (take n line)"
    by (metis cstr_def takeWhile_eq_take)
  then show ?thesis by (auto simp: take_all_iff min_def split: if_splits)
qed

definition net_os :: "net sock_os" where
  "net_os = \<lparr>
     so_getaddrinfo = (\<lambda>host port k. (Inr (n_addrs k), k)),
     so_ignore_sigpipe = (\<lambda>k. (Inr 0, k)),
     so_socket = net_socket,
     so_reuseaddr = (\<lambda>fd k. (Inr 0, k)),
     so_connect = net_reach,
     so_bind = net_reach,
     so_listen = (\<lambda>fd n k. (Inr 0, k)),
     so_getsockname = (\<lambda>fd k. (Inr ''0.0.0.0'', k)),
     so_getnameinfo = (\<lambda>a k. (Inr (a, ''0''), k)),
     so_accept = net_accept,
     so_read = net_read,
     so_write = net_write,
     so_close = net_close\<rparr>"

interpretation net: socket_fds net_os "\<lambda>k. set (n_open k)"
  by unfold_locales
     (auto simp: net_os_def net_socket_def net_reach_def net_close_def fresh_fd_new split: if_splits)

interpretation netsrc: byte_source "so_read net_os fd 1" "clean_script \<circ> n_rx" "script_data \<circ> n_rx"
    "script_intr \<circ> n_rx" for fd
  by unfold_locales
     (auto simp: net_os_def net_read_def split: prod.splits
       dest: script.rd_eof script.rd_byte script.rd_intr)

section \<open>Properties of the echo service\<close>

lemma net_read_frame:
  "so_read net_os fd n k = (r, k') \<Longrightarrow> k'\<lparr>n_rx := []\<rparr> = k\<lparr>n_rx := []\<rparr>"
  by (auto simp: net_os_def net_read_def split: prod.splits)

lemma net_readLine:
  assumes "clean_script (n_rx (kern s))" and "script_data (n_rx (kern s)) \<noteq> []"
    and "length (script_data (n_rx (kern s))) + script_intr (n_rx (kern s)) < fuel"
    and "length buffer = g_buffSize"
  shows "\<exists>rx e. run_state (readLine (so_read net_os fd 1) fuel (Some buffer) g_buffSize) s
           = (Some (let l = take 63 (first_line (script_data (n_rx (kern s))))
                    in (int (length l), Some (stored l buffer))),
              s\<lparr>kern := (kern s)\<lparr>n_rx := rx\<rparr>, errno := e\<rparr>)"
proof -
  from netsrc.readLine_spec [of s fuel g_buffSize buffer fd] assms obtain s' where
    run: "run_state (readLine (so_read net_os fd 1) fuel (Some buffer) g_buffSize) s
           = (Some (let l = take 63 (first_line (script_data (n_rx (kern s))))
                    in (int (length l), Some (stored l buffer))), s')"
    and out: "outs s' = outs s"
    by (auto simp: g_buffSize_def)
  have "(kern s')\<lparr>n_rx := []\<rparr> = (kern s)\<lparr>n_rx := []\<rparr>"
    using readLine_frame [where f = "\<lambda>k. k\<lparr>n_rx := []\<rparr>", OF net_read_frame run] .
  then have "kern s' = (kern s)\<lparr>n_rx := n_rx (kern s')\<rparr>"
    by (cases "kern s"; cases "kern s'") simp
  with out have "s' = s\<lparr>kern := (kern s)\<lparr>n_rx := n_rx (kern s')\<rparr>, errno := errno s'\<rparr>"
    by (cases s; cases s') simp
  with run show ?thesis by metis
qed

lemma serve_one_run:
  assumes "n_queue k = (a, rx) # q" and "clean_script rx" and "script_data rx \<noteq> []"
    and "length (script_data rx) + script_intr rx < fuel" and "length buffer = g_buffSize"
  defines "line \<equiv> take 63 (first_line (script_data rx))"
  shows "\<exists>k' e'. run_state (serve_one net_os fuel lfd buffer) \<lparr>kern = k, errno = e, outs = os\<rparr>
      = (Some (stored line buffer),
         \<lparr>kern = k', errno = e',
          outs = os @ [Printf ''connection from %s: %d [%s]\<newline>''
              [FStr (take (ADDRSTRLEN - 1) (''('' @ a @ '', 0)'')), FInt (int (length line)), FStr (cstr line)]]
            @ (if taken (n_wr k) (cstr line) \<noteq> line then [Eprintf ''Error on write'' []] else [])\<rparr>)
    \<and> n_tx k' = taken (n_wr k) (cstr line) \<and> n_queue k' = q \<and> set (n_open k') = set (n_open k)"
proof -
  let ?fd = "fresh_fd (n_open k)"
  let ?k = "k\<lparr>n_open := ?fd # n_open k, n_queue := q, n_rx := rx, n_tx := []\<rparr>"
  have ne: "line \<noteq> []" using assms(3) by (simp add: line_def)
  note full = cstr_full [of line]
  obtain rx' e' where
    rl: "run_state (readLine (so_read net_os ?fd 1) fuel (Some buffer) g_buffSize)
          \<lparr>kern = ?k, errno = e, outs = os\<rparr>
        = (Some (int (length line), Some (stored line buffer)), \<lparr>kern = ?k\<lparr>n_rx := rx'\<rparr>, errno = e', outs = os\<rparr>)"
    using net_readLine [of "\<lparr>kern = ?k, errno = e, outs = os\<rparr>" fuel buffer ?fd] assms
    by (auto simp: Let_def)
  have cut: "taken (n_wr k) (cstr line) = line \<longleftrightarrow> length (taken (n_wr k) (cstr line)) = length line"
    by (rule taken_cut)
  show ?thesis
  proof (cases "\<exists>err w. n_wr k = Inl err # w")
    case True
    then show ?thesis using assms(1) rl ne fresh_fd_new [of "n_open k"]
      by (auto simp: serve_one_def serve_client_def io_simps net_os_def net_accept_def net_write_def net_close_def stored_def)
  next
    case False
    then have "net_write ?fd (cstr line) (?k\<lparr>n_rx := rx'\<rparr>) = (Inr (int (length (taken (n_wr k) (cstr line)))),
        ?k\<lparr>n_rx := rx', n_wr := tl (n_wr k), n_tx := taken (n_wr k) (cstr line)\<rparr>)"
      by (auto simp: net_write_def split: list.splits sum.splits)
    with False show ?thesis using assms(1) rl ne cut fresh_fd_new [of "n_open k"]
      by (simp add: serve_one_def serve_client_def io_simps net_os_def net_accept_def net_close_def stored_def)
  qed
qed

text \<open>With room for the line, a write error is reported exactly for a null byte in it.\<close>

lemma taken_line_room:
  "roomy 63 w \<Longrightarrow> taken w (cstr (take 63 l)) = cstr (take 63 l)"
  by (rule roomy_taken) (use cstr_le [of "take 63 l"] in auto)

text \<open>
  C21. What the server does with a connection, for every way the peer's bytes can arrive and
  whatever comes of its \<open>write\<close>. It writes the string it read: the first line with its newline,
  cut to 63 bytes, up to its first null byte; the peer gets what the one \<open>write\<close> takes of it. It
  reports a write error exactly when that is not the whole line: a null byte cut it, or the write
  failed or was short. It leaves the descriptors as they were and keeps its buffer terminated.
\<close>

theorem serve_one_echoes:
  assumes "n_queue k = (a, rx) # q" and "clean_script rx" and "script_data rx \<noteq> []"
    and "length (script_data rx) + script_intr rx < fuel" and "length buffer = g_buffSize"
  defines "line \<equiv> take 63 (first_line (script_data rx))"
  shows "\<exists>k' e'. run_state (serve_one net_os fuel lfd buffer) \<lparr>kern = k, errno = e, outs = os\<rparr>
      = (Some (stored line buffer),
         \<lparr>kern = k', errno = e',
          outs = os @ [Printf ''connection from %s: %d [%s]\<newline>''
              [FStr (take (ADDRSTRLEN - 1) (''('' @ a @ '', 0)'')), FInt (int (length line)), FStr (cstr line)]]
            @ (if taken (n_wr k) (cstr line) \<noteq> line then [Eprintf ''Error on write'' []] else [])\<rparr>)
    \<and> n_tx k' = taken (n_wr k) (cstr line) \<and> n_queue k' = q \<and> set (n_open k') = set (n_open k)"
  using assms(1-5) unfolding line_def by (rule serve_one_run)

theorem serve_one_echoes_witness:
  "\<exists>k' e' b. run_state (serve_one net_os 9 3 (replicate 64 NUL))
        \<lparr>kern = \<lparr>n_open = [3], n_families = [2], n_addrs = [], n_reach = [],
                 n_queue = [(''10.0.0.7'', [Data ''h'', Intr, Data ''i\<newline>''])], n_rx = [], n_tx = [], n_wr = []\<rparr>,
         errno = 0, outs = []\<rparr>
      = (Some b, \<lparr>kern = k', errno = e',
          outs = [Printf ''connection from %s: %d [%s]\<newline>''
                   [FStr ''(10.0.0.7, 0)'', FInt 3, FStr ''hi\<newline>'']]\<rparr>)
    \<and> n_tx k' = ''hi\<newline>'' \<and> n_queue k' = [] \<and> set (n_open k') = {3}"
  using serve_one_echoes
    [of "\<lparr>n_open = [3], n_families = [2], n_addrs = [], n_reach = [],
          n_queue = [(''10.0.0.7'', [Data ''h'', Intr, Data ''i\<newline>''])], n_rx = [], n_tx = [], n_wr = []\<rparr>"
        "''10.0.0.7''" "[Data ''h'', Intr, Data ''i\<newline>'']" "[]" 9 "replicate 64 NUL" 3 0 "[]"]
  by (auto simp: g_buffSize_def ADDRSTRLEN_def)

lemma net_connect_loop:
  assumes "\<exists>a \<in> set addrs. ai_family a \<in> set (n_families (kern s)) \<and> ai_addr a \<in> set (n_reach (kern s))"
  shows "\<exists>fd fds e os. run_state (connect_loop net_os addrs) s
      = (Some fd, s\<lparr>kern := (kern s)\<lparr>n_open := fds\<rparr>, errno := e, outs := outs s @ os\<rparr>)"
  using assms
proof (induction addrs arbitrary: s)
  case (Cons a addrs)
  let ?k = "kern s" and ?fd = "fresh_fd (n_open (kern s))"
  show ?case
  proof (cases "ai_family a \<in> set (n_families ?k)")
    case False
    with Cons.IH [of "s\<lparr>errno := 97\<rparr>"] Cons.prems show ?thesis
      by (auto simp: io_simps net_os_def net_socket_def)
  next
    case True
    show ?thesis
    proof (cases "ai_addr a \<in> set (n_reach ?k)")
      case False
      let ?s = "s\<lparr>kern := ?k\<lparr>n_open := removeAll ?fd (n_open ?k)\<rparr>, errno := 111,
                  outs := outs s @ [Printf ''connect failed\<newline>'' []]\<rparr>"
      obtain fd fds e os where "run_state (connect_loop net_os addrs) ?s
          = (Some fd, ?s\<lparr>kern := (kern ?s)\<lparr>n_open := fds\<rparr>, errno := e, outs := outs ?s @ os\<rparr>)"
        using Cons.IH [of ?s] Cons.prems False by auto
      moreover have "run_state (connect_loop net_os (a # addrs)) s = run_state (connect_loop net_os addrs) ?s"
        using True False fresh_fd_new [of "n_open ?k"]
        by (simp add: io_simps net_os_def net_socket_def net_reach_def net_close_def)
      ultimately show ?thesis by auto
    next
      case reached: True
      have "run_state (connect_loop net_os (a # addrs)) s
          = (Some ?fd, s\<lparr>kern := ?k\<lparr>n_open := ?fd # n_open ?k\<rparr>, errno := errno s, outs := outs s @ []\<rparr>)"
        using True reached fresh_fd_new [of "n_open ?k"]
        by (simp add: io_simps net_os_def net_socket_def net_reach_def)
      then show ?thesis by blast
    qed
  qed
qed simp

lemma net_client_exchange:
  assumes "clean_script (n_rx k)" and "script_data (n_rx k) \<noteq> []"
    and "length (script_data (n_rx k)) + script_intr (n_rx k) < fuel"
    and "length buffer = g_buffSize" and "NUL \<notin> set msg" and "roomy (Suc (length msg)) (n_wr k)"
  defines "line \<equiv> take 63 (first_line (script_data (n_rx k)))"
  shows "\<exists>k' e'. run_state (client_exchange net_os fuel fd msg buffer) \<lparr>kern = k, errno = e, outs = os\<rparr>
      = (Some 0, \<lparr>kern = k', errno = e',
           outs = os @ [Printf ''read buffer from server: %d [%s]\<newline>''
                         [FInt (int (length line)), FStr (cstr line)]]\<rparr>)
    \<and> n_tx k' = n_tx k @ msg @ [NL] \<and> set (n_open k') = set (n_open k) - {fd}"
proof -
  let ?k1 = "k\<lparr>n_wr := tl (n_wr k), n_tx := n_tx k @ msg\<rparr>"
  let ?k = "k\<lparr>n_wr := tl (tl (n_wr k)), n_tx := n_tx k @ msg @ [NL]\<rparr>"
  have w1: "net_write fd msg k = (Inr (int (length msg)), ?k1)" using assms(6) by (intro net_write_room) auto
  have w2: "net_write fd [NL] ?k1 = (Inr 1, ?k)"
    using net_write_room [of "Suc (length msg)" ?k1 "[NL]" fd] roomy_tl [OF assms(6)] by simp
  obtain rx' e' where
    rl: "run_state (readLine (so_read net_os fd 1) fuel (Some buffer) g_buffSize)
          \<lparr>kern = ?k, errno = e, outs = os\<rparr>
        = (Some (int (length line), Some (stored line buffer)), \<lparr>kern = ?k\<lparr>n_rx := rx'\<rparr>, errno = e', outs = os\<rparr>)"
    using net_readLine [of "\<lparr>kern = ?k, errno = e, outs = os\<rparr>" fuel buffer fd] assms
    by (auto simp: Let_def)
  have "line \<noteq> []" using assms(2) by (simp add: line_def)
  then show ?thesis
    using rl assms(5) w1 w2
    by (auto simp: client_exchange_def io_simps net_os_def net_close_def stored_def strlen_def)
qed

lemma client_main_run:
  assumes "argv = [prog, host, port, msg]" and "host \<noteq> ''--help''" and "host \<noteq> ''-h''"
    and "NUL \<notin> set msg"
    and "\<exists>a \<in> set (n_addrs k). ai_family a \<in> set (n_families k) \<and> ai_addr a \<in> set (n_reach k)"
    and "clean_script (n_rx k)" and "script_data (n_rx k) \<noteq> []"
    and "length (script_data (n_rx k)) + script_intr (n_rx k) < fuel"
    and "length buffer = g_buffSize" and "roomy (Suc (length msg)) (n_wr k)"
  defines "line \<equiv> take 63 (first_line (script_data (n_rx k)))"
  shows "\<exists>s'. run_state (client_main net_os fuel buffer argv) \<lparr>kern = k, errno = e, outs = os\<rparr> = (Some 0, s')
    \<and> n_tx (kern s') = n_tx k @ msg @ [NL] \<and> set (n_open (kern s')) = set (n_open k)
    \<and> last (outs s') = Printf ''read buffer from server: %d [%s]\<newline>''
                         [FInt (int (length line)), FStr (cstr line)]"
proof -
  let ?s = "\<lparr>kern = k, errno = e, outs = os\<rparr>"
  obtain fd fds e1 os1 where
    con: "run_state (connect_loop net_os (n_addrs k)) ?s
      = (Some fd, \<lparr>kern = k\<lparr>n_open := fds\<rparr>, errno = e1, outs = os @ os1\<rparr>)"
    using net_connect_loop [of "n_addrs k" ?s] assms(5) by auto
  have fds: "set fds - {fd} = set (n_open k)"
    using net.connect_loop_fds [OF con] by auto
  obtain k' e' where
    "run_state (client_exchange net_os fuel fd msg buffer) \<lparr>kern = k\<lparr>n_open := fds\<rparr>, errno = e1, outs = os @ os1\<rparr>
      = (Some 0, \<lparr>kern = k', errno = e', outs = (os @ os1) @ [Printf ''read buffer from server: %d [%s]\<newline>''
           [FInt (int (length line)), FStr (cstr line)]]\<rparr>)"
    and "n_tx k' = n_tx k @ msg @ [NL]" and "set (n_open k') = set fds - {fd}"
    using net_client_exchange [of "k\<lparr>n_open := fds\<rparr>" fuel buffer msg fd e1 "os @ os1"] assms
    by (auto simp: line_def)
  moreover have "so_getaddrinfo net_os (Some host) port k = (Inr (n_addrs k), k)"
    by (simp add: net_os_def)
  ultimately show ?thesis
    using con fds assms(1-3) by (simp add: client_main_def io_simps)
qed

text \<open>
  The client against any server: if one of the resolved addresses can be connected, its writes
  are complete and the server sends at least one byte, the client ends with status 0, has sent its message
  and a newline, has printed the first line it received (cut to 63 bytes), and has no more
  descriptors open than before.
\<close>

lemma client_main_exchanges:
  assumes "argv = [prog, host, port, msg]" and "host \<noteq> ''--help''" and "host \<noteq> ''-h''"
    and "NUL \<notin> set msg"
    and "\<exists>a \<in> set (n_addrs k). ai_family a \<in> set (n_families k) \<and> ai_addr a \<in> set (n_reach k)"
    and "clean_script (n_rx k)" and "script_data (n_rx k) \<noteq> []"
    and "length (script_data (n_rx k)) + script_intr (n_rx k) < fuel"
    and "length buffer = g_buffSize" and "roomy (Suc (length msg)) (n_wr k)"
  defines "line \<equiv> take 63 (first_line (script_data (n_rx k)))"
  shows "\<exists>s'. run_state (client_main net_os fuel buffer argv) \<lparr>kern = k, errno = e, outs = os\<rparr> = (Some 0, s')
    \<and> n_tx (kern s') = n_tx k @ msg @ [NL] \<and> set (n_open (kern s')) = set (n_open k)
    \<and> last (outs s') = Printf ''read buffer from server: %d [%s]\<newline>''
                         [FInt (int (length line)), FStr (cstr line)]"
  using assms(1-10) unfolding line_def by (rule client_main_run)

text \<open>
  The connect loop leaks no descriptor, on every kernel whose descriptors behave as POSIX
  says: every socket it created and could not connect is closed again, and a descriptor it
  returns is the only new one.
\<close>

lemma connect_loop_no_leak:
  assumes "socket_fds os open_fds"
    and "run_state (connect_loop os addrs) s = (r, s')"
  shows "fd_effect r (open_fds (kern s)) (open_fds (kern s'))"
  using assms by (rule socket_fds.connect_loop_fds)

text \<open>
  The same for the server's bind loop: unless \<open>setsockopt\<close> fails, which ends the
  program, the loop leaves open exactly the descriptor it returns.
\<close>

lemma bind_loop_no_leak:
  assumes "socket_fds os open_fds"
    and "run_state (bind_loop os addrs) s = (r, s')" and "r \<noteq> SockOptFailed"
  shows "fd_effect (bound_fd r) (open_fds (kern s)) (open_fds (kern s'))"
  using assms by (rule socket_fds.bind_loop_fds)

text \<open>A short or failing write ends the client with an error, before it reads anything.\<close>

lemma client_short_write:
  assumes "NUL \<notin> set msg" and "taken (n_wr k) msg \<noteq> msg \<or> (\<exists>e w. n_wr k = Inl e # w)"
  shows "\<exists>k' e'. run_state (client_exchange net_os fuel fd msg buffer) \<lparr>kern = k, errno = e, outs = os\<rparr>
      = (Some EXIT_FAILURE, \<lparr>kern = k', errno = e', outs = os @ [Printf ''%s\<newline>'' [FStr ''write size != msg length'']]\<rparr>)
    \<and> n_rx k' = n_rx k"
proof (cases "\<exists>e w. n_wr k = Inl e # w")
  case True
  then show ?thesis using assms(1)
    by (auto simp: client_exchange_def io_simps net_os_def net_write_def strlen_def fatalError_def state.map_sel)
next
  case False
  then have "net_write fd msg k = (Inr (int (length (taken (n_wr k) msg))), k\<lparr>n_wr := tl (n_wr k), n_tx := n_tx k @ taken (n_wr k) msg\<rparr>)"
    by (auto simp: net_write_def split: list.splits sum.splits)
  moreover have "length (taken (n_wr k) msg) \<noteq> length msg" using False assms taken_cut [of "n_wr k" msg] by simp
  ultimately show ?thesis using assms(1)
    by (auto simp: client_exchange_def io_simps net_os_def strlen_def fatalError_def state.map_sel)
qed

text \<open>
  C2. The round trip. A client sends \<open>msg\<close> and a newline; the server, reading those bytes in any
  chunks, answers on the connection; the client, reading the answer in any chunks, prints the
  first line of what it sent with its newline, cut to 63 bytes: the whole message when it has no
  newline and at most 62 bytes. The message has no null byte, as an argument of \<open>main\<close>, and the
  writes of both ends are complete.
\<close>

theorem echo_roundtrip:
  assumes msg: "NUL \<notin> set msg"
    and server: "n_queue ks = (a, rxs) # q" "clean_script rxs" "script_data rxs = msg @ [NL]"
      "length msg + 1 + script_intr rxs < fs" "length bs = g_buffSize"
      "run_state (serve_one net_os fs lfd bs) \<lparr>kern = ks, errno = es, outs = os\<rparr> = (rs, ss)"
    and client: "clean_script (n_rx kc)" "script_data (n_rx kc) = n_tx (kern ss)" "n_tx kc = []"
      "length msg + 1 + script_intr (n_rx kc) < fc" "length bc = g_buffSize"
      "\<exists>a \<in> set (n_addrs kc). ai_family a \<in> set (n_families kc) \<and> ai_addr a \<in> set (n_reach kc)"
      "host \<noteq> ''--help''" "host \<noteq> ''-h''"
    and complete: "roomy 63 (n_wr ks)" "roomy (Suc (length msg)) (n_wr kc)"
  defines "line \<equiv> take 63 (first_line (msg @ [NL]))"
  shows "\<exists>sc. run_state (client_main net_os fc bc [prog, host, port, msg])
                \<lparr>kern = kc, errno = ec, outs = oc\<rparr> = (Some 0, sc)
    \<and> n_tx (kern sc) = script_data rxs
    \<and> last (outs sc) = Printf ''read buffer from server: %d [%s]\<newline>'' [FInt (int (length line)), FStr line]
    \<and> (NL \<notin> set msg \<longrightarrow> line = take 63 (msg @ [NL]))"
proof -
  have "set line \<subseteq> set (msg @ [NL])" unfolding line_def
    by (meson order_trans set_first_line set_take_subset)
  then have nn: "cstr line = line" using msg by (intro cstr_no_NUL) auto
  have len: "line \<noteq> []" "take 63 line = line" "first_line line = line" "length line \<le> length msg + 1"
    using first_line_length [of "msg @ [NL]"] by (auto simp: line_def first_line_take min_def)
  have "taken (n_wr ks) (cstr line) = line" using taken_line_room [OF complete(1), of "first_line (msg @ [NL])"] nn by (metis line_def)
  then have "n_tx (kern ss) = line"
    using serve_one_run [OF server(1,2), of fs bs lfd es os] server by (auto simp: line_def)
  moreover have "NL \<notin> set msg \<longrightarrow> line = take 63 (msg @ [NL])"
    using first_line_append_NL [of msg "[]"] by (simp add: line_def)
  ultimately show ?thesis
    using client_main_run [OF refl client(7,8) msg client(6,1), of fc bc prog port ec oc]
      client server(3) len nn complete(2) by auto
qed

theorem echo_roundtrip_witness:
  "\<exists>ss sc. run_state (serve_one net_os 5 3 (replicate 64 NUL))
        \<lparr>kern = \<lparr>n_open = [3], n_families = [2], n_addrs = [], n_reach = [],
                 n_queue = [(''10.0.0.7'', [Data ''h'', Data ''i\<newline>''])], n_rx = [], n_tx = [], n_wr = []\<rparr>,
         errno = 0, outs = []\<rparr> = (Some (''hi\<newline>'' @ NUL # replicate 60 NUL), ss)
    \<and> n_tx (kern ss) = ''hi\<newline>''
    \<and> run_state (client_main net_os 9 (replicate 64 NUL) [''client'', ''localhost'', ''5000'', ''hi''])
        \<lparr>kern = \<lparr>n_open = [], n_families = [2],
                 n_addrs = [\<lparr>ai_family = 2, ai_socktype = 1, ai_protocol = 6, ai_addr = ''127.0.0.1''\<rparr>],
                 n_reach = [''127.0.0.1''], n_queue = [], n_rx = [Data ''h'', Intr, Data ''i\<newline>''], n_tx = [], n_wr = []\<rparr>,
         errno = 0, outs = []\<rparr> = (Some 0, sc)
    \<and> n_tx (kern sc) = ''hi\<newline>''
    \<and> last (outs sc) = Printf ''read buffer from server: %d [%s]\<newline>'' [FInt 3, FStr ''hi\<newline>'']"
proof -
  let ?rxs = "[Data ''h'', Data ''i\<newline>'']"
  let ?ks = "\<lparr>n_open = [3], n_families = [2], n_addrs = [], n_reach = [],
                 n_queue = [(''10.0.0.7'', ?rxs)], n_rx = [], n_tx = [], n_wr = []\<rparr>"
  let ?kc = "\<lparr>n_open = [], n_families = [2],
                 n_addrs = [\<lparr>ai_family = 2, ai_socktype = 1, ai_protocol = 6, ai_addr = ''127.0.0.1''\<rparr>],
                 n_reach = [''127.0.0.1''], n_queue = [], n_rx = [Data ''h'', Intr, Data ''i\<newline>''], n_tx = [], n_wr = []\<rparr>"
  obtain ss where ss: "run_state (serve_one net_os 5 3 (replicate 64 NUL)) \<lparr>kern = ?ks, errno = 0, outs = []\<rparr>
      = (Some (''hi\<newline>'' @ NUL # replicate 60 NUL), ss)" and tx: "n_tx (kern ss) = ''hi\<newline>''"
    using serve_one_run [of ?ks "''10.0.0.7''" ?rxs "[]" 5 "replicate 64 NUL" 3 0 "[]"]
    by (auto simp: g_buffSize_def stored_def)
  from echo_roundtrip [of "''hi''" ?ks "''10.0.0.7''" ?rxs "[]" 5 "replicate 64 NUL" 3 0 "[]" _ ss
      ?kc 9 "replicate 64 NUL" "''localhost''" "''client''" "''5000''" 0 "[]", OF _ _ _ _ _ _ ss]
    ss tx show ?thesis by (simp add: g_buffSize_def)
qed

end
