(* ===== verification/Sem_CondVar.thy ===== *)
theory Sem_CondVar
  imports C_Prelude
begin

text \<open>
  The counting semaphore of \<open>thread/semaphore\<close>, built in \<open>sem.c\<close> from a mutex and a
  condition variable in shared memory, and the processes of its \<open>main.c\<close> that use it.

  Any number of threads (of any processes) run \<open>semaphore_post\<close> and \<open>semaphore_wait\<close>
  concurrently. A step is one thread executing one statement of the two functions; the
  primitives behave as POSIX says: \<open>pthread_mutex_lock\<close> proceeds only when the mutex
  is free, \<open>pthread_cond_wait\<close> releases the mutex and blocks in one step and takes the
  mutex again before it returns, \<open>pthread_cond_signal\<close> wakes one blocked thread if there
  is one. With the flag \<open>sp\<close> a blocked thread may also wake spuriously.
\<close>

section \<open>State\<close>

text \<open>\<open>struct semaphore\<close>: the mutex by its holder, the condition variable by its waiters.\<close>

record semaphore =
  lock :: "nat option"
  nonzero :: "nat set"
  count :: "32 word"

text \<open>Where a thread is; each place is before the statement it names.\<close>

datatype sem_pc =
    Idle
  | PostLock | PostTest | PostInc | PostUnlock
  | WaitLock | WaitTest | WaitSleep | WaitRelock | WaitDec | WaitUnlock

text \<open>
  What a process of \<open>main.c\<close> has done so far: nothing, passed \<open>semaphore_wait\<close>, or
  posted. \<open>incs\<close> and \<open>decs\<close> count the executions of \<open>count++\<close> and \<open>count--\<close>.
\<close>

datatype phase = Fresh | Holding | Finished

record sem_sys =
  sem :: semaphore
  pc :: "nat \<Rightarrow> sem_pc"
  phase :: "nat \<Rightarrow> phase"
  incs :: nat
  decs :: nat

text \<open>\<open>semaphore_create\<close>: the count is 1, the mutex free, nobody waits.\<close>

definition sem_created :: semaphore where
  "sem_created = \<lparr>lock = None, nonzero = {}, count = 1\<rparr>"

definition sem_init :: "sem_sys \<Rightarrow> bool" where
  "sem_init s \<longleftrightarrow> sem s = sem_created \<and> pc s = (\<lambda>_. Idle) \<and> phase s = (\<lambda>_. Fresh)
     \<and> incs s = 0 \<and> decs s = 0"

section \<open>Steps\<close>

inductive sem_step :: "bool \<Rightarrow> sem_sys \<Rightarrow> sem_sys \<Rightarrow> bool" for sp :: bool where
  post_call: "pc s i = Idle \<Longrightarrow> sem_step sp s (s\<lparr>pc := (pc s)(i := PostLock)\<rparr>)"
| post_lock: "pc s i = PostLock \<Longrightarrow> lock (sem s) = None \<Longrightarrow>
    sem_step sp s (s\<lparr>sem := (sem s)\<lparr>lock := Some i\<rparr>, pc := (pc s)(i := PostTest)\<rparr>)"
| post_signal: "pc s i = PostTest \<Longrightarrow> count (sem s) = 0 \<Longrightarrow> j \<in> nonzero (sem s) \<Longrightarrow>
    sem_step sp s (s\<lparr>sem := (sem s)\<lparr>nonzero := nonzero (sem s) - {j}\<rparr>,
                     pc := (pc s)(j := WaitRelock, i := PostInc)\<rparr>)"
| post_signal_none: "pc s i = PostTest \<Longrightarrow> count (sem s) = 0 \<Longrightarrow> nonzero (sem s) = {} \<Longrightarrow>
    sem_step sp s (s\<lparr>pc := (pc s)(i := PostInc)\<rparr>)"
| post_no_signal: "pc s i = PostTest \<Longrightarrow> count (sem s) \<noteq> 0 \<Longrightarrow>
    sem_step sp s (s\<lparr>pc := (pc s)(i := PostInc)\<rparr>)"
| post_inc: "pc s i = PostInc \<Longrightarrow>
    sem_step sp s (s\<lparr>sem := (sem s)\<lparr>count := count (sem s) + 1\<rparr>, pc := (pc s)(i := PostUnlock),
                     phase := (phase s)(i := Finished), incs := Suc (incs s)\<rparr>)"
| post_unlock: "pc s i = PostUnlock \<Longrightarrow>
    sem_step sp s (s\<lparr>sem := (sem s)\<lparr>lock := None\<rparr>, pc := (pc s)(i := Idle)\<rparr>)"
| wait_call: "pc s i = Idle \<Longrightarrow> sem_step sp s (s\<lparr>pc := (pc s)(i := WaitLock)\<rparr>)"
| wait_lock: "pc s i = WaitLock \<Longrightarrow> lock (sem s) = None \<Longrightarrow>
    sem_step sp s (s\<lparr>sem := (sem s)\<lparr>lock := Some i\<rparr>, pc := (pc s)(i := WaitTest)\<rparr>)"
| wait_block: "pc s i = WaitTest \<Longrightarrow> count (sem s) = 0 \<Longrightarrow>
    sem_step sp s (s\<lparr>sem := (sem s)\<lparr>lock := None, nonzero := insert i (nonzero (sem s))\<rparr>,
                     pc := (pc s)(i := WaitSleep)\<rparr>)"
| wait_spurious: "sp \<Longrightarrow> pc s i = WaitSleep \<Longrightarrow>
    sem_step sp s (s\<lparr>sem := (sem s)\<lparr>nonzero := nonzero (sem s) - {i}\<rparr>,
                     pc := (pc s)(i := WaitRelock)\<rparr>)"
| wait_relock: "pc s i = WaitRelock \<Longrightarrow> lock (sem s) = None \<Longrightarrow>
    sem_step sp s (s\<lparr>sem := (sem s)\<lparr>lock := Some i\<rparr>, pc := (pc s)(i := WaitTest)\<rparr>)"
| wait_pass: "pc s i = WaitTest \<Longrightarrow> count (sem s) \<noteq> 0 \<Longrightarrow>
    sem_step sp s (s\<lparr>pc := (pc s)(i := WaitDec)\<rparr>)"
| wait_dec: "pc s i = WaitDec \<Longrightarrow>
    sem_step sp s (s\<lparr>sem := (sem s)\<lparr>count := count (sem s) - 1\<rparr>, pc := (pc s)(i := WaitUnlock),
                     phase := (phase s)(i := Holding), decs := Suc (decs s)\<rparr>)"
| wait_unlock: "pc s i = WaitUnlock \<Longrightarrow>
    sem_step sp s (s\<lparr>sem := (sem s)\<lparr>lock := None\<rparr>, pc := (pc s)(i := Idle)\<rparr>)"

text \<open>
  The processes of \<open>main.c\<close>: each calls \<open>semaphore_wait\<close> once, and then
  \<open>semaphore_post\<close> once.
\<close>

definition main_step :: "bool \<Rightarrow> sem_sys \<Rightarrow> sem_sys \<Rightarrow> bool" where
  "main_step sp s t \<longleftrightarrow> sem_step sp s t
     \<and> (\<forall>i. pc s i = Idle \<and> pc t i = WaitLock \<longrightarrow> phase s i = Fresh)
     \<and> (\<forall>i. pc s i = Idle \<and> pc t i = PostLock \<longrightarrow> phase s i = Holding)"

section \<open>Running a schedule\<close>

text \<open>
  The steps as a function of a schedule: a thread calls a function, runs its next statement,
  or signals a chosen waiter. \<open>None\<close> when the thread cannot do that now.
\<close>

datatype sem_event = CallPost nat | CallWait nat | Run nat | Signal nat nat

fun sem_exec_at :: "sem_sys \<Rightarrow> nat \<Rightarrow> sem_pc \<Rightarrow> sem_sys option" where
  "sem_exec_at s i PostLock = (if lock (sem s) = None
     then Some (s\<lparr>sem := (sem s)\<lparr>lock := Some i\<rparr>, pc := (pc s)(i := PostTest)\<rparr>) else None)"
| "sem_exec_at s i PostTest = (if count (sem s) \<noteq> 0 \<or> nonzero (sem s) = {}
     then Some (s\<lparr>pc := (pc s)(i := PostInc)\<rparr>) else None)"
| "sem_exec_at s i PostInc = Some (s\<lparr>sem := (sem s)\<lparr>count := count (sem s) + 1\<rparr>,
     pc := (pc s)(i := PostUnlock), phase := (phase s)(i := Finished), incs := Suc (incs s)\<rparr>)"
| "sem_exec_at s i PostUnlock = Some (s\<lparr>sem := (sem s)\<lparr>lock := None\<rparr>, pc := (pc s)(i := Idle)\<rparr>)"
| "sem_exec_at s i WaitLock = (if lock (sem s) = None
     then Some (s\<lparr>sem := (sem s)\<lparr>lock := Some i\<rparr>, pc := (pc s)(i := WaitTest)\<rparr>) else None)"
| "sem_exec_at s i WaitTest = (if count (sem s) = 0
     then Some (s\<lparr>sem := (sem s)\<lparr>lock := None, nonzero := insert i (nonzero (sem s))\<rparr>,
            pc := (pc s)(i := WaitSleep)\<rparr>)
     else Some (s\<lparr>pc := (pc s)(i := WaitDec)\<rparr>))"
| "sem_exec_at s i WaitRelock = (if lock (sem s) = None
     then Some (s\<lparr>sem := (sem s)\<lparr>lock := Some i\<rparr>, pc := (pc s)(i := WaitTest)\<rparr>) else None)"
| "sem_exec_at s i WaitDec = Some (s\<lparr>sem := (sem s)\<lparr>count := count (sem s) - 1\<rparr>,
     pc := (pc s)(i := WaitUnlock), phase := (phase s)(i := Holding), decs := Suc (decs s)\<rparr>)"
| "sem_exec_at s i WaitUnlock = Some (s\<lparr>sem := (sem s)\<lparr>lock := None\<rparr>, pc := (pc s)(i := Idle)\<rparr>)"
| "sem_exec_at s i _ = None"

fun sem_exec :: "sem_sys \<Rightarrow> sem_event \<Rightarrow> sem_sys option" where
  "sem_exec s (CallPost i) = (if pc s i = Idle then Some (s\<lparr>pc := (pc s)(i := PostLock)\<rparr>) else None)"
| "sem_exec s (CallWait i) = (if pc s i = Idle then Some (s\<lparr>pc := (pc s)(i := WaitLock)\<rparr>) else None)"
| "sem_exec s (Run i) = sem_exec_at s i (pc s i)"
| "sem_exec s (Signal i j) = (if pc s i = PostTest \<and> count (sem s) = 0 \<and> j \<in> nonzero (sem s)
     then Some (s\<lparr>sem := (sem s)\<lparr>nonzero := nonzero (sem s) - {j}\<rparr>,
                  pc := (pc s)(j := WaitRelock, i := PostInc)\<rparr>) else None)"

fun sem_run :: "sem_sys \<Rightarrow> sem_event list \<Rightarrow> sem_sys option" where
  "sem_run s [] = Some s"
| "sem_run s (e # es) = (case sem_exec s e of None \<Rightarrow> None | Some t \<Rightarrow> sem_run t es)"

lemma sem_exec_at_sound: "sem_exec_at s i p = Some t \<Longrightarrow> pc s i = p \<Longrightarrow> sem_step sp s t"
  by (cases p) (auto split: if_splits intro: sem_step.intros)

lemma sem_exec_sound: "sem_exec s e = Some t \<Longrightarrow> sem_step sp s t"
  by (cases e) (auto split: if_splits intro: sem_step.intros sem_exec_at_sound)

lemma sem_run_sound: "sem_run s es = Some t \<Longrightarrow> (sem_step sp)\<^sup>*\<^sup>* s t"
proof (induction es arbitrary: s)
  case (Cons e es)
  then obtain u where "sem_exec s e = Some u" "sem_run u es = Some t" by (auto split: option.splits)
  with Cons.IH sem_exec_sound [of s e u sp] show ?case by (meson converse_rtranclp_into_rtranclp)
qed simp

text \<open>The events a process of \<open>main.c\<close> can produce, and a run of such processes.\<close>

fun main_event :: "sem_sys \<Rightarrow> sem_event \<Rightarrow> bool" where
  "main_event s (CallPost i) = (phase s i = Holding)"
| "main_event s (CallWait i) = (phase s i = Fresh)"
| "main_event s _ = True"

fun main_run :: "sem_sys \<Rightarrow> sem_event list \<Rightarrow> sem_sys option" where
  "main_run s [] = Some s"
| "main_run s (e # es) =
     (case sem_exec s e of None \<Rightarrow> None | Some t \<Rightarrow> if main_event s e then main_run t es else None)"

lemma main_exec_at_calls: "sem_exec_at s i p = Some t \<Longrightarrow> pc s i = p \<Longrightarrow> pc s k = Idle \<Longrightarrow> pc t k = Idle"
  by (cases p) (auto split: if_splits)

lemma main_exec_sound: "sem_exec s e = Some t \<Longrightarrow> main_event s e \<Longrightarrow> main_step sp s t"
  using sem_exec_sound [of s e t sp]
  by (cases e) (auto simp: main_step_def split: if_splits dest!: main_exec_at_calls)

lemma main_run_sound: "main_run s es = Some t \<Longrightarrow> (main_step sp)\<^sup>*\<^sup>* s t"
proof (induction es arbitrary: s)
  case (Cons e es)
  then obtain u where "sem_exec s e = Some u" "main_event s e" "main_run u es = Some t"
    by (auto split: option.splits if_splits)
  with Cons.IH main_exec_sound [of s e u sp] show ?case by (meson converse_rtranclp_into_rtranclp)
qed simp

definition sem_start :: sem_sys where
  "sem_start = \<lparr>sem = sem_created, pc = (\<lambda>_. Idle), phase = (\<lambda>_. Fresh), incs = 0, decs = 0\<rparr>"

lemma sem_init_start: "sem_init sem_start"
  by (simp add: sem_init_def sem_start_def)

lemma sem_run_reach: "sem_run sem_start es = Some t \<Longrightarrow> reach sem_init (sem_step sp) t"
  by (rule reach_run [OF reach_init [of sem_init, OF sem_init_start] sem_run_sound])

lemma main_run_reach: "main_run sem_start es = Some t \<Longrightarrow> reach sem_init (main_step sp) t"
  by (rule reach_run [OF reach_init [of sem_init, OF sem_init_start] main_run_sound])

text \<open>A schedule of two processes: process 0 takes the token, process 1 goes to sleep.\<close>

definition hold_and_sleep :: "sem_event list" where
  "hold_and_sleep = [CallWait 0, Run 0, Run 0, Run 0, Run 0, CallWait 1, Run 1, Run 1]"

lemma hold_and_sleep_run:
  "\<exists>s. main_run sem_start hold_and_sleep = Some s \<and> sem_run sem_start hold_and_sleep = Some s
     \<and> phase s 0 = Holding \<and> pc s 1 = WaitSleep \<and> incs s = 0 \<and> decs s = 1"
  by (simp add: hold_and_sleep_def sem_start_def sem_created_def)

section \<open>The mutex\<close>

fun in_lock :: "sem_pc \<Rightarrow> bool" where
  "in_lock PostTest = True"
| "in_lock PostInc = True"
| "in_lock PostUnlock = True"
| "in_lock WaitTest = True"
| "in_lock WaitDec = True"
| "in_lock WaitUnlock = True"
| "in_lock _ = False"

text \<open>
  The holder of the mutex is the thread inside the critical section; the waiters of the
  condition variable are the sleeping threads; a thread about to decrement has seen a
  positive count, which the mutex protects since.
\<close>

definition sem_inv :: "sem_sys \<Rightarrow> bool" where
  "sem_inv s \<longleftrightarrow> guards (lock (sem s)) (in_lock \<circ> pc s)
     \<and> nonzero (sem s) = {i. pc s i = WaitSleep}
     \<and> (\<forall>i. pc s i = WaitDec \<longrightarrow> count (sem s) \<noteq> 0)"

lemma sem_inv_unique: "sem_inv s \<Longrightarrow> in_lock (pc s i) \<Longrightarrow> in_lock (pc s j) \<Longrightarrow> i = j"
  using guards_unique [of "lock (sem s)" "in_lock \<circ> pc s" i j] by (simp add: sem_inv_def)

lemma sem_lock_step:
  assumes "sem_step sp s t" and "sem_inv s"
  shows "guards (lock (sem t)) (in_lock \<circ> pc t)"
proof -
  let ?cs = "in_lock \<circ> pc s"
  have g: "guards (lock (sem s)) ?cs" using assms(2) by (simp add: sem_inv_def)
  have stay: "guards (lock (sem s)) (?cs(i := q))" if "in_lock (pc s i) = q" for i q
    using that by (intro guards_stay [OF g]) simp
  have free: "guards None (?cs(i := False))" if "in_lock (pc s i)" for i
    using guards_release [OF g] that by simp
  from assms(1) show ?thesis
  proof cases
    case (post_signal i j)
    with assms(2) have "i \<noteq> j" "pc s j = WaitSleep" by (auto simp: sem_inv_def)
    with post_signal guards_stay [OF stay [of j False], of i True] show ?thesis
      by (simp add: fun_upd_comp)
  qed (use g in \<open>simp_all add: fun_upd_comp guards_acquire stay free\<close>)
qed

lemma sem_waiters_step:
  assumes "sem_step sp s t" and "sem_inv s"
  shows "nonzero (sem t) = {i. pc t i = WaitSleep}"
  using assms by cases (auto simp: sem_inv_def)

lemma sem_dec_step:
  assumes "sem_step sp s t" and "sem_inv s" and "pc t k = WaitDec"
  shows "count (sem t) \<noteq> 0"
  using assms(1)
proof cases
  case (post_inc i)
  with assms(3) have "pc s k = WaitDec" "k \<noteq> i" by (auto split: if_splits)
  with sem_inv_unique [OF assms(2), of k i] post_inc show ?thesis by simp
next
  case (wait_dec i)
  with assms(3) have "pc s k = WaitDec" "k \<noteq> i" by (auto split: if_splits)
  with sem_inv_unique [OF assms(2), of k i] wait_dec show ?thesis by simp
qed (use assms(2,3) in \<open>auto simp: sem_inv_def split: if_splits\<close>)

lemma sem_inv_step: "sem_step sp s t \<Longrightarrow> sem_inv s \<Longrightarrow> sem_inv t"
  using sem_lock_step [of sp s t] sem_waiters_step [of sp s t] sem_dec_step [of sp s t]
  by (simp add: sem_inv_def)

lemma sem_inv_init: "sem_init s \<Longrightarrow> sem_inv s"
  by (simp add: sem_init_def sem_created_def sem_inv_def comp_def guards_init)

interpretation sem: inductive_invariant sem_init "sem_step sp" sem_inv for sp
  by unfold_locales (auto intro: sem_inv_init sem_inv_step)

section \<open>The count\<close>

definition sem_count_inv :: "sem_sys \<Rightarrow> bool" where
  "sem_count_inv s \<longleftrightarrow> sem_inv s \<and>
     (incs s + 1 < 2 ^ 32 \<longrightarrow> unat (count (sem s)) + decs s = incs s + 1)"

lemma unat_dec_word: "(w :: 32 word) \<noteq> 0 \<Longrightarrow> unat (w - 1) + 1 = unat w"
  by (simp add: unat_minus_one unat_gt_0)

lemma unat_inc_word: "unat (w :: 32 word) + 1 < 2 ^ 32 \<Longrightarrow> unat (w + 1) = unat w + 1"
  by (simp add: unat_word_ariths)

lemma sem_count_inv_step:
  assumes "sem_step sp s t" and "sem_count_inv s"
  shows "sem_count_inv t"
proof -
  have inv: "sem_inv s" using assms(2) by (simp add: sem_count_inv_def)
  from assms(1) have "incs t + 1 < 2 ^ 32 \<longrightarrow> unat (count (sem t)) + decs t = incs t + 1"
  proof cases
    case (post_inc i)
    then show ?thesis using assms(2) unat_inc_word [of "count (sem s)"]
      by (auto simp: sem_count_inv_def)
  next
    case (wait_dec i)
    then have "count (sem s) \<noteq> 0" using inv by (auto simp: sem_inv_def)
    then show ?thesis using wait_dec assms(2) unat_dec_word [of "count (sem s)"]
      by (auto simp: sem_count_inv_def)
  qed (use assms(2) in \<open>auto simp: sem_count_inv_def\<close>)
  with sem_inv_step [OF assms(1) inv] show ?thesis by (simp add: sem_count_inv_def)
qed

interpretation semcount: inductive_invariant sem_init "sem_step sp" sem_count_inv for sp
  by unfold_locales
     (auto simp: sem_count_inv_def sem_init_def sem_created_def intro: sem_inv_init sem_count_inv_step
       dest: sem_count_inv_step [unfolded sem_count_inv_def])

text \<open>
  C24. The semaphore counts: as long as fewer than \<open>2^32 - 1\<close> posts were made (the count is a
  32-bit \<open>unsigned\<close>), the count is 1 plus the posts minus the waits that passed, so no
  more waits ever pass than 1 plus the number of posts.
\<close>

theorem sem_counts:
  assumes "reach sem_init (sem_step sp) s" and "incs s + 1 < 2 ^ 32"
  shows "unat (count (sem s)) + decs s = incs s + 1 \<and> decs s \<le> incs s + 1"
  using semcount.inv_reach [OF assms(1)] assms(2) by (auto simp: sem_count_inv_def)

theorem sem_counts_witness:
  "\<exists>s. reach sem_init (sem_step True) s \<and> decs s = 1 \<and> unat (count (sem s)) = 0"
proof -
  obtain s where run: "sem_run sem_start hold_and_sleep = Some s" and "incs s = 0" "decs s = 1"
    using hold_and_sleep_run by blast
  with sem_counts [OF sem_run_reach [OF run, of True]] sem_run_reach [OF run, of True]
  show ?thesis by auto
qed

section \<open>The processes of main\<close>

text \<open>
  Initially the semaphore holds one token; a process takes it in \<open>semaphore_wait\<close> and
  gives it back in \<open>semaphore_post\<close>. So either the count is 1 and nobody holds it, or the
  count is 0 and exactly one process does.
\<close>

fun phase_ok :: "sem_pc \<Rightarrow> phase \<Rightarrow> bool" where
  "phase_ok Idle q = True"
| "phase_ok PostLock q = (q = Holding)"
| "phase_ok PostTest q = (q = Holding)"
| "phase_ok PostInc q = (q = Holding)"
| "phase_ok PostUnlock q = (q = Finished)"
| "phase_ok WaitUnlock q = (q = Holding)"
| "phase_ok _ q = (q = Fresh)"

definition one_token :: "32 word \<Rightarrow> (nat \<Rightarrow> phase) \<Rightarrow> bool" where
  "one_token c ph \<longleftrightarrow> c = 1 \<and> (\<forall>i. ph i \<noteq> Holding) \<or> c = 0 \<and> (\<exists>h. \<forall>i. ph i = Holding \<longleftrightarrow> i = h)"

lemma one_token_take: "one_token c ph \<Longrightarrow> c \<noteq> 0 \<Longrightarrow> one_token (c - 1) (ph(i := Holding))"
  by (auto simp: one_token_def)

lemma one_token_give: "one_token c ph \<Longrightarrow> ph i = Holding \<Longrightarrow> one_token (c + 1) (ph(i := Finished))"
  by (auto simp: one_token_def)

lemma one_token_zero: "one_token c ph \<Longrightarrow> ph i = Holding \<Longrightarrow> c = 0"
  by (auto simp: one_token_def)

lemma one_token_unique: "one_token c ph \<Longrightarrow> ph i = Holding \<Longrightarrow> ph j = Holding \<Longrightarrow> i = j"
  by (auto simp: one_token_def)

definition token_inv :: "sem_sys \<Rightarrow> bool" where
  "token_inv s \<longleftrightarrow> sem_inv s \<and> one_token (count (sem s)) (phase s)
     \<and> (\<forall>i. phase_ok (pc s i) (phase s i))"

lemma phase_ok_step:
  assumes "main_step sp s t" and "token_inv s"
  shows "phase_ok (pc t k) (phase t k)"
proof -
  have step: "sem_step sp s t" using assms(1) by (simp add: main_step_def)
  have ok: "phase_ok (pc s i) (phase s i)" for i using assms(2) by (simp add: token_inv_def)
  from step show ?thesis
  proof cases
    case (post_signal i j)
    then have "pc s j = WaitSleep" using assms(2) by (auto simp: token_inv_def sem_inv_def)
    then show ?thesis using ok [of i] ok [of j] ok [of k] post_signal by auto
  next
    case (post_call i)
    then show ?thesis using ok [of k] assms(1) by (auto simp: main_step_def split: if_splits)
  next
    case (wait_call i)
    then show ?thesis using ok [of k] assms(1) by (auto simp: main_step_def split: if_splits)
  next
    case (wait_unlock i)
    then show ?thesis using ok [of k] by auto
  qed (use ok in \<open>auto split: if_splits\<close>, (metis phase_ok.simps)+)
qed

lemma one_token_step:
  assumes "main_step sp s t" and "token_inv s"
  shows "one_token (count (sem t)) (phase t)"
proof -
  have step: "sem_step sp s t" using assms(1) by (simp add: main_step_def)
  have tok: "one_token (count (sem s)) (phase s)" and ok: "phase_ok (pc s i) (phase s i)" for i
    using assms(2) by (auto simp: token_inv_def)
  from step show ?thesis
  proof cases
    case (post_inc i)
    with ok [of i] have "phase s i = Holding" by simp
    with post_inc tok show ?thesis by (simp add: one_token_give)
  next
    case (wait_dec i)
    with assms(2) have "count (sem s) \<noteq> 0" by (auto simp: token_inv_def sem_inv_def)
    with wait_dec tok show ?thesis by (simp add: one_token_take)
  qed (use tok in simp_all)
qed

lemma token_inv_step: "main_step sp s t \<Longrightarrow> token_inv s \<Longrightarrow> token_inv t"
  using sem_inv_step [of sp s t] one_token_step [of sp s t] phase_ok_step [of sp s t]
  by (simp add: token_inv_def main_step_def)

lemma token_inv_init: "sem_init s \<Longrightarrow> token_inv s"
  by (simp add: token_inv_def sem_inv_init one_token_def) (simp add: sem_init_def sem_created_def)

interpretation token: inductive_invariant sem_init "main_step sp" token_inv for sp
  by unfold_locales (auto intro: token_inv_init token_inv_step)

text \<open>
  C3. The processes that use one semaphore as \<open>main.c\<close> does, after \<open>semaphore_create\<close> has set its
  file up, exclude each other: in every reachable state at most one of them is between its
  \<open>semaphore_wait\<close> and its \<open>semaphore_post\<close>, and the count of the semaphore is then 0. The files
  \<open>main.c\<close> creates one after another are different semaphores; \<open>Sem_Program\<close> is about them.
\<close>

theorem main_excludes:
  assumes "reach sem_init (main_step sp) s" and "phase s i = Holding" and "phase s j = Holding"
  shows "i = j \<and> count (sem s) = 0"
proof -
  have "one_token (count (sem s)) (phase s)"
    using token.inv_reach [OF assms(1)] by (simp add: token_inv_def)
  with assms(2,3) show ?thesis by (auto dest: one_token_unique one_token_zero)
qed

theorem main_excludes_witness:
  "\<exists>s. reach sem_init (main_step True) s \<and> phase s 0 = Holding \<and> count (sem s) = 0"
proof -
  obtain s where run: "main_run sem_start hold_and_sleep = Some s" and "phase s 0 = Holding"
    using hold_and_sleep_run by blast
  with main_excludes [OF main_run_reach [OF run, of True], of 0 0] main_run_reach [OF run, of True]
  show ?thesis by blast
qed

section \<open>Wake-ups\<close>

text \<open>
  With one token \<open>semaphore_post\<close> always finds the count 0 and signals. So while the count
  is positive and a thread sleeps, some thread is on its way to take the token.
\<close>

fun taking :: "sem_pc \<Rightarrow> bool" where
  "taking WaitLock = True"
| "taking WaitRelock = True"
| "taking WaitTest = True"
| "taking WaitDec = True"
| "taking _ = False"

definition wake_inv :: "sem_sys \<Rightarrow> bool" where
  "wake_inv s \<longleftrightarrow> token_inv s \<and>
     ((\<exists>i. pc s i = WaitSleep) \<and> (count (sem s) \<noteq> 0 \<or> (\<exists>i. pc s i = PostInc)) \<longrightarrow> (\<exists>j. taking (pc s j)))"

lemma taking_keep: "\<exists>j. taking (f j) \<Longrightarrow> \<not> taking (f i) \<Longrightarrow> \<exists>j. taking ((f(i := p)) j)"
  by (metis fun_upd_other)

lemma taking_new: "taking p \<Longrightarrow> \<exists>j. taking ((f(i := p)) j)"
  by (metis fun_upd_same)

lemma wake_step:
  assumes step: "sem_step sp s t" and inv: "wake_inv s"
    and sleeps: "pc t k = WaitSleep" and todo: "count (sem t) \<noteq> 0 \<or> pc t l = PostInc"
  shows "\<exists>j. taking (pc t j)"
proof -
  have tok: "token_inv s" using inv by (simp add: wake_inv_def)
  then have mutex: "sem_inv s" and one: "one_token (count (sem s)) (phase s)"
    and ph: "phase_ok (pc s i) (phase s i)" for i by (auto simp: token_inv_def)
  have old: "\<exists>j. taking (pc s j)" if "pc s a = WaitSleep" "count (sem s) \<noteq> 0 \<or> pc s b = PostInc" for a b
    using inv that by (auto simp: wake_inv_def)
  have keep: ?thesis if "pc t = (pc s)(i := p)" "p \<noteq> WaitSleep" "p \<noteq> PostInc" "\<not> taking (pc s i)"
      "count (sem t) = count (sem s)" for i p
    using that sleeps todo old [of k l] taking_keep [of "pc s" i p] by (auto split: if_splits)
  note excl = sem_inv_unique [OF mutex]
  from step show ?thesis
  proof cases
    case (post_signal i j)
    with mutex have "i \<noteq> j" by (auto simp: sem_inv_def)
    then have "taking (pc t j)" using post_signal by simp
    then show ?thesis by blast
  next
    case (post_signal_none i)
    with sleeps mutex show ?thesis by (auto simp: sem_inv_def split: if_splits)
  next
    case (post_no_signal i)
    with ph [of i] one show ?thesis by (auto dest: one_token_zero)
  next
    case (post_inc i)
    then have "pc s k = WaitSleep" using sleeps by (auto split: if_splits)
    with post_inc old [of k i] show ?thesis by (auto intro!: taking_keep simp del: fun_upd_apply)
  next
    case (wait_block i)
    with todo excl [of i l] show ?thesis by (auto split: if_splits)
  next
    case (wait_dec i)
    with one mutex have "count (sem t) = 0" by (auto simp: one_token_def sem_inv_def)
    with wait_dec todo excl [of i l] show ?thesis by (auto split: if_splits)
  next
    case (post_call i)
    then show ?thesis by (intro keep [of i PostLock]) auto
  next
    case (post_lock i)
    then show ?thesis by (intro keep [of i PostTest]) auto
  next
    case (post_unlock i)
    then show ?thesis by (intro keep [of i Idle]) auto
  next
    case (wait_unlock i)
    then show ?thesis by (intro keep [of i Idle]) auto
  qed (auto simp del: fun_upd_apply intro!: taking_new)
qed

lemma wake_inv_step: "main_step sp s t \<Longrightarrow> wake_inv s \<Longrightarrow> wake_inv t"
  using token_inv_step [of sp s t] wake_step [of sp s t]
  by (simp add: wake_inv_def main_step_def) blast

interpretation wake: inductive_invariant sem_init "main_step sp" wake_inv for sp
proof
  show "wake_inv s" if "sem_init s" for s
    using token_inv_init [OF that] that by (simp add: wake_inv_def sem_init_def)
qed (rule wake_inv_step)

text \<open>
  C19. No wake-up is lost among the processes of \<open>main.c\<close>: it never happens that a process
  sleeps in \<open>semaphore_wait\<close> while every other one is asleep too, or finished, or has not
  started, so that nobody holds the token and nobody is on the way to it.
\<close>

theorem main_no_lost_wakeup:
  assumes "reach sem_init (main_step sp) s" and "pc s i = WaitSleep"
  shows "\<exists>j. phase s j = Holding \<or> taking (pc s j)"
proof -
  have inv: "wake_inv s" using assms(1) by (rule wake.inv_reach)
  then have "one_token (count (sem s)) (phase s)" by (simp add: wake_inv_def token_inv_def)
  with inv assms(2) show ?thesis by (auto simp: wake_inv_def one_token_def)
qed

theorem main_no_lost_wakeup_witness:
  "\<exists>s. reach sem_init (main_step True) s \<and> pc s 1 = WaitSleep
     \<and> (\<exists>j. phase s j = Holding \<or> taking (pc s j))"
proof -
  obtain s where run: "main_run sem_start hold_and_sleep = Some s" and "pc s 1 = WaitSleep"
    using hold_and_sleep_run by blast
  with main_no_lost_wakeup [OF main_run_reach [OF run, of True], of 1] main_run_reach [OF run, of True]
  show ?thesis by blast
qed

section \<open>Lost wake-ups with more than one token\<close>

text \<open>
  Thread 0 takes the token; threads 1 and 2 go to sleep; thread 0 posts and wakes thread 1;
  before thread 1 runs, thread 3 posts, finds the count 1 and does not signal; thread 1
  takes a token.
\<close>

definition lost_wakeup_schedule :: "sem_event list" where
  "lost_wakeup_schedule =
     [CallWait 0, Run 0, Run 0, Run 0, Run 0,
      CallWait 1, Run 1, Run 1,
      CallWait 2, Run 2, Run 2,
      CallPost 0, Run 0, Signal 0 1, Run 0, Run 0,
      CallPost 3, Run 3, Run 3, Run 3, Run 3,
      Run 1, Run 1, Run 1, Run 1]"

text \<open>
  \<open>semaphore_post\<close> signals only when the count was 0, and that loses wake-ups as soon as
  two tokens are posted while two threads wait: without spurious wake-ups a state is
  reachable in which thread 2 sleeps in \<open>semaphore_wait\<close>, the count is 1, the mutex is
  free and no other thread is inside either function.
\<close>

lemma post_loses_wakeup:
  "\<exists>s. reach sem_init (sem_step False) s \<and> pc s 2 = WaitSleep \<and> count (sem s) = 1
     \<and> lock (sem s) = None \<and> pc s = (\<lambda>_. Idle)(2 := WaitSleep)"
proof -
  obtain s where run: "sem_run sem_start lost_wakeup_schedule = Some s"
    and "pc s 2 = WaitSleep \<and> count (sem s) = 1 \<and> lock (sem s) = None \<and> pc s = (\<lambda>_. Idle)(2 := WaitSleep)"
    by (simp add: lost_wakeup_schedule_def sem_start_def sem_created_def fun_eq_iff)
  with sem_run_reach [OF run] show ?thesis by blast
qed

end
