(* ===== verification/Sem_Program.thy ===== *)
theory Sem_Program
  imports Sem_CondVar
begin

text \<open>
  The whole of \<open>thread/semaphore\<close>: \<open>semaphore_create\<close>, \<open>semaphore_open\<close> and \<open>semaphore_close\<close> of
  \<open>sem.c\<close> around the use of the semaphore that \<open>Sem_CondVar\<close> describes, as \<open>main.c\<close> composes them.
  Any number of processes run the program; a step is one call or one store. Every file that is
  created under the name carries a state of the semaphore system; the processes that have it
  mapped step in it. Using a semaphore that is not set up is undefined: from then on anything may
  happen to the files and the other processes. Using memory that is not there kills the process. The results of \<open>ftruncate\<close> and \<open>mmap\<close> are not tested by the code.
\<close>

section \<open>State and steps\<close>

datatype ppc = POpen | PReopen | PTrunc nat | PMap nat bool | PCount nat | PMutex nat | PCond nat
  | PUse nat bool | PUnlink bool | PDone | PFail | PKilled | PUndef

record psys =
  ps_name :: "nat option"
  ps_fresh :: nat
  ps_pc :: "nat \<Rightarrow> ppc"
  ps_sized :: "nat \<Rightarrow> bool"
  ps_ready :: "nat \<Rightarrow> bool"
  ps_sys :: "nat \<Rightarrow> sem_sys"

definition pgoto :: "nat \<Rightarrow> ppc \<Rightarrow> psys \<Rightarrow> psys" where
  "pgoto i p s = s\<lparr>ps_pc := (ps_pc s)(i := p)\<rparr>"

definition pstore :: "nat \<Rightarrow> (semaphore \<Rightarrow> semaphore) \<Rightarrow> psys \<Rightarrow> psys" where
  "pstore x f s = s\<lparr>ps_sys := (ps_sys s)(x := (ps_sys s x)\<lparr>sem := f (sem (ps_sys s x))\<rparr>)\<rparr>"

text \<open>The bytes of a new file are 0; nobody uses it.\<close>

definition zero_sys :: sem_sys where
  "zero_sys = \<lparr>sem = \<lparr>lock = None, nonzero = {}, count = 0\<rparr>, pc = (\<lambda>_. Idle), phase = (\<lambda>_. Fresh), incs = 0, decs = 0\<rparr>"

inductive semaphore_create_step :: "nat \<Rightarrow> psys \<Rightarrow> psys \<Rightarrow> bool" for i :: nat where
  p_create: "ps_pc s i = POpen \<Longrightarrow> ps_name s = None \<Longrightarrow>
    semaphore_create_step i s (pgoto i (PTrunc (ps_fresh s)) (s\<lparr>ps_name := Some (ps_fresh s), ps_fresh := Suc (ps_fresh s)\<rparr>))"
| p_create_fails: "ps_pc s i = POpen \<Longrightarrow> semaphore_create_step i s (pgoto i PReopen s)"
| p_truncate: "ps_pc s i = PTrunc x \<Longrightarrow>
    semaphore_create_step i s (pgoto i (PMap x True) (s\<lparr>ps_sized := (ps_sized s)(x := True)\<rparr>))"
| p_truncate_fails: "ps_pc s i = PTrunc x \<Longrightarrow> semaphore_create_step i s (pgoto i (PMap x True) s)"
| p_map_new: "ps_pc s i = PMap x True \<Longrightarrow> semaphore_create_step i s (pgoto i (PCount x) s)"
| p_map_new_fails: "ps_pc s i = PMap x True \<Longrightarrow> semaphore_create_step i s (pgoto i PKilled s)"
| p_count: "ps_pc s i = PCount x \<Longrightarrow> ps_sized s x \<Longrightarrow>
    semaphore_create_step i s (pgoto i (PMutex x) (pstore x (\<lambda>m. m\<lparr>count := 1\<rparr>) s))"
| p_count_bus: "ps_pc s i = PCount x \<Longrightarrow> \<not> ps_sized s x \<Longrightarrow> semaphore_create_step i s (pgoto i PKilled s)"
| p_mutex_init: "ps_pc s i = PMutex x \<Longrightarrow>
    semaphore_create_step i s (pgoto i (PCond x) (pstore x (\<lambda>m. m\<lparr>lock := None\<rparr>) s))"
| p_cond_init: "ps_pc s i = PCond x \<Longrightarrow>
    semaphore_create_step i s (pgoto i (PUse x True) (pstore x (\<lambda>m. m\<lparr>nonzero := {}\<rparr>) (s\<lparr>ps_ready := (ps_ready s)(x := True)\<rparr>)))"

inductive semaphore_open_step :: "nat \<Rightarrow> psys \<Rightarrow> psys \<Rightarrow> bool" for i :: nat where
  p_reopen: "ps_pc s i = PReopen \<Longrightarrow> ps_name s = Some x \<Longrightarrow> semaphore_open_step i s (pgoto i (PMap x False) s)"
| p_reopen_fails: "ps_pc s i = PReopen \<Longrightarrow> semaphore_open_step i s (pgoto i PFail s)"
| p_map_old: "ps_pc s i = PMap x False \<Longrightarrow> semaphore_open_step i s (pgoto i (PUse x False) s)"
| p_map_old_fails: "ps_pc s i = PMap x False \<Longrightarrow> semaphore_open_step i s (pgoto i PKilled s)"

text \<open>
  \<open>main\<close> with the semaphore: a process that has it mapped takes part in its steps; when it has
  posted it unmaps it, and the creator removes the file.
\<close>

inductive use_step :: "bool \<Rightarrow> psys \<Rightarrow> psys \<Rightarrow> bool" for sp :: bool where
  p_use: "ps_ready s x \<Longrightarrow> main_step sp (ps_sys s x) t \<Longrightarrow>
    (\<And>i. pc (ps_sys s x) i = Idle \<Longrightarrow> pc t i \<noteq> Idle \<Longrightarrow> \<exists>new. ps_pc s i = PUse x new) \<Longrightarrow>
    use_step sp s (s\<lparr>ps_sys := (ps_sys s)(x := t)\<rparr>)"
| p_undefined: "ps_pc s i = PUse x new \<Longrightarrow> ps_sized s x \<Longrightarrow> \<not> ps_ready s x \<Longrightarrow> use_step sp s (pgoto i PUndef s)"
| p_anything: "ps_pc s i = PUndef \<Longrightarrow> ps_pc t i = PUndef \<Longrightarrow> use_step sp s t"
| p_bus: "ps_pc s i = PUse x new \<Longrightarrow> \<not> ps_sized s x \<Longrightarrow> use_step sp s (pgoto i PKilled s)"
| p_close: "ps_pc s i = PUse x new \<Longrightarrow> pc (ps_sys s x) i = Idle \<Longrightarrow> phase (ps_sys s x) i = Finished \<Longrightarrow>
    use_step sp s (pgoto i (PUnlink new) s)"
| p_unlink: "ps_pc s i = PUnlink new \<Longrightarrow>
    use_step sp s (pgoto i PDone (if new then s\<lparr>ps_name := None\<rparr> else s))"

definition sem_program_step :: "bool \<Rightarrow> psys \<Rightarrow> psys \<Rightarrow> bool" where
  "sem_program_step sp s t \<longleftrightarrow> (\<exists>i. semaphore_create_step i s t \<or> semaphore_open_step i s t) \<or> use_step sp s t"

definition psys_start :: psys where
  "psys_start = \<lparr>ps_name = None, ps_fresh = 0, ps_pc = (\<lambda>_. POpen), ps_sized = (\<lambda>_. False), ps_ready = (\<lambda>_. False),
     ps_sys = (\<lambda>_. zero_sys)\<rparr>"

definition psys_init :: "psys \<Rightarrow> bool" where
  "psys_init s \<longleftrightarrow> s = psys_start"

section \<open>Refinement\<close>

text \<open>The object a process sets up; no object is set up twice.\<close>

fun building :: "ppc \<Rightarrow> nat option" where
  "building (PTrunc x) = Some x"
| "building (PMap x new) = (if new then Some x else None)"
| "building (PCount x) = Some x"
| "building (PMutex x) = Some x"
| "building (PCond x) = Some x"
| "building _ = None"

definition one_builder :: "(nat \<Rightarrow> ppc) \<Rightarrow> bool" where
  "one_builder f \<longleftrightarrow> (\<forall>i j x. building (f i) = Some x \<longrightarrow> building (f j) = Some x \<longrightarrow> i = j)"

lemma one_builder_keep:
  "one_builder f \<Longrightarrow> building q = None \<or> building q = building (f i) \<Longrightarrow> one_builder (f(i := q))"
  unfolding one_builder_def by (metis fun_upd_apply option.distinct(1))

lemma one_builder_new:
  "one_builder f \<Longrightarrow> building q = Some x \<Longrightarrow> (\<And>j. building (f j) \<noteq> Some x) \<Longrightarrow> one_builder (f(i := q))"
  unfolding one_builder_def by (metis fun_upd_apply option.inject)

text \<open>How far the set-up of an object is, from the place of the process that does it.\<close>

fun built :: "(nat \<Rightarrow> sem_sys) \<Rightarrow> ppc \<Rightarrow> bool" where
  "built f (PMutex x) \<longleftrightarrow> count (sem (f x)) = 1"
| "built f (PCond x) \<longleftrightarrow> count (sem (f x)) = 1 \<and> lock (sem (f x)) = None"
| "built f p \<longleftrightarrow> True"

definition untouched :: "sem_sys \<Rightarrow> bool" where
  "untouched t \<longleftrightarrow> pc t = (\<lambda>_. Idle) \<and> phase t = (\<lambda>_. Fresh) \<and> incs t = 0 \<and> decs t = 0"

text \<open>An object that is set up is in a state the semaphore system can reach.\<close>

definition refines_main :: "bool \<Rightarrow> bool \<Rightarrow> sem_sys \<Rightarrow> bool" where
  "refines_main sp ready t \<longleftrightarrow> (if ready then reach sem_init (main_step sp) t else untouched t)"

definition psys_inv :: "bool \<Rightarrow> psys \<Rightarrow> bool" where
  "psys_inv sp s \<longleftrightarrow> one_builder (ps_pc s)
     \<and> (\<forall>i x. building (ps_pc s i) = Some x \<longrightarrow> x < ps_fresh s \<and> \<not> ps_ready s x)
     \<and> (\<forall>i. built (ps_sys s) (ps_pc s i))
     \<and> (\<forall>x. ps_fresh s \<le> x \<longrightarrow> \<not> ps_ready s x)
     \<and> (\<forall>x. refines_main sp (ps_ready s x) (ps_sys s x))"

lemma psys_inv_start: "psys_inv sp psys_start"
  by (simp add: psys_inv_def psys_start_def one_builder_def refines_main_def untouched_def zero_sys_def)

lemma psys_facts:
  assumes "psys_inv sp s"
  shows "building (ps_pc s i) = Some x \<Longrightarrow> x < ps_fresh s" "building (ps_pc s i) = Some x \<Longrightarrow> \<not> ps_ready s x"
    "built (ps_sys s) (ps_pc s i)" "refines_main sp (ps_ready s x) (ps_sys s x)"
  using assms unfolding psys_inv_def by blast+

lemma psys_inv_goto:
  assumes "psys_inv sp s" and "building q = None \<or> building q = building (ps_pc s i)" and "built (ps_sys s) q"
  shows "psys_inv sp (pgoto i q s)"
  using assms one_builder_keep [of "ps_pc s" q i] unfolding psys_inv_def pgoto_def by auto

lemma built_other: "building p \<noteq> Some x \<Longrightarrow> built (f(x := t)) p = built f p"
  by (cases p) auto

text \<open>A store of the process that sets the object up.\<close>

lemma psys_inv_store:
  assumes "psys_inv sp s" and "building (ps_pc s i) = Some x" and "building q = Some x"
    and "built ((ps_sys s)(x := (ps_sys s x)\<lparr>sem := f (sem (ps_sys s x))\<rparr>)) q"
  shows "psys_inv sp (pgoto i q (pstore x f s))"
proof -
  have alone: "building (ps_pc s j) \<noteq> Some x" if "j \<noteq> i" for j
    using assms(1,2) that unfolding psys_inv_def one_builder_def by metis
  have "one_builder ((ps_pc s)(i := q))"
    using assms(1-3) by (intro one_builder_keep) (auto simp: psys_inv_def)
  moreover have "built ((ps_sys s)(x := (ps_sys s x)\<lparr>sem := f (sem (ps_sys s x))\<rparr>)) (((ps_pc s)(i := q)) j)" for j
    using assms(1,4) built_other [OF alone] by (cases "j = i") (auto simp: psys_inv_def)
  moreover have "refines_main sp (ps_ready s y) (((ps_sys s)(x := (ps_sys s x)\<lparr>sem := f (sem (ps_sys s x))\<rparr>)) y)" for y
  proof -
    have "\<not> ps_ready s x" "refines_main sp (ps_ready s x) (ps_sys s x)" "refines_main sp (ps_ready s y) (ps_sys s y)"
      using psys_facts [OF assms(1)] assms(2) by blast+
    then show ?thesis by (cases "y = x") (simp_all add: refines_main_def untouched_def)
  qed
  moreover have "building (((ps_pc s)(i := q)) j) = Some y \<longrightarrow> y < ps_fresh s \<and> \<not> ps_ready s y" for j y
    using assms(1-3) unfolding psys_inv_def by (metis fun_upd_apply)
  ultimately show ?thesis using assms(1) unfolding psys_inv_def pgoto_def pstore_def
    by (simp del: fun_upd_apply)
qed

lemma psys_inv_create:
  assumes "psys_inv sp s" and "ps_pc s i = POpen"
  shows "psys_inv sp (pgoto i (PTrunc (ps_fresh s)) (s\<lparr>ps_name := Some (ps_fresh s), ps_fresh := Suc (ps_fresh s)\<rparr>))"
proof -
  have "building (ps_pc s j) \<noteq> Some (ps_fresh s)" for j using assms(1) by (auto simp: psys_inv_def)
  then have "one_builder ((ps_pc s)(i := PTrunc (ps_fresh s)))"
    using assms(1) by (intro one_builder_new [of _ _ "ps_fresh s"]) (auto simp: psys_inv_def)
  then show ?thesis using assms unfolding psys_inv_def pgoto_def by (auto simp: less_Suc_eq)
qed

text \<open>The last store: the object is what \<open>semaphore_create\<close> promises, the initial state of the system.\<close>

lemma psys_inv_ready:
  assumes "psys_inv sp s" and "ps_pc s i = PCond x"
  shows "psys_inv sp (pgoto i (PUse x True) (pstore x (\<lambda>m. m\<lparr>nonzero := {}\<rparr>) (s\<lparr>ps_ready := (ps_ready s)(x := True)\<rparr>)))"
proof -
  let ?t = "(ps_sys s x)\<lparr>sem := (sem (ps_sys s x))\<lparr>nonzero := {}\<rparr>\<rparr>"
  have own: "building (ps_pc s i) = Some x" using assms(2) by simp
  have alone: "building (ps_pc s j) \<noteq> Some x" if "j \<noteq> i" for j
    using assms(1) own that unfolding psys_inv_def one_builder_def by metis
  have x: "x < ps_fresh s" "\<not> ps_ready s x" "built (ps_sys s) (ps_pc s i)" "refines_main sp (ps_ready s x) (ps_sys s x)"
    using psys_facts [OF assms(1)] own by blast+
  then have "sem_init ?t" using assms(2) by (simp add: refines_main_def untouched_def sem_init_def sem_created_def)
  then have rx: "refines_main sp True ?t" by (simp add: refines_main_def reach_init)
  have "refines_main sp (((ps_ready s)(x := True)) y) (((ps_sys s)(x := ?t)) y)" for y
    using assms(1) rx by (auto simp: psys_inv_def)
  moreover have "built ((ps_sys s)(x := ?t)) (((ps_pc s)(i := PUse x True)) j)" for j
    using assms(1) built_other [OF alone] by (cases "j = i") (auto simp: psys_inv_def)
  moreover have "one_builder ((ps_pc s)(i := PUse x True))"
    using assms(1) by (intro one_builder_keep) (auto simp: psys_inv_def)
  moreover have "building (((ps_pc s)(i := PUse x True)) j) = Some y \<longrightarrow> y < ps_fresh s \<and> \<not> ((ps_ready s)(x := True)) y" for j y
    using assms(1) alone [of j] by (cases "j = i") (auto simp: psys_inv_def)
  ultimately show ?thesis using assms(1) x(1) unfolding psys_inv_def pgoto_def pstore_def
    by (auto simp del: fun_upd_apply) (simp add: fun_upd_apply)
qed

lemma psys_inv_create_step: "semaphore_create_step i s t \<Longrightarrow> psys_inv sp s \<Longrightarrow> psys_inv sp t"
proof (induction rule: semaphore_create_step.induct)
  case (p_create s)
  then show ?case by (intro psys_inv_create)
next
  case (p_truncate s x)
  then have "psys_inv sp (pgoto i (PMap x True) s)" by (intro psys_inv_goto) auto
  then show ?case by (simp add: psys_inv_def pgoto_def)
next
  case (p_count s x)
  then show ?case by (intro psys_inv_store) auto
next
  case (p_mutex_init s x)
  then have "built (ps_sys s) (PMutex x)" by (metis psys_inv_def)
  with p_mutex_init show ?case by (intro psys_inv_store) auto
next
  case (p_cond_init s x)
  then show ?case by (intro psys_inv_ready)
qed (auto intro: psys_inv_goto)

lemma psys_inv_open_step: "semaphore_open_step i s t \<Longrightarrow> psys_inv sp s \<Longrightarrow> psys_inv sp t"
  by (induction rule: semaphore_open_step.induct) (auto intro: psys_inv_goto)

lemma psys_inv_use_step: "use_step sp s t \<Longrightarrow> \<forall>i. ps_pc s i \<noteq> PUndef \<Longrightarrow> psys_inv sp s \<Longrightarrow> psys_inv sp t"
proof (induction rule: use_step.induct)
  case (p_use s x t)
  then have "refines_main sp True (ps_sys s x)" unfolding psys_inv_def by metis
  with p_use(2) have t: "refines_main sp True t" by (auto simp: refines_main_def intro: reach_step)
  have "building (ps_pc s j) \<noteq> Some x" for j using p_use(1,5) by (auto simp: psys_inv_def)
  then have "built ((ps_sys s)(x := t)) (ps_pc s j)" for j
    using p_use(5) built_other [of "ps_pc s j" x "ps_sys s" t] by (simp add: psys_inv_def)
  with p_use(1,5) t show ?case by (auto simp: psys_inv_def)
next
  case (p_unlink s i new)
  then have "psys_inv sp (pgoto i PDone s)" by (intro psys_inv_goto) auto
  then show ?case by (cases new) (simp_all add: psys_inv_def pgoto_def)
qed (auto intro: psys_inv_goto)

text \<open>An undefined use is never undone.\<close>

lemma undefined_stays:
  assumes "sem_program_step sp s t" and "ps_pc s i = PUndef"
  shows "\<exists>j. ps_pc t j = PUndef"
proof -
  consider (c) k where "semaphore_create_step k s t" | (o) k where "semaphore_open_step k s t" | (u) "use_step sp s t"
    using assms(1) by (auto simp: sem_program_step_def)
  then show ?thesis
  proof cases
    case c
    then show ?thesis using assms(2)
      by (cases rule: semaphore_create_step.cases) (auto simp: pgoto_def pstore_def intro!: exI [of _ i])
  next
    case o
    then show ?thesis using assms(2)
      by (cases rule: semaphore_open_step.cases) (auto simp: pgoto_def intro!: exI [of _ i])
  next
    case u
    then show ?thesis using assms(2)
      by (cases rule: use_step.cases) (auto simp: pgoto_def intro: exI [of _ i])
  qed
qed

definition defined_inv :: "bool \<Rightarrow> psys \<Rightarrow> bool" where
  "defined_inv sp s \<longleftrightarrow> (\<exists>i. ps_pc s i = PUndef) \<or> psys_inv sp s"

interpretation program: inductive_invariant psys_init "sem_program_step sp" "defined_inv sp" for sp
proof
  fix s
  assume "psys_init s"
  then show "defined_inv sp s" by (simp add: psys_init_def defined_inv_def psys_inv_start)
next
  fix s t
  assume "sem_program_step sp s t" and "defined_inv sp s"
  then show "defined_inv sp t"
    using undefined_stays [of sp s t] unfolding defined_inv_def sem_program_step_def
    by (metis psys_inv_create_step psys_inv_open_step psys_inv_use_step)
qed

section \<open>The program\<close>

text \<open>A run of one process alone, and of a second one before the first has set the semaphore up.\<close>

lemma steps_create:
  "semaphore_create_step i s t \<Longrightarrow> (sem_program_step sp)\<^sup>*\<^sup>* t u \<Longrightarrow> (sem_program_step sp)\<^sup>*\<^sup>* s u"
  by (rule converse_rtranclp_into_rtranclp) (auto simp: sem_program_step_def)

lemma steps_open:
  "semaphore_open_step i s t \<Longrightarrow> (sem_program_step sp)\<^sup>*\<^sup>* t u \<Longrightarrow> (sem_program_step sp)\<^sup>*\<^sup>* s u"
  by (rule converse_rtranclp_into_rtranclp) (auto simp: sem_program_step_def)

lemma steps_use: "use_step sp s t \<Longrightarrow> (sem_program_step sp)\<^sup>*\<^sup>* t u \<Longrightarrow> (sem_program_step sp)\<^sup>*\<^sup>* s u"
  by (rule converse_rtranclp_into_rtranclp) (auto simp: sem_program_step_def)

text \<open>A process that finds no file and is not disturbed sets the semaphore up.\<close>

definition set_up_by :: "nat \<Rightarrow> psys \<Rightarrow> psys" where
  "set_up_by i s = (let x = ps_fresh s in
     s\<lparr>ps_name := Some x, ps_fresh := Suc x, ps_pc := (ps_pc s)(i := PUse x True), ps_sized := (ps_sized s)(x := True),
       ps_ready := (ps_ready s)(x := True), ps_sys := (ps_sys s)(x := sem_start)\<rparr>)"

lemma create_run:
  assumes "ps_pc s i = POpen" and "ps_name s = None" and "ps_sys s (ps_fresh s) = zero_sys"
  shows "(sem_program_step sp)\<^sup>*\<^sup>* s (set_up_by i s)"
proof -
  let ?x = "ps_fresh s"
  let ?s1 = "s\<lparr>ps_name := Some ?x, ps_fresh := Suc ?x, ps_pc := (ps_pc s)(i := PTrunc ?x)\<rparr>"
  let ?s2 = "?s1\<lparr>ps_pc := (ps_pc s)(i := PMap ?x True), ps_sized := (ps_sized s)(?x := True)\<rparr>"
  let ?s3 = "?s2\<lparr>ps_pc := (ps_pc s)(i := PCount ?x)\<rparr>"
  let ?s4 = "?s3\<lparr>ps_pc := (ps_pc s)(i := PMutex ?x), ps_sys := (ps_sys s)(?x := sem_start)\<rparr>"
  let ?s5 = "?s4\<lparr>ps_pc := (ps_pc s)(i := PCond ?x)\<rparr>"
  have "semaphore_create_step i s ?s1" using p_create [of s i] assms by (simp add: pgoto_def)
  moreover have "semaphore_create_step i ?s1 ?s2" using p_truncate [of ?s1 i ?x] by (cases s) (simp add: pgoto_def)
  moreover have "semaphore_create_step i ?s2 ?s3" using p_map_new [of ?s2 i ?x] by (cases s) (simp add: pgoto_def)
  moreover have "semaphore_create_step i ?s3 ?s4" using p_count [of ?s3 i ?x] assms(3)
    by (cases s) (simp add: pgoto_def pstore_def zero_sys_def sem_start_def sem_created_def)
  moreover have "semaphore_create_step i ?s4 ?s5" using p_mutex_init [of ?s4 i ?x]
    by (cases s) (simp add: pgoto_def pstore_def sem_start_def sem_created_def)
  moreover have "semaphore_create_step i ?s5 (set_up_by i s)" using p_cond_init [of ?s5 i ?x]
    by (cases s) (simp add: set_up_by_def pgoto_def pstore_def sem_start_def sem_created_def Let_def)
  ultimately show ?thesis by (meson steps_create rtranclp.rtrancl_refl)
qed

definition psys_created :: psys where
  "psys_created = set_up_by 0 psys_start"

lemma psys_created_reach: "reach psys_init (sem_program_step sp) psys_created"
proof -
  have "(sem_program_step sp)\<^sup>*\<^sup>* psys_start psys_created"
    unfolding psys_created_def by (rule create_run) (simp_all add: psys_start_def)
  then show ?thesis by (intro reach_run [OF reach_init]) (simp add: psys_init_def)
qed

text \<open>A schedule of the semaphore system, run by processes that have the file mapped.\<close>

fun caller :: "sem_event \<Rightarrow> nat option" where
  "caller (CallPost i) = Some i"
| "caller (CallWait i) = Some i"
| "caller _ = None"

fun plain :: "sem_event \<Rightarrow> bool" where
  "plain (Signal i j) = False"
| "plain _ = True"

lemma use_run:
  assumes "main_run (ps_sys s x) es = Some t" and "ps_ready s x"
    and "\<forall>e \<in> set es. plain e \<and> (\<forall>i. caller e = Some i \<longrightarrow> (\<exists>new. ps_pc s i = PUse x new))"
  shows "(sem_program_step sp)\<^sup>*\<^sup>* s (s\<lparr>ps_sys := (ps_sys s)(x := t)\<rparr>)"
  using assms
proof (induction es arbitrary: s)
  case (Cons e es)
  then obtain u where u: "sem_exec (ps_sys s x) e = Some u" "main_event (ps_sys s x) e" "main_run u es = Some t"
    by (auto split: option.splits if_splits)
  have starts: "\<exists>new. ps_pc s i = PUse x new" if "pc (ps_sys s x) i = Idle" "pc u i \<noteq> Idle" for i
    using u(1) that Cons.prems(3) main_exec_at_calls by (cases e) (auto split: if_splits)
  let ?s = "s\<lparr>ps_sys := (ps_sys s)(x := u)\<rparr>"
  have first: "use_step sp s ?s" using Cons.prems(2) main_exec_sound [OF u(1,2)] starts by (intro p_use) auto
  have "main_run (ps_sys ?s x) es = Some t" using u(3) by simp
  then have "(sem_program_step sp)\<^sup>*\<^sup>* ?s (?s\<lparr>ps_sys := (ps_sys ?s)(x := t)\<rparr>)"
    by (rule Cons.IH) (use Cons.prems(2,3) in auto)
  then have "(sem_program_step sp)\<^sup>*\<^sup>* ?s (s\<lparr>ps_sys := (ps_sys s)(x := t)\<rparr>)" by simp
  with first show ?case by (rule steps_use)
next
  case Nil
  then have "(ps_sys s)(x := t) = ps_sys s" by (simp add: fun_upd_idem)
  then show ?case by simp
qed

text \<open>
  The creator removes the name when it is done, whether or not others still use the file: a third
  process then creates a new semaphore, and two processes hold at the same time.
\<close>

lemma two_files_two_holders:
  "\<exists>s. reach psys_init (sem_program_step sp) s \<and> phase (ps_sys s 0) 1 = Holding \<and> phase (ps_sys s 1) 2 = Holding"
proof -
  let ?st = "(sem_program_step sp)\<^sup>*\<^sup>*"
  let ?wait = "\<lambda>i. [CallWait i, Run i, Run i, Run i, Run i]"
  let ?post = "\<lambda>i. [CallPost i, Run i, Run i, Run i, Run i]"
  let ?c = "\<lambda>p. psys_created\<lparr>ps_pc := (ps_pc psys_created)(1 := p)\<rparr>"
  have c: "ps_pc psys_created 1 = POpen" "ps_name psys_created = Some 0" "ps_sys psys_created 0 = sem_start" "ps_ready psys_created 0"
    by (simp_all add: psys_created_def psys_start_def set_up_by_def)
  have "semaphore_create_step 1 psys_created (?c PReopen)" using p_create_fails [of psys_created 1] c by (simp add: pgoto_def)
  moreover have "semaphore_open_step 1 (?c PReopen) (?c (PMap 0 False))" using p_reopen [of "?c PReopen" 1 0] c by (simp add: pgoto_def)
  moreover have "semaphore_open_step 1 (?c (PMap 0 False)) (?c (PUse 0 False))" using p_map_old [of "?c (PMap 0 False)" 1 0] by (simp add: pgoto_def)
  ultimately have a: "?st psys_created (?c (PUse 0 False))" by (meson steps_create steps_open rtranclp.rtrancl_refl)
  obtain t where t: "main_run sem_start (?wait 0 @ ?post 0 @ ?wait 1) = Some t" "phase t 1 = Holding" "phase t 0 = Finished" "pc t 0 = Idle"
    by (simp add: sem_start_def sem_created_def)
  let ?u = "(?c (PUse 0 False))\<lparr>ps_sys := (ps_sys (?c (PUse 0 False)))(0 := t)\<rparr>"
  have b: "?st (?c (PUse 0 False)) ?u"
  proof (rule use_run)
    show "main_run (ps_sys (?c (PUse 0 False)) 0) (?wait 0 @ ?post 0 @ ?wait 1) = Some t"
      using t(1) c(3) by (simp del: main_run.simps)
  qed (use c(4) in \<open>auto simp: psys_created_def psys_start_def set_up_by_def\<close>)
  let ?v = "?u\<lparr>ps_pc := (ps_pc ?u)(0 := PUnlink True)\<rparr>"
  let ?w = "?v\<lparr>ps_name := None, ps_pc := (ps_pc ?v)(0 := PDone)\<rparr>"
  have "use_step sp ?u ?v" using p_close [of ?u 0 0 True sp] t(3,4) by (simp add: pgoto_def psys_created_def set_up_by_def psys_start_def)
  moreover have "use_step sp ?v ?w" using p_unlink [of ?v 0 True sp] by (simp add: pgoto_def)
  ultimately have d: "?st ?u ?w" by (meson steps_use rtranclp.rtrancl_refl)
  have e: "?st ?w (set_up_by 2 ?w)" by (rule create_run) (simp_all add: psys_created_def set_up_by_def psys_start_def)
  let ?x = "set_up_by 2 ?w"
  obtain t2 where t2: "main_run sem_start (?wait 2) = Some t2" "phase t2 2 = Holding"
    by (simp add: sem_start_def sem_created_def)
  have x: "ps_sys ?x 1 = sem_start" "ps_ready ?x 1" "ps_pc ?x 2 = PUse 1 True" "ps_sys ?x 0 = t"
    by (simp_all add: psys_created_def set_up_by_def psys_start_def)
  have f: "?st ?x (?x\<lparr>ps_sys := (ps_sys ?x)(1 := t2)\<rparr>)" 
  proof (rule use_run)
    show "main_run (ps_sys ?x 1) (?wait 2) = Some t2" using t2(1) x(1) by (simp del: main_run.simps)
  qed (use x(2,3) in auto)
  have "?st psys_created (?x\<lparr>ps_sys := (ps_sys ?x)(1 := t2)\<rparr>)" using a b d e f by (meson rtranclp_trans)
  then have "reach psys_init (sem_program_step sp) (?x\<lparr>ps_sys := (ps_sys ?x)(1 := t2)\<rparr>)"
    by (rule reach_run [OF psys_created_reach])
  then show ?thesis using t(2) t2(2) x(4) by (intro exI [of _ "?x\<lparr>ps_sys := (ps_sys ?x)(1 := t2)\<rparr>"]) simp
qed

text \<open>The name is visible before the semaphore is set up: a second process can use it too early.\<close>

lemma sem_program_races:
  "\<exists>s. reach psys_init (sem_program_step sp) s \<and> ps_pc s 1 = PUndef"
proof -
  let ?s1 = "psys_start\<lparr>ps_name := Some 0, ps_fresh := 1, ps_pc := (\<lambda>_. POpen)(0 := PTrunc 0)\<rparr>"
  let ?s2 = "?s1\<lparr>ps_pc := (\<lambda>_. POpen)(0 := PMap 0 True), ps_sized := (\<lambda>_. False)(0 := True)\<rparr>"
  let ?s = "\<lambda>p. ?s2\<lparr>ps_pc := (\<lambda>_. POpen)(0 := PMap 0 True, 1 := p)\<rparr>"
  have "semaphore_create_step 0 psys_start ?s1"
    using p_create [of psys_start 0] by (simp add: psys_start_def pgoto_def)
  moreover have "semaphore_create_step 0 ?s1 ?s2" using p_truncate [of ?s1 0 0] by (simp add: psys_start_def pgoto_def)
  moreover have "semaphore_create_step 1 ?s2 (?s PReopen)" using p_create_fails [of ?s2 1] by (simp add: psys_start_def pgoto_def)
  moreover have "semaphore_open_step 1 (?s PReopen) (?s (PMap 0 False))" using p_reopen [of "?s PReopen" 1 0]
    by (simp add: psys_start_def pgoto_def)
  moreover have "semaphore_open_step 1 (?s (PMap 0 False)) (?s (PUse 0 False))" using p_map_old [of "?s (PMap 0 False)" 1 0]
    by (simp add: psys_start_def pgoto_def)
  moreover have "use_step sp (?s (PUse 0 False)) (?s PUndef)" using p_undefined [of "?s (PUse 0 False)" 1 0 False sp]
    by (simp add: psys_start_def pgoto_def)
  ultimately have "(sem_program_step sp)\<^sup>*\<^sup>* psys_start (?s PUndef)"
    by (meson steps_create steps_open steps_use rtranclp.rtrancl_refl)
  then have "reach psys_init (sem_program_step sp) (?s PUndef)"
    by (intro reach_run [OF reach_init]) (simp_all add: psys_init_def)
  then show ?thesis by (intro exI [of _ "?s PUndef"]) (simp add: psys_start_def)
qed

text \<open>
  C11. The whole program refines the semaphore system. In every reachable state of any number of
  processes that create, open, use, close and remove the semaphore, with every call failing where
  it can, and as long as no process has used a semaphore before it was set up, each file whose
  set-up is complete is in a state the system of \<open>semaphore_wait\<close> and \<open>semaphore_post\<close> can reach
  from the semaphore that \<open>semaphore_create\<close> promises. So two processes that hold the semaphore
  of the same file are the same process.
\<close>

theorem sem_program_refines:
  assumes "reach psys_init (sem_program_step sp) s" and "\<forall>k. ps_pc s k \<noteq> PUndef" and "ps_ready s x"
  shows "reach sem_init (main_step sp) (ps_sys s x)
    \<and> (phase (ps_sys s x) i = Holding \<longrightarrow> phase (ps_sys s x) j = Holding \<longrightarrow> i = j)"
proof -
  have "psys_inv sp s" using program.inv_reach [OF assms(1)] assms(2) by (auto simp: defined_inv_def)
  then have r: "reach sem_init (main_step sp) (ps_sys s x)"
    using psys_facts(4) [of sp s x] assms(3) by (simp add: refines_main_def)
  with token.inv_reach [OF r] show ?thesis by (auto simp: token_inv_def dest: one_token_unique)
qed

theorem sem_program_refines_witness:
  "reach psys_init (sem_program_step True) psys_created \<and> reach sem_init (main_step True) (ps_sys psys_created 0)"
proof -
  have "\<forall>k. ps_pc psys_created k \<noteq> PUndef" "ps_ready psys_created 0"
    by (simp_all add: psys_created_def set_up_by_def psys_start_def)
  from sem_program_refines [OF psys_created_reach this, of True 0 0] psys_created_reach show ?thesis by blast
qed

end
