(* ===== verification/Counter_Locks.thy ===== *)
theory Counter_Locks
  imports C_Prelude
begin

text \<open>
  The programs in which several threads or processes increment one shared counter under a
  lock: \<open>thread/mutex\<close>, \<open>thread/spin-lock\<close>, \<open>thread/rw-lock\<close> and
  \<open>process/posix-ipc/semaphore/unnamed.c\<close>.

  The worker of the four programs is the same loop: take the lock, \<open>counter++\<close>, release the
  lock. \<open>counter_step\<close> is that loop for any number of workers, one memory access or one call
  per step (\<open>counter++\<close> is a load and a store), over the calls of an arbitrary lock. The
  locale \<open>exclusion\<close> says what the loop relies on; it is interpreted on the four locks, each
  modelled after its manual page.
\<close>

section \<open>The worker loop\<close>

text \<open>
  The place of a worker, with its loop variable \<open>i\<close>: at the loop test and the lock call,
  before the load of the counter, before the store (with the value loaded), before the
  unlock call, after the return.
\<close>

datatype cpc = CLock nat | CLoad nat | CStore nat int | CUnlock nat | CDone

text \<open>
  A lock call of thread \<open>i\<close>: \<open>None\<close> while it blocks, otherwise an error code or the lock
  afterwards.
\<close>

type_synonym 'l lock_call = "nat \<Rightarrow> 'l \<Rightarrow> (int + 'l) option"
type_synonym 'l unlock_call = "nat \<Rightarrow> 'l \<Rightarrow> int + 'l"

record 'l csys =
  lck :: 'l
  counter :: int
  cpc :: "nat \<Rightarrow> cpc"
  clog :: "outev list"

text \<open>
  What distinguishes the workers: whether they check the return values (mutex and spin lock
  do, and return after a message; the others go on), the two messages, and what they print
  when they leave the loop.
\<close>

record worker =
  checks :: bool
  lock_msg :: string
  unlock_msg :: string
  exit_log :: "outev list"

definition after_lock_error :: "worker \<Rightarrow> nat \<Rightarrow> cpc" where
  "after_lock_error w n = (if checks w then CDone else CLoad n)"

definition after_unlock_error :: "worker \<Rightarrow> nat \<Rightarrow> cpc" where
  "after_unlock_error w n = (if checks w then CDone else CLock (Suc n))"

definition error_log :: "worker \<Rightarrow> string \<Rightarrow> int \<Rightarrow> outev list" where
  "error_log w msg e = (if checks w then [Printf msg [FInt e]] else [])"

text \<open>
  One step of one worker, or a step of the other users of the lock (\<open>env\<close>). \<open>N\<close> is
  \<open>maxTestNumber\<close>.
\<close>

inductive counter_step ::
  "worker \<Rightarrow> 'l lock_call \<Rightarrow> 'l unlock_call \<Rightarrow> ('l \<Rightarrow> 'l \<Rightarrow> bool) \<Rightarrow> nat \<Rightarrow> 'l csys \<Rightarrow> 'l csys \<Rightarrow> bool"
  for w :: worker and acq :: "'l lock_call" and rel :: "'l unlock_call"
    and env :: "'l \<Rightarrow> 'l \<Rightarrow> bool" and N :: nat where
  loop_exit: "cpc s i = CLock n \<Longrightarrow> \<not> n < N \<Longrightarrow>
    counter_step w acq rel env N s (s\<lparr>cpc := (cpc s)(i := CDone), clog := clog s @ exit_log w\<rparr>)"
| take: "cpc s i = CLock n \<Longrightarrow> n < N \<Longrightarrow> acq i (lck s) = Some (Inr l) \<Longrightarrow>
    counter_step w acq rel env N s (s\<lparr>lck := l, cpc := (cpc s)(i := CLoad n)\<rparr>)"
| take_error: "cpc s i = CLock n \<Longrightarrow> n < N \<Longrightarrow> acq i (lck s) = Some (Inl e) \<Longrightarrow>
    counter_step w acq rel env N s (s\<lparr>cpc := (cpc s)(i := after_lock_error w n),
                                      clog := clog s @ error_log w (lock_msg w) e\<rparr>)"
| load: "cpc s i = CLoad n \<Longrightarrow>
    counter_step w acq rel env N s (s\<lparr>cpc := (cpc s)(i := CStore n (counter s))\<rparr>)"
| store: "cpc s i = CStore n v \<Longrightarrow>
    counter_step w acq rel env N s (s\<lparr>counter := v + 1, cpc := (cpc s)(i := CUnlock n)\<rparr>)"
| give: "cpc s i = CUnlock n \<Longrightarrow> rel i (lck s) = Inr l \<Longrightarrow>
    counter_step w acq rel env N s (s\<lparr>lck := l, cpc := (cpc s)(i := CLock (Suc n))\<rparr>)"
| give_error: "cpc s i = CUnlock n \<Longrightarrow> rel i (lck s) = Inl e \<Longrightarrow>
    counter_step w acq rel env N s (s\<lparr>cpc := (cpc s)(i := after_unlock_error w n),
                                      clog := clog s @ error_log w (unlock_msg w) e\<rparr>)"
| other: "env (lck s) l \<Longrightarrow> counter_step w acq rel env N s (s\<lparr>lck := l\<rparr>)"

text \<open>The workers \<open>T\<close> start at the loop test, with a zero counter and the lock \<open>l0\<close>.\<close>

definition counter_start :: "nat set \<Rightarrow> 'l \<Rightarrow> 'l csys" where
  "counter_start T l0 = \<lparr>lck = l0, counter = 0, cpc = (\<lambda>i. if i \<in> T then CLock 0 else CDone), clog = []\<rparr>"

definition counter_init :: "nat set \<Rightarrow> 'l \<Rightarrow> 'l csys \<Rightarrow> bool" where
  "counter_init T l0 s \<longleftrightarrow> s = counter_start T l0"

definition all_done :: "'l csys \<Rightarrow> bool" where
  "all_done s \<longleftrightarrow> cpc s = (\<lambda>_. CDone)"

definition no_env :: "'l \<Rightarrow> 'l \<Rightarrow> bool" where
  "no_env l m \<longleftrightarrow> False"

section \<open>What a lock must promise\<close>

text \<open>
  \<open>excl l H\<close>: the lock \<open>l\<close> is consistent with the workers \<open>H\<close> inside their critical
  section. A thread outside gets the lock only when nobody is inside, and without an error;
  the thread inside can leave; the other users of the lock do not disturb.
\<close>

locale exclusion =
  fixes acq :: "'l lock_call" and rel :: "'l unlock_call" and env :: "'l \<Rightarrow> 'l \<Rightarrow> bool"
    and excl :: "'l \<Rightarrow> nat set \<Rightarrow> bool"
  assumes excl_one: "excl l H \<Longrightarrow> i \<in> H \<Longrightarrow> H = {i}"
    and acq_excl: "excl l H \<Longrightarrow> i \<notin> H \<Longrightarrow> acq i l = Some r \<Longrightarrow> H = {} \<and> (\<exists>m. r = Inr m \<and> excl m {i})"
    and rel_excl: "excl l {i} \<Longrightarrow> \<exists>m. rel i l = Inr m \<and> excl m {}"
    and env_excl: "env l m \<Longrightarrow> excl l H \<Longrightarrow> excl m H"

text \<open>A lock that nobody else uses and that never blocks when nobody is inside.\<close>

locale live_exclusion = exclusion acq rel no_env excl
  for acq :: "'l lock_call" and rel :: "'l unlock_call" and excl :: "'l \<Rightarrow> nat set \<Rightarrow> bool" +
  assumes acq_free: "excl l {} \<Longrightarrow> acq i l \<noteq> None"

section \<open>The counter never loses an increment\<close>

fun in_cs :: "cpc \<Rightarrow> bool" where
  "in_cs (CLoad n) = True"
| "in_cs (CStore n v) = True"
| "in_cs (CUnlock n) = True"
| "in_cs _ = False"

text \<open>The increments a worker has done, and what its place says of the counter.\<close>

fun done_by :: "nat \<Rightarrow> cpc \<Rightarrow> nat" where
  "done_by N (CLock n) = n"
| "done_by N (CLoad n) = n"
| "done_by N (CStore n v) = n"
| "done_by N (CUnlock n) = Suc n"
| "done_by N CDone = N"

fun place_ok :: "nat \<Rightarrow> int \<Rightarrow> cpc \<Rightarrow> bool" where
  "place_ok N c (CLock n) = (n \<le> N)"
| "place_ok N c (CLoad n) = (n < N)"
| "place_ok N c (CStore n v) = (n < N \<and> v = c)"
| "place_ok N c (CUnlock n) = (n < N)"
| "place_ok N c CDone = True"

definition insiders :: "(nat \<Rightarrow> cpc) \<Rightarrow> nat set" where
  "insiders p = {i. in_cs (p i)}"

definition total :: "nat set \<Rightarrow> nat \<Rightarrow> (nat \<Rightarrow> cpc) \<Rightarrow> nat" where
  "total T N p = (\<Sum>i\<in>T. done_by N (p i))"

definition cinv :: "worker \<Rightarrow> nat set \<Rightarrow> nat \<Rightarrow> ('l \<Rightarrow> nat set \<Rightarrow> bool) \<Rightarrow> 'l csys \<Rightarrow> bool" where
  "cinv w T N excl s \<longleftrightarrow> finite T \<and> excl (lck s) (insiders (cpc s))
     \<and> (\<forall>i. i \<notin> T \<longrightarrow> cpc s i = CDone) \<and> (\<forall>i. place_ok N (counter s) (cpc s i))
     \<and> counter s = int (total T N (cpc s)) \<and> set (clog s) \<subseteq> set (exit_log w)"

lemma insiders_upd:
  "insiders (p(i := q)) = (if in_cs q then insert i (insiders p) else insiders p - {i})"
  by (auto simp: insiders_def)

lemma insiders_iff [simp]: "i \<in> insiders p \<longleftrightarrow> in_cs (p i)"
  by (simp add: insiders_def)

lemma total_upd:
  assumes "finite T" and "i \<in> T"
  shows "total T N (p(i := q)) + done_by N (p i) = total T N p + done_by N q"
proof -
  have "total T N (p(i := q)) = done_by N q + (\<Sum>j\<in>T - {i}. done_by N (p j))"
    using assms by (simp add: total_def sum.remove [of T i])
  moreover have "total T N p = done_by N (p i) + (\<Sum>j\<in>T - {i}. done_by N (p j))"
    using assms by (simp add: total_def sum.remove [of T i])
  ultimately show ?thesis by simp
qed

lemma place_ok_upd: "\<forall>i. place_ok N c (p i) \<Longrightarrow> place_ok N c q \<Longrightarrow> place_ok N c ((p(i := q)) k)"
  by simp

lemma cinv_start: "finite T \<Longrightarrow> excl l0 {} \<Longrightarrow> cinv w T N excl (counter_start T l0)"
  by (auto simp: cinv_def counter_start_def insiders_def total_def)

lemma cinv_log: "cinv w T N excl s \<Longrightarrow> cinv w T N excl (s\<lparr>clog := clog s @ exit_log w\<rparr>)"
  by (auto simp: cinv_def)

lemma place_ok_outside: "place_ok N c p \<Longrightarrow> \<not> in_cs p \<Longrightarrow> place_ok N d p"
  by (cases p) auto

context exclusion
begin

lemma cinv_facts:
  assumes "cinv w T N excl s"
  shows "finite T" and "excl (lck s) (insiders (cpc s))" and "\<forall>i. place_ok N (counter s) (cpc s i)"
    and "counter s = int (total T N (cpc s))" and "set (clog s) \<subseteq> set (exit_log w)"
    and "cpc s i \<noteq> CDone \<Longrightarrow> i \<in> T"
    and "in_cs (cpc s i) \<Longrightarrow> insiders (cpc s) = {i}"
  using assms excl_one [of "lck s" "insiders (cpc s)" i] by (auto simp: cinv_def)

text \<open>A worker that moves without touching the counter: only the lock has to be checked.\<close>

lemma cinv_move:
  assumes inv: "cinv w T N excl s" and here: "cpc s i \<noteq> CDone"
    and ex: "excl l (insiders ((cpc s)(i := q)))"
    and ok: "place_ok N (counter s) q" and same: "done_by N q = done_by N (cpc s i)"
  shows "cinv w T N excl (s\<lparr>lck := l, cpc := (cpc s)(i := q)\<rparr>)"
proof -
  have T: "finite T" "i \<in> T" using inv here cinv_facts(1,6) by blast+
  have "total T N ((cpc s)(i := q)) = total T N (cpc s)" using total_upd [OF T, of N "cpc s" q] same by simp
  then show ?thesis using inv ex ok T by (auto simp: cinv_def)
qed

lemma cinv_store:
  assumes inv: "cinv w T N excl s" and at: "cpc s i = CStore n v"
  shows "cinv w T N excl (s\<lparr>counter := v + 1, cpc := (cpc s)(i := CUnlock n)\<rparr>)"
proof -
  have T: "finite T" "i \<in> T" using inv at cinv_facts(1,6) by force+
  have at_v: "n < N" "v = counter s" using inv at cinv_facts(3) [OF inv] by (metis place_ok.simps(3))+
  have ins: "insiders ((cpc s)(i := CUnlock n)) = insiders (cpc s)"
    using at by (auto simp: insiders_upd)
  have "total T N ((cpc s)(i := CUnlock n)) = Suc (total T N (cpc s))"
    using total_upd [OF T, of N "cpc s" "CUnlock n"] at by simp
  moreover have "place_ok N d (cpc s k)" if "k \<noteq> i" for d k
  proof (rule place_ok_outside)
    show "place_ok N (counter s) (cpc s k)" using cinv_facts(3) [OF inv] by blast
    show "\<not> in_cs (cpc s k)"
      using that cinv_facts(7) [OF inv, of i] at insiders_iff [of k "cpc s"] by simp
  qed
  ultimately show ?thesis using inv ins at_v T by (simp add: cinv_def)
qed

lemma cinv_step:
  assumes step: "counter_step w acq rel env N s t" and inv: "cinv w T N excl s"
  shows "cinv w T N excl t"
proof -
  note lock = cinv_facts(2) [OF inv] and place = cinv_facts(3) [OF inv]
  have gone: "insiders ((cpc s)(i := q)) = {}" if "in_cs (cpc s i)" "\<not> in_cs q" for i q
    using cinv_facts(7) [OF inv that(1)] that by (simp add: insiders_upd)
  from step show ?thesis
  proof cases
    case (loop_exit i n)
    then have "n = N" using spec [OF place, of i] by simp
    with loop_exit lock cinv_move [OF inv, of i "lck s" CDone]
    have "cinv w T N excl (s\<lparr>cpc := (cpc s)(i := CDone)\<rparr>)" by (simp add: insiders_upd)
    from cinv_log [OF this] loop_exit show ?thesis by simp
  next
    case (take i n l)
    then have "insiders (cpc s) = {} \<and> excl l {i}" using acq_excl [OF lock, of i] by simp
    with take cinv_move [OF inv, of i l "CLoad n"] show ?thesis by (simp add: insiders_upd)
  next
    case (take_error i n e)
    then show ?thesis using acq_excl [OF lock, of i] by simp
  next
    case (load i n)
    then have "n < N" "insert i (insiders (cpc s)) = insiders (cpc s)"
      using spec [OF place, of i] by (auto simp: insiders_def)
    with load lock cinv_move [OF inv, of i "lck s" "CStore n (counter s)"] show ?thesis
      by (simp add: insiders_upd)
  next
    case (store i n v)
    with cinv_store [OF inv] show ?thesis by simp
  next
    case (give i n l)
    then have "insiders (cpc s) = {i}" and "n < N"
      using cinv_facts(7) [OF inv, of i] spec [OF place, of i] by simp_all
    then have "excl l {}" using rel_excl [of "lck s" i] lock give by auto
    with give gone [of i "CLock (Suc n)"] \<open>n < N\<close> cinv_move [OF inv, of i l "CLock (Suc n)"]
    show ?thesis by simp
  next
    case (give_error i n e)
    then have "insiders (cpc s) = {i}" using cinv_facts(7) [OF inv, of i] by simp
    with give_error show ?thesis using rel_excl [of "lck s" i] lock by auto
  next
    case (other l)
    with inv show ?thesis by (auto simp: cinv_def intro: env_excl)
  qed
qed

lemma cinv_reach:
  assumes "reach (counter_init T l0) (counter_step w acq rel env N) s"
    and "finite T" and "excl l0 {}"
  shows "cinv w T N excl s"
  using assms(1)
proof (induction rule: reach.induct)
  case (reach_init s)
  then show ?case using assms(2,3) by (simp add: counter_init_def cinv_start)
qed (rule cinv_step)

lemma counter_total:
  assumes "reach (counter_init T l0) (counter_step w acq rel env N) s"
    and "finite T" and "excl l0 {}"
  shows "0 \<le> counter s \<and> counter s \<le> int (card T * N) \<and> set (clog s) \<subseteq> set (exit_log w)
    \<and> (all_done s \<longrightarrow> counter s = int (card T * N))"
proof -
  have inv: "cinv w T N excl s" by (rule cinv_reach [OF assms])
  have "done_by N (cpc s i) \<le> N" for i
    using spec [OF cinv_facts(3) [OF inv], of i] by (cases "cpc s i") simp_all
  then have "total T N (cpc s) \<le> card T * N"
    using sum_bounded_above [of T "\<lambda>i. done_by N (cpc s i)" N] by (simp add: total_def)
  then have "0 \<le> counter s \<and> counter s \<le> int (card T * N)"
    using cinv_facts(4) [OF inv] by (simp only: of_nat_0_le_iff of_nat_le_iff simp_thms)
  moreover have "total T N (\<lambda>_. CDone) = card T * N" by (simp add: total_def)
  ultimately show ?thesis using cinv_facts(4,5) [OF inv] by (simp add: all_done_def)
qed

lemma one_inside:
  assumes "reach (counter_init T l0) (counter_step w acq rel env N) s"
    and "finite T" and "excl l0 {}" and "in_cs (cpc s i)" and "in_cs (cpc s j)"
  shows "i = j"
  using cinv_facts(7) [OF cinv_reach [OF assms(1-3)] assms(4)] assms(5) insiders_iff [of j "cpc s"]
  by simp

end

section \<open>The workers finish\<close>

fun work :: "nat \<Rightarrow> cpc \<Rightarrow> nat" where
  "work N (CLock n) = 4 * (N - n) + 1"
| "work N (CLoad n) = 4 * (N - n)"
| "work N (CStore n v) = 4 * (N - n) - 1"
| "work N (CUnlock n) = 4 * (N - n) - 2"
| "work N CDone = 0"

definition rank :: "nat set \<Rightarrow> nat \<Rightarrow> 'l csys \<Rightarrow> nat" where
  "rank T N s = (\<Sum>i\<in>T. work N (cpc s i))"

lemma rank_less:
  assumes "finite T" and "i \<in> T" and "cpc t = (cpc s)(i := q)" and "work N q < work N (cpc s i)"
  shows "rank T N t < rank T N s"
proof -
  have "rank T N t = work N q + (\<Sum>j\<in>T - {i}. work N (cpc s j))"
    using assms by (simp add: rank_def sum.remove [of T i])
  moreover have "rank T N s = work N (cpc s i) + (\<Sum>j\<in>T - {i}. work N (cpc s j))"
    using assms by (simp add: rank_def sum.remove [of T i])
  ultimately show ?thesis using assms(4) by simp
qed

context live_exclusion
begin

lemma rank_step:
  assumes step: "counter_step w acq rel no_env N s t" and inv: "cinv w T N excl s"
  shows "rank T N t < rank T N s"
proof -
  have smaller: ?thesis if "cpc t = (cpc s)(i := q)" "cpc s i \<noteq> CDone" "work N q < work N (cpc s i)" for i q
    using that rank_less [of T i t s q N] cinv_facts(1,6) [OF inv] by blast
  note place = cinv_facts(3) [OF inv]
  from step show ?thesis
  proof cases
    case (loop_exit i n)
    then show ?thesis by (intro smaller) auto
  next
    case (take i n l)
    then show ?thesis by (intro smaller) auto
  next
    case (take_error i n e)
    then show ?thesis using acq_excl [OF cinv_facts(2) [OF inv], of i] by simp
  next
    case (load i n)
    then show ?thesis using spec [OF place, of i] by (intro smaller) auto
  next
    case (store i n v)
    then show ?thesis using spec [OF place, of i] by (intro smaller) auto
  next
    case (give i n l)
    then show ?thesis using spec [OF place, of i] by (intro smaller) auto
  next
    case (give_error i n e)
    then show ?thesis
      using rel_excl [of "lck s" i] cinv_facts(2) [OF inv] cinv_facts(7) [OF inv, of i] by auto
  qed (simp add: no_env_def)
qed

lemma not_stuck:
  assumes inv: "cinv w T N excl s" and "\<not> all_done s"
  shows "\<exists>t. counter_step w acq rel no_env N s t"
proof (cases "\<exists>i. in_cs (cpc s i)")
  case True
  then obtain i where i: "in_cs (cpc s i)" by blast
  then obtain m where "rel i (lck s) = Inr m"
    using rel_excl [of "lck s" i] cinv_facts(2) [OF inv] cinv_facts(7) [OF inv, of i] by auto
  with i show ?thesis by (cases "cpc s i") (auto intro: counter_step.intros)
next
  case False
  then have "excl (lck s) {}" using cinv_facts(2) [OF inv] by (auto simp: insiders_def)
  then have free: "acq i (lck s) \<noteq> None" for i by (rule acq_free)
  from assms(2) obtain i where "cpc s i \<noteq> CDone" by (auto simp: all_done_def)
  with False obtain n where at: "cpc s i = CLock n" by (metis in_cs.simps(1-3) cpc.exhaust)
  show ?thesis
  proof (cases "acq i (lck s)")
    case (Some r)
    with at show ?thesis by (cases r; cases "n < N") (auto intro: counter_step.intros)
  qed (use free in auto)
qed

text \<open>No run is longer than \<open>4 N + 1\<close> steps per worker, and every run can be completed.\<close>

sublocale workers: decreasing_system "counter_step w acq rel no_env N" "cinv w T N excl" "rank T N"
  for w N T
  by unfold_locales (auto intro: cinv_step rank_step)

lemma runs_are_short:
  assumes "(counter_step w acq rel no_env N ^^ k) (counter_start T l0) s" and "finite T" and "excl l0 {}"
  shows "k \<le> card T * (4 * N + 1)"
proof -
  have "rank T N (counter_start T l0) = card T * (4 * N + 1)"
    by (simp add: rank_def counter_start_def)
  with workers.run_bound [OF assms(1), of T] cinv_start [of T excl l0 w N, OF assms(2,3)] show ?thesis by simp
qed

lemma finishes:
  assumes "cinv w T N excl s"
  shows "\<exists>t. (counter_step w acq rel no_env N)\<^sup>*\<^sup>* s t \<and> all_done t"
  using workers.reaches_stuck [OF assms] not_stuck by blast

lemma finishes_start:
  assumes "finite T" and "excl l0 {}"
  shows "\<exists>t. reach (counter_init T l0) (counter_step w acq rel no_env N) t \<and> all_done t"
  using finishes [OF cinv_start [of T excl l0 w N, OF assms]]
  by (meson counter_init_def reach_init reach_run)

end

end
