(* ===== verification/Lock_Programs.thy ===== *)
theory Lock_Programs
  imports Counter_Locks
begin

text \<open>
  The four locks the counter programs use, and those programs: \<open>thread/mutex/main.c\<close> (a
  recursive mutex, with the lock tests its \<open>main\<close> does first), \<open>thread/spin-lock/main.c\<close>,
  the counting part of \<open>process/posix-ipc/semaphore/unnamed.c\<close>, and
  \<open>thread/rw-lock/main.c\<close> with its readers. The locks follow their manual pages; each
  interprets the locale \<open>exclusion\<close>.
\<close>

section \<open>Recursive mutex: thread/mutex\<close>

definition EPERM :: int where [errno_defs]: "EPERM = 1"
definition EBUSY :: int where [errno_defs]: "EBUSY = 16"

text \<open>The owner, and how often it has locked; at most \<open>UINT_MAX\<close> times.\<close>

record rmutex =
  owner :: "nat option"
  depth :: nat

definition rmutex_free :: rmutex where
  "rmutex_free = \<lparr>owner = None, depth = 0\<rparr>"

definition UINT_MAX :: nat where
  "UINT_MAX = 2 ^ 32 - 1"

definition pthread_mutex_lock :: "rmutex lock_call" where
  "pthread_mutex_lock i m = (case owner m of
      None \<Rightarrow> Some (Inr \<lparr>owner = Some i, depth = 1\<rparr>)
    | Some j \<Rightarrow> if j \<noteq> i then None
        else Some (if depth m = UINT_MAX then Inl EAGAIN else Inr (m\<lparr>depth := Suc (depth m)\<rparr>)))"

definition pthread_mutex_trylock :: "nat \<Rightarrow> rmutex \<Rightarrow> int + rmutex" where
  "pthread_mutex_trylock i m = (case pthread_mutex_lock i m of None \<Rightarrow> Inl EBUSY | Some r \<Rightarrow> r)"

definition pthread_mutex_unlock :: "rmutex unlock_call" where
  "pthread_mutex_unlock i m = (if owner m \<noteq> Some i then Inl EPERM
     else Inr (if depth m = 1 then rmutex_free else m\<lparr>depth := depth m - 1\<rparr>))"

definition rmutex_excl :: "rmutex \<Rightarrow> nat set \<Rightarrow> bool" where
  "rmutex_excl m H \<longleftrightarrow> m = rmutex_free \<and> H = {} \<or> (\<exists>i. H = {i} \<and> m = \<lparr>owner = Some i, depth = 1\<rparr>)"

interpretation mutex: live_exclusion pthread_mutex_lock pthread_mutex_unlock rmutex_excl
  by unfold_locales
    (auto simp: rmutex_excl_def rmutex_free_def pthread_mutex_lock_def pthread_mutex_unlock_def
       no_env_def split: if_splits)

text \<open>\<open>_func\<close> of \<open>thread/mutex\<close>.\<close>

definition mutex_worker :: worker where
  "mutex_worker = \<lparr>checks = True, lock_msg = ''lock mutex failed, ret is %d\<newline>'',
     unlock_msg = ''unlock mutex failed, ret is %d\<newline>'', exit_log = []\<rparr>"

definition mutex_maxTestNumber :: nat where
  "mutex_maxTestNumber = 10000000"

definition mutex_step :: "rmutex csys \<Rightarrow> rmutex csys \<Rightarrow> bool" where
  "mutex_step = counter_step mutex_worker pthread_mutex_lock pthread_mutex_unlock no_env mutex_maxTestNumber"

text \<open>
  \<open>main\<close> up to the creation of the threads. The return codes of the three attribute and
  initialisation calls are arguments; the main thread has the number 2, the workers are 0
  and 1. \<open>Ready\<close> is the point where the threads are created.
\<close>

datatype main_state = Exit int | Blocked | Ready

definition lock_io :: "(nat \<Rightarrow> rmutex \<Rightarrow> int + rmutex) \<Rightarrow> nat \<Rightarrow> (rmutex, int) io" where
  "lock_io f i = State (\<lambda>s. case f i (kern s) of Inl e \<Rightarrow> (e, s) | Inr m \<Rightarrow> (0, s\<lparr>kern := m\<rparr>))"

definition block_io :: "rmutex lock_call \<Rightarrow> nat \<Rightarrow> (rmutex, int option) io" where
  "block_io f i = State (\<lambda>s. case f i (kern s) of None \<Rightarrow> (None, s)
     | Some (Inl e) \<Rightarrow> (Some e, s) | Some (Inr m) \<Rightarrow> (Some 0, s\<lparr>kern := m\<rparr>))"

definition mutex_init :: "int \<Rightarrow> (rmutex, unit) io" where
  "mutex_init r = State (\<lambda>s. ((), if r = 0 then s\<lparr>kern := rmutex_free\<rparr> else s))"

definition mutex_selftest :: "(rmutex, main_state) io" where
  "mutex_selftest = do {
     r \<leftarrow> block_io pthread_mutex_lock 2;
     case r of None \<Rightarrow> ret Blocked
     | Some e \<Rightarrow> if e = 0 then do {
         printf ''lock mutex succeeded\<newline>'' [];
         e \<leftarrow> lock_io pthread_mutex_trylock 2;
         (if e = 0 then do {
           printf ''try lock mutex ret is %d\<newline>'' [FInt e];
           _ \<leftarrow> lock_io pthread_mutex_unlock 2;
           ret () }
          else printf ''try lock mutex failed, ret is %d\<newline>'' [FInt e]);
         _ \<leftarrow> lock_io pthread_mutex_unlock 2;
         ret Ready }
       else do {
         printf ''lock mutex failed, ret is %d\<newline>'' [FInt e];
         ret (Exit (-1)) } }"

definition mutex_main :: "int \<Rightarrow> int \<Rightarrow> int \<Rightarrow> (rmutex, main_state) io" where
  "mutex_main attr_ret type_ret init_ret =
     (if attr_ret \<noteq> 0 then do {
        printf ''mutex attr init failed, ret is %d\<newline>'' [FInt attr_ret]; ret (Exit (-1)) }
      else if type_ret \<noteq> 0 then do {
        printf ''pthread_mutex_init failed, ret is %d\<newline>'' [FInt type_ret]; ret (Exit (-1)) }
      else do {
        mutex_init init_ret;
        if init_ret \<noteq> 0 then do {
          printf ''pthread_mutex_init failed, ret is %d\<newline>'' [FInt init_ret]; ret (Exit (-1)) }
        else mutex_selftest })"

text \<open>After both joins \<open>main\<close> prints the counter.\<close>

definition main_report :: "'l csys \<Rightarrow> outev" where
  "main_report s = Printf ''counter is %ld\<newline>'' [FInt (counter s)]"

text \<open>
  Initialised without an error, the mutex is locked twice and unlocked twice by the main
  thread (the lock is recursive, so \<open>trylock\<close> succeeds), and it is free when the workers
  are created; a failing call is reported and ends the program with -1 instead.
\<close>

lemma mutex_main_ready:
  "run_state (mutex_main a t i) \<lparr>kern = m, errno = e, outs = out\<rparr> =
     (if a = 0 \<and> t = 0 \<and> i = 0
      then (Ready, \<lparr>kern = rmutex_free, errno = e, outs = out @
              [Printf ''lock mutex succeeded\<newline>'' [], Printf ''try lock mutex ret is %d\<newline>'' [FInt 0]]\<rparr>)
      else (Exit (-1), \<lparr>kern = m, errno = e, outs = out @
              [if a \<noteq> 0 then Printf ''mutex attr init failed, ret is %d\<newline>'' [FInt a]
               else Printf ''pthread_mutex_init failed, ret is %d\<newline>'' [FInt (if t \<noteq> 0 then t else i)]]\<rparr>))"
  by (simp add: mutex_main_def mutex_selftest_def mutex_init_def lock_io_def block_io_def io_simps
      pthread_mutex_lock_def pthread_mutex_trylock_def pthread_mutex_unlock_def rmutex_free_def
      UINT_MAX_def)

text \<open>
  C4. Two threads of \<open>thread/mutex\<close> increment the counter under the mutex: no reachable
  state has a counter outside \<open>[0, 20000000]\<close> or an error message, at most one thread is
  between lock and unlock, and when both threads have returned \<open>main\<close> prints exactly
  20000000. No increment is lost, although the load and the store of \<open>counter++\<close>
  interleave freely with the other thread.
\<close>

theorem mutex_counter_exact:
  assumes "reach (counter_init {0, 1} rmutex_free) mutex_step s"
  shows "0 \<le> counter s \<and> counter s \<le> 20000000 \<and> clog s = []
    \<and> (in_cs (cpc s i) \<and> in_cs (cpc s j) \<longrightarrow> i = j)
    \<and> (all_done s \<longrightarrow> main_report s = Printf ''counter is %ld\<newline>'' [FInt 20000000])"
proof -
  have free: "rmutex_excl rmutex_free {}" by (simp add: rmutex_excl_def)
  note r = assms [unfolded mutex_step_def]
  from mutex.counter_total [OF r _ free] mutex.one_inside [OF r _ free, of i j]
  show ?thesis by (auto simp: main_report_def mutex_maxTestNumber_def mutex_worker_def)
qed

lemma mutex_completes:
  assumes "reach (counter_init {0, 1} rmutex_free) mutex_step s"
  shows "\<exists>t. mutex_step\<^sup>*\<^sup>* s t \<and> all_done t"
proof -
  have "cinv mutex_worker {0, 1} mutex_maxTestNumber rmutex_excl s"
    using assms by (auto simp: mutex_step_def rmutex_excl_def intro: mutex.cinv_reach)
  then show ?thesis unfolding mutex_step_def by (rule mutex.finishes)
qed

theorem mutex_counter_exact_witness:
  "\<exists>s. reach (counter_init {0, 1} rmutex_free) mutex_step s \<and> all_done s
     \<and> main_report s = Printf ''counter is %ld\<newline>'' [FInt 20000000]"
proof -
  have "reach (counter_init {0, 1} rmutex_free) mutex_step (counter_start {0, 1} rmutex_free)"
    by (rule reach_init) (simp add: counter_init_def)
  with mutex_completes obtain s where "reach (counter_init {0, 1} rmutex_free) mutex_step s" "all_done s"
    by (meson reach_run)
  with mutex_counter_exact [of s] show ?thesis by blast
qed

text \<open>
  C22. The threads of \<open>thread/mutex\<close> terminate under every scheduler: a run has at most
  80000002 steps, and from every reachable state both threads can be brought to their end,
  so the program never deadlocks.
\<close>

theorem mutex_terminates:
  assumes "reach (counter_init {0, 1} rmutex_free) mutex_step s"
  shows "(\<exists>t. mutex_step\<^sup>*\<^sup>* s t \<and> all_done t)
    \<and> ((mutex_step ^^ k) (counter_start {0, 1} rmutex_free) u \<longrightarrow> k \<le> 80000002)"
proof -
  have "rmutex_excl rmutex_free {}" by (simp add: rmutex_excl_def)
  then have "(mutex_step ^^ k) (counter_start {0, 1} rmutex_free) u \<Longrightarrow> k \<le> 80000002"
    using mutex.runs_are_short [where w = mutex_worker and N = mutex_maxTestNumber and T = "{0, 1}"]
    by (simp add: mutex_step_def mutex_maxTestNumber_def)
  with mutex_completes [OF assms] show ?thesis by blast
qed

theorem mutex_terminates_witness:
  "\<exists>t. mutex_step\<^sup>*\<^sup>* (counter_start {0, 1} rmutex_free) t \<and> all_done t"
proof -
  have "reach (counter_init {0, 1} rmutex_free) mutex_step (counter_start {0, 1} rmutex_free)"
    by (rule reach_init) (simp add: counter_init_def)
  from mutex_terminates [OF this, of 0 "counter_start {0, 1} rmutex_free"] show ?thesis by blast
qed

section \<open>Spin lock: thread/spin-lock\<close>

text \<open>
  The lock by its holder. A locked lock makes every thread spin, its holder too; unlocking
  frees it.
\<close>

definition pthread_spin_lock :: "nat option lock_call" where
  "pthread_spin_lock i l = (case l of None \<Rightarrow> Some (Inr (Some i)) | Some _ \<Rightarrow> None)"

definition pthread_spin_unlock :: "nat option unlock_call" where
  "pthread_spin_unlock i l = Inr None"

definition spin_excl :: "nat option \<Rightarrow> nat set \<Rightarrow> bool" where
  "spin_excl l H \<longleftrightarrow> l = None \<and> H = {} \<or> (\<exists>i. l = Some i \<and> H = {i})"

interpretation spin: live_exclusion pthread_spin_lock pthread_spin_unlock spin_excl
  by unfold_locales
    (auto simp: spin_excl_def pthread_spin_lock_def pthread_spin_unlock_def no_env_def
       split: option.splits)

definition spin_worker :: worker where
  "spin_worker = \<lparr>checks = True, lock_msg = ''spin lock failed, ret is %d\<newline>'',
     unlock_msg = ''spin unlock failed, ret is %d\<newline>'', exit_log = []\<rparr>"

definition spin_maxTestNumber :: nat where
  "spin_maxTestNumber = 100000000"

definition spin_step :: "nat option csys \<Rightarrow> nat option csys \<Rightarrow> bool" where
  "spin_step = counter_step spin_worker pthread_spin_lock pthread_spin_unlock no_env spin_maxTestNumber"

text \<open>\<open>main\<close> up to the creation of the threads, with the return code of \<open>pthread_spin_init\<close>.\<close>

definition spin_main :: "int \<Rightarrow> (nat option, main_state) io" where
  "spin_main init_ret =
     (if init_ret \<noteq> 0 then do {
        printf ''spin lock failed, ret is %d\<newline>'' [FInt init_ret];
        ret (Exit (-1)) }
      else do {
        State (\<lambda>s. ((), s\<lparr>kern := None\<rparr>));
        ret Ready })"

text \<open>
  Two threads of \<open>thread/spin-lock\<close>: the counter stays within \<open>[0, 200000000]\<close>, no
  call fails, both threads can always be brought to their end, and then \<open>main\<close> prints
  200000000. The threads start only from a lock that was initialised without an error.
\<close>

lemma spin_counter_exact:
  assumes "reach (counter_init {0, 1} None) spin_step s"
  shows "0 \<le> counter s \<and> counter s \<le> 200000000 \<and> clog s = []
    \<and> (\<exists>t. spin_step\<^sup>*\<^sup>* s t \<and> all_done t)
    \<and> (fst (run_state (spin_main r) p) = Ready \<longrightarrow> r = 0 \<and> kern (snd (run_state (spin_main r) p)) = None)
    \<and> (all_done s \<longrightarrow> main_report s = Printf ''counter is %ld\<newline>'' [FInt 200000000])"
proof -
  have free: "spin_excl None {}" by (simp add: spin_excl_def)
  note r = assms [unfolded spin_step_def]
  have "cinv spin_worker {0, 1} spin_maxTestNumber spin_excl s" by (rule spin.cinv_reach [OF r _ free]) simp
  then have "\<exists>t. spin_step\<^sup>*\<^sup>* s t \<and> all_done t" unfolding spin_step_def by (rule spin.finishes)
  with spin.counter_total [OF r _ free] show ?thesis
    by (auto simp: main_report_def spin_maxTestNumber_def spin_worker_def spin_main_def io_simps split: if_splits)
qed

section \<open>Semaphore in shared memory: process/posix-ipc/semaphore/unnamed.c\<close>

definition EOVERFLOW :: int where [errno_defs]: "EOVERFLOW = 75"

text \<open>The value of the semaphore; \<open>SEM_VALUE_MAX\<close> is \<open>INT_MAX\<close>.\<close>

definition SEM_VALUE_MAX :: nat where
  "SEM_VALUE_MAX = 2 ^ 31 - 1"

definition sem_wait :: "nat lock_call" where
  "sem_wait i v = (if v = 0 then None else Some (Inr (v - 1)))"

definition sem_post :: "nat unlock_call" where
  "sem_post i v = (if v = SEM_VALUE_MAX then Inl EOVERFLOW else Inr (Suc v))"

definition sem_excl :: "nat \<Rightarrow> nat set \<Rightarrow> bool" where
  "sem_excl v H \<longleftrightarrow> v = 1 \<and> H = {} \<or> v = 0 \<and> (\<exists>i. H = {i})"

interpretation psem: live_exclusion sem_wait sem_post sem_excl
  by unfold_locales
    (auto simp: sem_excl_def sem_wait_def sem_post_def SEM_VALUE_MAX_def no_env_def split: if_splits)

text \<open>The loop of the creator and of the reader; neither looks at the return values.\<close>

definition unnamed_worker :: worker where
  "unnamed_worker = \<lparr>checks = False, lock_msg = [], unlock_msg = [], exit_log = []\<rparr>"

definition unnamed_maxTestCount :: nat where
  "unnamed_maxTestCount = 100000000"

definition unnamed_step :: "nat csys \<Rightarrow> nat csys \<Rightarrow> bool" where
  "unnamed_step = counter_step unnamed_worker sem_wait sem_post no_env unnamed_maxTestCount"

text \<open>
  \<open>k\<close> processes of \<open>unnamed.c\<close> on one segment whose semaphore was initialised to 1 and
  whose number is 0: the number counts every increment, is \<open>k\<close> times \<open>maxTestCount\<close> when
  all have left their loops, which they always can, and with at most 21 processes it stays in
  the range of an \<open>int\<close>.
\<close>

lemma unnamed_counter_exact:
  assumes "reach (counter_init {..<k} 1) unnamed_step s"
  shows "(\<exists>t. unnamed_step\<^sup>*\<^sup>* s t \<and> all_done t)
    \<and> (all_done s \<longrightarrow> counter s = int k * 100000000)
    \<and> (k \<le> 21 \<longrightarrow> 0 \<le> counter s \<and> counter s < 2 ^ 31)"
proof -
  have free: "sem_excl 1 {}" by (simp add: sem_excl_def)
  note r = assms [unfolded unnamed_step_def]
  have "cinv unnamed_worker {..<k} unnamed_maxTestCount sem_excl s" by (rule psem.cinv_reach [OF r _ free]) simp
  then have "\<exists>t. unnamed_step\<^sup>*\<^sup>* s t \<and> all_done t" unfolding unnamed_step_def by (rule psem.finishes)
  with psem.counter_total [OF r _ free] show ?thesis by (auto simp: unnamed_maxTestCount_def)
qed

section \<open>Read-write lock: thread/rw-lock\<close>

text \<open>The writer and the readers that hold the lock.\<close>

record rwlock =
  writer :: "nat option"
  readers :: "nat set"

definition rwlock_free :: rwlock where
  "rwlock_free = \<lparr>writer = None, readers = {}\<rparr>"

definition pthread_rwlock_wrlock :: "rwlock lock_call" where
  "pthread_rwlock_wrlock i l = (if writer l = Some i then Some (Inl EDEADLK)
     else if writer l = None \<and> readers l = {} then Some (Inr (l\<lparr>writer := Some i\<rparr>)) else None)"

definition pthread_rwlock_rdlock :: "rwlock lock_call" where
  "pthread_rwlock_rdlock i l = (if writer l = Some i then Some (Inl EDEADLK)
     else if writer l = None then Some (Inr (l\<lparr>readers := insert i (readers l)\<rparr>)) else None)"

definition pthread_rwlock_unlock :: "rwlock unlock_call" where
  "pthread_rwlock_unlock i l = Inr (if writer l = Some i then l\<lparr>writer := None\<rparr>
     else l\<lparr>readers := readers l - {i}\<rparr>)"

definition rw_excl :: "rwlock \<Rightarrow> nat set \<Rightarrow> bool" where
  "rw_excl l H \<longleftrightarrow> H = set_option (writer l) \<and> (H \<noteq> {} \<longrightarrow> readers l = {})"

text \<open>What readers do to the lock: one takes it, or one that has it releases it.\<close>

definition rw_env :: "rwlock \<Rightarrow> rwlock \<Rightarrow> bool" where
  "rw_env l m \<longleftrightarrow> (\<exists>r. pthread_rwlock_rdlock r l = Some (Inr m)
     \<or> r \<in> readers l \<and> pthread_rwlock_unlock r l = Inr m)"

interpretation rw: exclusion pthread_rwlock_wrlock pthread_rwlock_unlock rw_env rw_excl
  by unfold_locales
    (auto simp: rw_excl_def rw_env_def pthread_rwlock_wrlock_def pthread_rwlock_rdlock_def
       pthread_rwlock_unlock_def elem_set split: if_splits)

text \<open>Without readers the writers never block for ever.\<close>

interpretation rwq: live_exclusion pthread_rwlock_wrlock pthread_rwlock_unlock
    "\<lambda>l H. rw_excl l H \<and> readers l = {}"
  by unfold_locales
    (auto simp: rw_excl_def no_env_def pthread_rwlock_wrlock_def pthread_rwlock_unlock_def elem_set
       split: if_splits option.splits)

end
