(* ===== verification/RW_Lock.thy ===== *)
theory RW_Lock
  imports Lock_Programs
begin

text \<open>
  \<open>thread/rw-lock/main.c\<close>: two writers increment the counter under the write lock while two
  readers poll it until it has reached its final value. The writers are the loop of
  \<open>Counter_Locks\<close> on the read-write lock of \<open>Lock_Programs\<close>; this theory adds the
  readers and shows that the whole program refines the counter system in which the lock is
  also used by others.
\<close>

section \<open>The program\<close>

definition rw_worker :: worker where
  "rw_worker = \<lparr>checks = False, lock_msg = [], unlock_msg = [],
     exit_log = [Printf ''writer thread finished\<newline>'' []]\<rparr>"

definition rw_maxTestNumber :: nat where
  "rw_maxTestNumber = 100000"

text \<open>A reader (\<open>_readFunc\<close>): before \<open>rdlock\<close>, before \<open>unlock\<close>, before the test.\<close>

datatype rpc = RLock | RUnlock | RTest | RDone

record rw_sys =
  wsys :: "rwlock csys"
  rpc :: "nat \<Rightarrow> rpc"

definition set_lock :: "rwlock \<Rightarrow> rw_sys \<Rightarrow> rw_sys" where
  "set_lock l s = s\<lparr>wsys := (wsys s)\<lparr>lck := l\<rparr>\<rparr>"

abbreviation rw_lock :: "rw_sys \<Rightarrow> rwlock" where
  "rw_lock s \<equiv> lck (wsys s)"

definition writer_step :: "rwlock csys \<Rightarrow> rwlock csys \<Rightarrow> bool" where
  "writer_step = counter_step rw_worker pthread_rwlock_wrlock pthread_rwlock_unlock no_env rw_maxTestNumber"

inductive rw_step :: "rw_sys \<Rightarrow> rw_sys \<Rightarrow> bool" where
  wr_move: "writer_step (wsys s) w \<Longrightarrow> rw_step s (s\<lparr>wsys := w\<rparr>)"
| rd_lock: "rpc s r = RLock \<Longrightarrow> pthread_rwlock_rdlock r (rw_lock s) = Some (Inr l) \<Longrightarrow>
    rw_step s (set_lock l s\<lparr>rpc := (rpc s)(r := RUnlock)\<rparr>)"
| rd_lock_error: "rpc s r = RLock \<Longrightarrow> pthread_rwlock_rdlock r (rw_lock s) = Some (Inl e) \<Longrightarrow>
    rw_step s (s\<lparr>rpc := (rpc s)(r := RUnlock)\<rparr>)"
| rd_unlock: "rpc s r = RUnlock \<Longrightarrow> pthread_rwlock_unlock r (rw_lock s) = Inr l \<Longrightarrow>
    rw_step s (set_lock l s\<lparr>rpc := (rpc s)(r := RTest)\<rparr>)"
| rd_again: "rpc s r = RTest \<Longrightarrow> counter (wsys s) \<noteq> int rw_maxTestNumber * 2 \<Longrightarrow>
    rw_step s (s\<lparr>rpc := (rpc s)(r := RLock)\<rparr>)"
| rd_finish: "rpc s r = RTest \<Longrightarrow> counter (wsys s) = int rw_maxTestNumber * 2 \<Longrightarrow>
    rw_step s (s\<lparr>rpc := (rpc s)(r := RDone)\<rparr>)"

text \<open>The writers are the threads 0 and 1 (\<open>thread1\<close>, \<open>thread3\<close>), the readers 2 and 3.\<close>

definition rw_start :: rw_sys where
  "rw_start = \<lparr>wsys = counter_start {0, 1} rwlock_free, rpc = (\<lambda>r. if r \<in> {2, 3} then RLock else RDone)\<rparr>"

definition rw_init :: "rw_sys \<Rightarrow> bool" where
  "rw_init s \<longleftrightarrow> s = rw_start"

definition rw_done :: "rw_sys \<Rightarrow> bool" where
  "rw_done s \<longleftrightarrow> all_done (wsys s) \<and> rpc s = (\<lambda>_. RDone)"

section \<open>Refinement of the counter system\<close>

definition shared_step :: "rwlock csys \<Rightarrow> rwlock csys \<Rightarrow> bool" where
  "shared_step = counter_step rw_worker pthread_rwlock_wrlock pthread_rwlock_unlock rw_env rw_maxTestNumber"

abbreviation wcinv :: "rwlock csys \<Rightarrow> bool" where
  "wcinv \<equiv> cinv rw_worker {0, 1} rw_maxTestNumber rw_excl"

text \<open>A reader at its unlock holds the lock; a finished reader has seen the final value.\<close>

definition rw_inv :: "rw_sys \<Rightarrow> bool" where
  "rw_inv s \<longleftrightarrow> wcinv (wsys s)
     \<and> readers (rw_lock s) = {r. rpc s r = RUnlock}
     \<and> (\<forall>r. r \<notin> {2, 3} \<longrightarrow> rpc s r = RDone)
     \<and> (\<forall>r. r \<in> {2, 3} \<and> rpc s r = RDone \<longrightarrow> counter (wsys s) = int rw_maxTestNumber * 2)"

lemma writer_shared: "writer_step u v \<Longrightarrow> shared_step u v"
  unfolding writer_step_def shared_step_def
  by (erule counter_step.cases) (auto intro: counter_step.intros simp: no_env_def)

lemma wcinv_step: "shared_step u v \<Longrightarrow> wcinv u \<Longrightarrow> wcinv v"
  unfolding shared_step_def by (rule rw.cinv_step)

lemma wcinv_bound: "wcinv u \<Longrightarrow> counter u \<le> int rw_maxTestNumber * 2"
proof -
  assume inv: "wcinv u"
  have "done_by rw_maxTestNumber (cpc u i) \<le> rw_maxTestNumber" for i
    using spec [OF rw.cinv_facts(3) [OF inv], of i] by (cases "cpc u i") simp_all
  from this [of 0] this [of 1] show ?thesis using rw.cinv_facts(4) [OF inv] by (simp add: total_def)
qed

text \<open>A step of a writer keeps the counter or adds one, and leaves the readers of the lock.\<close>

lemma writer_effect:
  assumes "writer_step u v" and "wcinv u"
  shows "counter v \<in> {counter u, counter u + 1} \<and> readers (lck v) = readers (lck u)"
  using assms(1) unfolding writer_step_def
proof cases
  case (store i n x)
  then show ?thesis using spec [OF rw.cinv_facts(3) [OF assms(2)], of i] by simp
next
  case (give i n l)
  then have "writer (lck u) = Some i"
    using rw.cinv_facts(2) [OF assms(2)] rw.cinv_facts(7) [OF assms(2), of i]
    by (cases "writer (lck u)") (auto simp: rw_excl_def)
  with give show ?thesis by (auto simp: pthread_rwlock_unlock_def)
qed (auto simp: pthread_rwlock_wrlock_def no_env_def split: if_splits)

lemma rw_not_writer: "rw_inv s \<Longrightarrow> rpc s r \<noteq> RDone \<Longrightarrow> writer (rw_lock s) \<noteq> Some r"
proof
  assume inv: "rw_inv s" and "rpc s r \<noteq> RDone" and w: "writer (rw_lock s) = Some r"
  then have "r \<in> {2, 3}" by (auto simp: rw_inv_def)
  have c: "wcinv (wsys s)" using inv by (simp add: rw_inv_def)
  from rw.cinv_facts(2) [OF c] w have "in_cs (cpc (wsys s) r)"
    by (auto simp: rw_excl_def insiders_def)
  then have "cpc (wsys s) r \<noteq> CDone" by auto
  with rw.cinv_facts(6) [OF c, of r] \<open>r \<in> {2, 3}\<close> show False by auto
qed

lemma rw_refines:
  assumes "rw_step s t" and "rw_inv s"
  shows "shared_step (wsys s) (wsys t) \<or> wsys s = wsys t"
  using assms(1)
proof cases
  case (wr_move w)
  then show ?thesis using writer_shared by simp
next
  case (rd_lock r l)
  then have "rw_env (rw_lock s) l" by (auto simp: rw_env_def)
  then show ?thesis unfolding rd_lock shared_step_def set_lock_def by (auto intro: counter_step.other)
next
  case (rd_unlock r l)
  then have "rw_env (rw_lock s) l" using assms(2) by (auto simp: rw_env_def rw_inv_def)
  then show ?thesis unfolding rd_unlock shared_step_def set_lock_def by (auto intro: counter_step.other)
qed auto

lemma rw_inv_step:
  assumes step: "rw_step s t" and inv: "rw_inv s"
  shows "rw_inv t"
proof -
  have c: "wcinv (wsys s)" using inv by (simp add: rw_inv_def)
  have d: "wcinv (wsys t)" using rw_refines [OF step inv] wcinv_step c by auto
  from step show ?thesis
  proof cases
    case (wr_move w)
    then have "counter w \<in> {counter (wsys s), counter (wsys s) + 1}" "readers (lck w) = readers (rw_lock s)"
      using writer_effect c by blast+
    moreover have "counter w \<le> int rw_maxTestNumber * 2" using wcinv_bound [OF d] wr_move by simp
    ultimately show ?thesis using inv d wr_move by (auto simp: rw_inv_def)
  next
    case (rd_lock r l)
    then have "readers l = insert r (readers (rw_lock s))" by (auto simp: pthread_rwlock_rdlock_def split: if_splits)
    with rd_lock inv d show ?thesis by (auto simp: rw_inv_def set_lock_def)
  next
    case (rd_lock_error r e)
    with rw_not_writer [OF inv, of r] show ?thesis by (auto simp: pthread_rwlock_rdlock_def split: if_splits)
  next
    case (rd_unlock r l)
    then have "readers l = readers (rw_lock s) - {r}"
      using rw_not_writer [OF inv, of r] by (auto simp: pthread_rwlock_unlock_def)
    with rd_unlock inv d show ?thesis by (auto simp: rw_inv_def set_lock_def)
  next
    case (rd_again r)
    with inv d show ?thesis by (auto simp: rw_inv_def)
  next
    case (rd_finish r)
    with inv d show ?thesis by (auto simp: rw_inv_def)
  qed
qed

lemma rw_excl_free: "rw_excl rwlock_free {}"
  by (simp add: rw_excl_def rwlock_free_def)

lemma rw_inv_start: "rw_inv rw_start"
  using cinv_start [of "{0, 1}" rw_excl rwlock_free, OF _ rw_excl_free]
  by (auto simp: rw_inv_def rw_start_def counter_start_def rwlock_free_def)

interpretation rwp: inductive_invariant rw_init rw_step rw_inv
  by unfold_locales (auto simp: rw_init_def rw_inv_start intro: rw_inv_step)

section \<open>Completion\<close>

text \<open>A run of the writers is a run of the program.\<close>

lemma lift_writers: "writer_step\<^sup>*\<^sup>* (wsys s) w \<Longrightarrow> rw_step\<^sup>*\<^sup>* s (s\<lparr>wsys := w\<rparr>)"
proof (induction rule: rtranclp_induct)
  case (step u v)
  from step.hyps(2) have "rw_step (s\<lparr>wsys := u\<rparr>) (s\<lparr>wsys := v\<rparr>)"
    using wr_move [of "s\<lparr>wsys := u\<rparr>" v] by simp
  with step.IH show ?case by (rule rtranclp.rtrancl_into_rtrancl)
qed simp

text \<open>Every reader can be brought out of the lock.\<close>

lemma reader_leaves:
  assumes "rw_inv s"
  shows "\<exists>t. rw_step\<^sup>*\<^sup>* s t \<and> rpc t r \<noteq> RUnlock \<and> (\<forall>q. q \<noteq> r \<longrightarrow> rpc t q = rpc s q)"
proof (cases "rpc s r = RUnlock")
  case True
  obtain l where "pthread_rwlock_unlock r (rw_lock s) = Inr l" by (simp add: pthread_rwlock_unlock_def)
  from rd_unlock [OF True this] have "rw_step s (set_lock l s\<lparr>rpc := (rpc s)(r := RTest)\<rparr>)" .
  then show ?thesis by (intro exI [of _ "set_lock l s\<lparr>rpc := (rpc s)(r := RTest)\<rparr>"]) auto
qed auto

lemma readers_leave:
  assumes "rw_inv s"
  shows "\<exists>t. rw_step\<^sup>*\<^sup>* s t \<and> readers (rw_lock t) = {}"
proof -
  obtain t where t: "rw_step\<^sup>*\<^sup>* s t" "rpc t 2 \<noteq> RUnlock" using reader_leaves [OF assms, of 2] by blast
  then have "rw_inv t" using rwp.inv_run assms by blast
  from reader_leaves [OF this, of 3] t(2)
  obtain u where u: "rw_step\<^sup>*\<^sup>* t u" "rpc u 3 \<noteq> RUnlock" "rpc u 2 \<noteq> RUnlock"
    by (metis numeral_eq_iff semiring_norm(88))
  have inv: "rw_inv u" using rwp.inv_run [OF u(1) \<open>rw_inv t\<close>] .
  have "rpc u r \<noteq> RUnlock" for r
    using u inv by (cases "r \<in> {2, 3}") (auto simp: rw_inv_def)
  with inv have "readers (rw_lock u) = {}" by (simp add: rw_inv_def)
  with t(1) u(1) show ?thesis by (meson rtranclp_trans)
qed

lemma writers_finish:
  assumes "rw_inv s" and "readers (rw_lock s) = {}"
  shows "\<exists>t. rw_step\<^sup>*\<^sup>* s t \<and> all_done (wsys t)"
proof -
  have "cinv rw_worker {0, 1} rw_maxTestNumber (\<lambda>l H. rw_excl l H \<and> readers l = {}) (wsys s)"
    using assms by (auto simp: rw_inv_def cinv_def)
  from rwq.finishes [OF this]
  obtain w where "writer_step\<^sup>*\<^sup>* (wsys s) w" "all_done w" by (auto simp: writer_step_def)
  with lift_writers [of s w] show ?thesis by (intro exI [of _ "s\<lparr>wsys := w\<rparr>"]) simp
qed

lemma done_state:
  assumes "rw_inv s" and "all_done (wsys s)"
  shows "counter (wsys s) = int rw_maxTestNumber * 2 \<and> writer (rw_lock s) = None"
proof -
  have c: "wcinv (wsys s)" using assms(1) by (simp add: rw_inv_def)
  have "counter (wsys s) = int rw_maxTestNumber * 2"
    using rw.cinv_facts(4) [OF c] assms(2) by (simp add: all_done_def total_def)
  moreover have "writer (rw_lock s) = None"
    using rw.cinv_facts(2) [OF c] assms(2)
    by (cases "writer (rw_lock s)") (auto simp: all_done_def rw_excl_def insiders_def)
  ultimately show ?thesis by simp
qed

text \<open>
  Once the writers are done a reader finishes: it gets the lock, releases it, and sees the
  final value.
\<close>

lemma reader_finishes:
  assumes inv: "rw_inv s" and w: "all_done (wsys s)"
  shows "\<exists>t. rw_step\<^sup>*\<^sup>* s t \<and> all_done (wsys t) \<and> rpc t = (rpc s)(r := RDone)"
proof (cases "rpc s r")
  case RDone
  then show ?thesis using w by (intro exI [of _ s]) auto
next
  case RTest
  from rd_finish [OF RTest] done_state [OF inv w] w show ?thesis
    by (intro exI [of _ "s\<lparr>rpc := (rpc s)(r := RDone)\<rparr>"]) auto
next
  case RUnlock
  obtain l where "pthread_rwlock_unlock r (rw_lock s) = Inr l" by (simp add: pthread_rwlock_unlock_def)
  from rd_unlock [OF RUnlock this] have a: "rw_step s (set_lock l s\<lparr>rpc := (rpc s)(r := RTest)\<rparr>)"
    (is "rw_step s ?t") .
  have "rw_step ?t (?t\<lparr>rpc := (rpc ?t)(r := RDone)\<rparr>)"
    by (rule rd_finish) (use done_state [OF inv w] in \<open>simp_all add: set_lock_def\<close>)
  with a w show ?thesis
    by (intro exI [of _ "?t\<lparr>rpc := (rpc ?t)(r := RDone)\<rparr>"])
      (auto simp: set_lock_def all_done_def intro: converse_rtranclp_into_rtranclp)
next
  case RLock
  then obtain l where l: "pthread_rwlock_rdlock r (rw_lock s) = Some (Inr l)"
    using done_state [OF inv w] by (simp add: pthread_rwlock_rdlock_def)
  obtain m where m: "pthread_rwlock_unlock r l = Inr m" by (simp add: pthread_rwlock_unlock_def)
  let ?t = "set_lock l s\<lparr>rpc := (rpc s)(r := RUnlock)\<rparr>"
  let ?u = "set_lock m ?t\<lparr>rpc := (rpc ?t)(r := RTest)\<rparr>"
  let ?v = "?u\<lparr>rpc := (rpc ?u)(r := RDone)\<rparr>"
  have "rw_step s ?t" by (rule rd_lock [OF RLock l])
  moreover have "rw_step ?t ?u" by (rule rd_unlock) (use m in \<open>simp_all add: set_lock_def\<close>)
  moreover have "rw_step ?u ?v"
    by (rule rd_finish) (use done_state [OF inv w] in \<open>simp_all add: set_lock_def\<close>)
  ultimately have "rw_step\<^sup>*\<^sup>* s ?v" by (meson converse_rtranclp_into_rtranclp rtranclp.rtrancl_refl)
  with w show ?thesis by (intro exI [of _ ?v]) (auto simp: set_lock_def all_done_def)
qed

lemma rw_completes:
  assumes "rw_inv s"
  shows "\<exists>t. rw_step\<^sup>*\<^sup>* s t \<and> rw_done t"
proof -
  obtain a where a: "rw_step\<^sup>*\<^sup>* s a" "readers (rw_lock a) = {}" using readers_leave [OF assms] by blast
  have ia: "rw_inv a" using rwp.inv_run [OF a(1) assms] .
  obtain b where b: "rw_step\<^sup>*\<^sup>* a b" "all_done (wsys b)" using writers_finish [OF ia a(2)] by blast
  have ib: "rw_inv b" using rwp.inv_run [OF b(1) ia] .
  obtain c where c: "rw_step\<^sup>*\<^sup>* b c" "all_done (wsys c)" "rpc c = (rpc b)(2 := RDone)"
    using reader_finishes [OF ib b(2), of 2] by blast
  have ic: "rw_inv c" using rwp.inv_run [OF c(1) ib] .
  obtain d where d: "rw_step\<^sup>*\<^sup>* c d" "all_done (wsys d)" "rpc d = (rpc c)(3 := RDone)"
    using reader_finishes [OF ic c(2), of 3] by blast
  have "rpc d = (\<lambda>_. RDone)" using d(3) c(3) ib by (auto simp: rw_inv_def)
  with d(2) have "rw_done d" by (simp add: rw_done_def)
  with a(1) b(1) c(1) d(1) show ?thesis by (meson rtranclp_trans)
qed

text \<open>
  C5. In every reachable state of \<open>thread/rw-lock\<close> the counter is at most 200000 and a writer
  inside its critical section excludes the other writer and all readers; a reader has finished
  only if the counter is 200000; all four threads can always be brought to their end, and then
  \<open>main\<close> prints 200000.
\<close>

theorem rw_program_correct:
  assumes "reach rw_init rw_step s"
  shows "counter (wsys s) \<le> 200000
    \<and> (in_cs (cpc (wsys s) i) \<longrightarrow> readers (rw_lock s) = {} \<and> (in_cs (cpc (wsys s) j) \<longrightarrow> i = j))
    \<and> (r \<in> {2, 3} \<and> rpc s r = RDone \<longrightarrow> counter (wsys s) = 200000)
    \<and> (\<exists>t. rw_step\<^sup>*\<^sup>* s t \<and> rw_done t)
    \<and> (rw_done s \<longrightarrow> main_report (wsys s) = Printf ''counter is %ld\<newline>'' [FInt 200000])"
proof -
  have inv: "rw_inv s" using assms by (rule rwp.inv_reach)
  then have c: "wcinv (wsys s)" by (simp add: rw_inv_def)
  have "readers (rw_lock s) = {}" if "in_cs (cpc (wsys s) i)"
    using rw.cinv_facts(2) [OF c] rw.cinv_facts(7) [OF c that] by (auto simp: rw_excl_def)
  moreover have "i = j" if "in_cs (cpc (wsys s) i)" "in_cs (cpc (wsys s) j)"
    using rw.cinv_facts(7) [OF c that(1)] that(2) insiders_iff [of j "cpc (wsys s)"] by simp
  moreover have "rw_done s \<Longrightarrow> counter (wsys s) = int rw_maxTestNumber * 2"
    using done_state [OF inv] by (simp add: rw_done_def)
  ultimately show ?thesis
    using wcinv_bound [OF c] rw_completes [OF inv] inv
    by (auto simp: rw_maxTestNumber_def main_report_def rw_inv_def)
qed

theorem rw_program_correct_witness:
  "\<exists>s. reach rw_init rw_step s \<and> rw_done s \<and> main_report (wsys s) = Printf ''counter is %ld\<newline>'' [FInt 200000]"
proof -
  have r: "reach rw_init rw_step rw_start" by (rule reach_init) (simp add: rw_init_def)
  from rw_program_correct [OF this, of 0 0 0] obtain s where "rw_step\<^sup>*\<^sup>* rw_start s" "rw_done s" by blast
  with r have "reach rw_init rw_step s" by (meson reach_run)
  with rw_program_correct [OF this, of 0 0 0] \<open>rw_done s\<close> show ?thesis by blast
qed

end
