(* ===== verification/Prod_Cons.thy ===== *)
theory Prod_Cons
  imports C_Prelude
begin

text \<open>
  The producer and the consumer of \<open>thread/cond/main.c\<close>, which share a counter, a mutex, a
  condition variable and the flag \<open>producerExit\<close>. A step is one statement of one thread;
  the mutex and the condition variable behave as in \<open>Sem_CondVar\<close>, and with the flag
  \<open>sp\<close> a sleeping consumer may wake spuriously. \<open>N\<close> is \<open>maxTestNumber\<close>, \<open>sigret i\<close> the
  return value of the \<open>pthread_cond_signal\<close> of round \<open>i\<close>; one that fails wakes nobody.
\<close>

section \<open>State and steps\<close>

text \<open>Places of \<open>_customerFunc\<close> and of \<open>_productFunc\<close> (with its loop variable).\<close>

datatype kpc = KLock | KTest | KFlag | KWait | KSleep | KRelock | KDrain | KUnlock
  | KEnd | KEndCount | KNap | KDone

datatype ppc = PLock nat | PAdd nat | PUnlock nat | PSignal nat | PCheck nat | PNap nat
  | PExit | PSet | PDone

record pc_sys =
  counter :: int
  producerExit :: bool
  mutex :: "nat option"
  kpc :: kpc
  ppc :: ppc
  produced :: nat
  consumed :: nat
  plog :: "outev list"

definition THREAD1 :: nat where "THREAD1 = 1"
definition THREAD2 :: nat where "THREAD2 = 2"

definition say :: "string \<Rightarrow> farg list \<Rightarrow> pc_sys \<Rightarrow> pc_sys" where
  "say fmt args s = s\<lparr>plog := plog s @ [Printf fmt args]\<rparr>"

text \<open>The statements of the consumer.\<close>

inductive cons_step :: "bool \<Rightarrow> pc_sys \<Rightarrow> pc_sys \<Rightarrow> bool" for sp :: bool where
  k_lock: "kpc s = KLock \<Longrightarrow> mutex s = None \<Longrightarrow>
    cons_step sp s (s\<lparr>mutex := Some THREAD2, kpc := KTest\<rparr>)"
| k_empty: "kpc s = KTest \<Longrightarrow> counter s = 0 \<Longrightarrow> cons_step sp s (s\<lparr>kpc := KFlag\<rparr>)"
| k_some: "kpc s = KTest \<Longrightarrow> counter s \<noteq> 0 \<Longrightarrow> cons_step sp s (s\<lparr>kpc := KDrain\<rparr>)"
| k_go_wait: "kpc s = KFlag \<Longrightarrow> \<not> producerExit s \<Longrightarrow>
    cons_step sp s (say (TAB # '' before wait\<newline>'') [] (s\<lparr>kpc := KWait\<rparr>))"
| k_break: "kpc s = KFlag \<Longrightarrow> producerExit s \<Longrightarrow> cons_step sp s (s\<lparr>kpc := KDrain\<rparr>)"
| k_wait: "kpc s = KWait \<Longrightarrow> cons_step sp s (s\<lparr>mutex := None, kpc := KSleep\<rparr>)"
| k_spurious: "sp \<Longrightarrow> kpc s = KSleep \<Longrightarrow> cons_step sp s (s\<lparr>kpc := KRelock\<rparr>)"
| k_relock: "kpc s = KRelock \<Longrightarrow> mutex s = None \<Longrightarrow>
    cons_step sp s (say (TAB # '' after  wait\<newline>'') [] (s\<lparr>mutex := Some THREAD2, kpc := KTest\<rparr>))"
| k_take: "kpc s = KDrain \<Longrightarrow> counter s > 0 \<Longrightarrow>
    cons_step sp s (say (TAB # '' exhaust %ld\<newline>'') [FInt (counter s)]
      (s\<lparr>counter := counter s - 1, consumed := Suc (consumed s)\<rparr>))"
| k_drained: "kpc s = KDrain \<Longrightarrow> \<not> counter s > 0 \<Longrightarrow> cons_step sp s (s\<lparr>kpc := KUnlock\<rparr>)"
| k_unlock: "kpc s = KUnlock \<Longrightarrow> cons_step sp s (s\<lparr>mutex := None, kpc := KEnd\<rparr>)"
| k_end_flag: "kpc s = KEnd \<Longrightarrow> producerExit s \<Longrightarrow> cons_step sp s (s\<lparr>kpc := KEndCount\<rparr>)"
| k_end_no_flag: "kpc s = KEnd \<Longrightarrow> \<not> producerExit s \<Longrightarrow> cons_step sp s (s\<lparr>kpc := KNap\<rparr>)"
| k_end_zero: "kpc s = KEndCount \<Longrightarrow> counter s = 0 \<Longrightarrow>
    cons_step sp s (say ''consumer thread finished\<newline>'' [] (s\<lparr>kpc := KDone\<rparr>))"
| k_end_more: "kpc s = KEndCount \<Longrightarrow> counter s \<noteq> 0 \<Longrightarrow> cons_step sp s (s\<lparr>kpc := KNap\<rparr>)"
| k_nap: "kpc s = KNap \<Longrightarrow> cons_step sp s (s\<lparr>kpc := KLock\<rparr>)"

text \<open>The statements of the producer.\<close>

inductive prod_step :: "nat \<Rightarrow> (nat \<Rightarrow> int) \<Rightarrow> pc_sys \<Rightarrow> pc_sys \<Rightarrow> bool" for N :: nat and sigret :: "nat \<Rightarrow> int" where
  p_lock: "ppc s = PLock i \<Longrightarrow> i < N \<Longrightarrow> mutex s = None \<Longrightarrow>
    prod_step N sigret s (s\<lparr>mutex := Some THREAD1, ppc := PAdd i\<rparr>)"
| p_add: "ppc s = PAdd i \<Longrightarrow>
    prod_step N sigret s (say ''production %ld\<newline>'' [FInt (counter s + 1)]
      (s\<lparr>counter := counter s + 1, produced := Suc (produced s), ppc := PUnlock i\<rparr>))"
| p_unlock: "ppc s = PUnlock i \<Longrightarrow> prod_step N sigret s (s\<lparr>mutex := None, ppc := PSignal i\<rparr>)"
| p_signal: "ppc s = PSignal i \<Longrightarrow>
    prod_step N sigret s (s\<lparr>ppc := PCheck i, kpc := (if sigret i = 0 \<and> kpc s = KSleep then KRelock else kpc s)\<rparr>)"
| p_signal_error: "ppc s = PCheck i \<Longrightarrow> sigret i \<noteq> 0 \<Longrightarrow>
    prod_step N sigret s (say ''cond_signal failed, ret is %d\<newline>'' [FInt (sigret i)] (s\<lparr>ppc := PDone\<rparr>))"
| p_signal_ok: "ppc s = PCheck i \<Longrightarrow> sigret i = 0 \<Longrightarrow> prod_step N sigret s (s\<lparr>ppc := PNap i\<rparr>)"
| p_nap: "ppc s = PNap i \<Longrightarrow> prod_step N sigret s (s\<lparr>ppc := PLock (Suc i)\<rparr>)"
| p_loop_end: "ppc s = PLock i \<Longrightarrow> \<not> i < N \<Longrightarrow> prod_step N sigret s (s\<lparr>ppc := PExit\<rparr>)"
| p_exit: "ppc s = PExit \<Longrightarrow>
    prod_step N sigret s (say ''producer thread finished\<newline>'' [] (s\<lparr>ppc := PSet\<rparr>))"
| p_set: "ppc s = PSet \<Longrightarrow> prod_step N sigret s (s\<lparr>producerExit := True, ppc := PDone\<rparr>)"

definition pc_step :: "bool \<Rightarrow> nat \<Rightarrow> (nat \<Rightarrow> int) \<Rightarrow> pc_sys \<Rightarrow> pc_sys \<Rightarrow> bool" where
  "pc_step sp N sigret s t \<longleftrightarrow> cons_step sp s t \<or> prod_step N sigret s t"

definition pc_start :: pc_sys where
  "pc_start = \<lparr>counter = 0, producerExit = False, mutex = None, kpc = KLock, ppc = PLock 0,
     produced = 0, consumed = 0, plog = []\<rparr>"

definition pc_init :: "pc_sys \<Rightarrow> bool" where
  "pc_init s \<longleftrightarrow> s = pc_start"

text \<open>After both joins \<open>main\<close> prints the counter.\<close>

definition pc_report :: "pc_sys \<Rightarrow> outev" where
  "pc_report s = Printf ''counter is %ld\<newline>'' [FInt (counter s)]"

section \<open>Invariant\<close>

fun cons_cs :: "kpc \<Rightarrow> bool" where
  "cons_cs KTest = True"
| "cons_cs KFlag = True"
| "cons_cs KWait = True"
| "cons_cs KDrain = True"
| "cons_cs KUnlock = True"
| "cons_cs _ = False"

fun prod_cs :: "ppc \<Rightarrow> bool" where
  "prod_cs (PAdd i) = True"
| "prod_cs (PUnlock i) = True"
| "prod_cs _ = False"

text \<open>How many items the producer has made at each place.\<close>

fun made :: "nat \<Rightarrow> bool \<Rightarrow> nat \<Rightarrow> ppc \<Rightarrow> bool" where
  "made N e n (PLock i) = (n = i \<and> i \<le> N \<and> \<not> e)"
| "made N e n (PAdd i) = (n = i \<and> i < N \<and> \<not> e)"
| "made N e n (PUnlock i) = (n = Suc i \<and> i < N \<and> \<not> e)"
| "made N e n (PSignal i) = (n = Suc i \<and> i < N \<and> \<not> e)"
| "made N e n (PCheck i) = (n = Suc i \<and> i < N \<and> \<not> e)"
| "made N e n (PNap i) = (n = Suc i \<and> i < N \<and> \<not> e)"
| "made N e n PExit = (n = N \<and> \<not> e)"
| "made N e n PSet = (n = N \<and> \<not> e)"
| "made N e n PDone = (n \<le> N \<and> (e \<longrightarrow> n = N))"

text \<open>What the consumer knows at each place of the counter and the flag.\<close>

fun knows :: "int \<Rightarrow> bool \<Rightarrow> kpc \<Rightarrow> bool" where
  "knows c e KFlag = (c = 0)"
| "knows c e KWait = (c = 0)"
| "knows c e KUnlock = (c = 0)"
| "knows c e KEndCount = e"
| "knows c e KDone = (e \<and> c = 0)"
| "knows c e _ = True"

text \<open>
  Why the consumer may sleep beside a non-empty buffer: its signal is still to come, or it has
  failed, and then the producer returns without setting its flag. \<open>e\<close> is the flag, \<open>n\<close> the number of
  items made.
\<close>

fun signal_due :: "(nat \<Rightarrow> int) \<Rightarrow> bool \<Rightarrow> nat \<Rightarrow> ppc \<Rightarrow> bool" where
  "signal_due r e n (PUnlock i) = True"
| "signal_due r e n (PSignal i) = True"
| "signal_due r e n (PCheck i) = (r i \<noteq> 0)"
| "signal_due r e n PDone = (\<not> e \<and> r (n - 1) \<noteq> 0)"
| "signal_due r e n _ = False"

definition pc_inv :: "nat \<Rightarrow> (nat \<Rightarrow> int) \<Rightarrow> pc_sys \<Rightarrow> bool" where
  "pc_inv N r s \<longleftrightarrow> mutex s \<in> {None, Some THREAD1, Some THREAD2}
     \<and> (mutex s = Some THREAD2 \<longleftrightarrow> cons_cs (kpc s)) \<and> (mutex s = Some THREAD1 \<longleftrightarrow> prod_cs (ppc s))
     \<and> int (produced s) = int (consumed s) + counter s \<and> 0 \<le> counter s
     \<and> made N (producerExit s) (produced s) (ppc s)
     \<and> knows (counter s) (producerExit s) (kpc s)
     \<and> (kpc s = KSleep \<and> counter s \<noteq> 0 \<longrightarrow> signal_due r (producerExit s) (produced s) (ppc s))"

lemma pc_ids [simp]: "THREAD2 \<noteq> THREAD1" "THREAD1 \<noteq> THREAD2"
  by (simp_all add: THREAD2_def THREAD1_def)

lemma pc_inv_cons: "cons_step sp s t \<Longrightarrow> pc_inv N sigret s \<Longrightarrow> pc_inv N sigret t"
  by (induction rule: cons_step.induct) (auto simp: pc_inv_def say_def)

lemma knows_outside: "\<not> cons_cs k \<Longrightarrow> \<not> e \<Longrightarrow> knows c e k \<Longrightarrow> knows d e k"
  by (cases k) auto

lemma pc_inv_prod: "prod_step N sigret s t \<Longrightarrow> pc_inv N sigret s \<Longrightarrow> pc_inv N sigret t"
proof (induction rule: prod_step.induct)
  case (p_add s i)
  then have "knows (counter s + 1) False (kpc s)" using knows_outside [of "kpc s" False "counter s"]
    by (auto simp: pc_inv_def)
  with p_add show ?case by (auto simp: pc_inv_def say_def)
next
  case (p_set s)
  then show ?case by (cases "kpc s") (auto simp: pc_inv_def)
qed (auto simp: pc_inv_def say_def)

lemma pc_inv_start: "pc_inv N sigret pc_start"
  by (simp add: pc_inv_def pc_start_def)

interpretation pc: inductive_invariant pc_init "pc_step sp N sigret" "pc_inv N sigret" for sp N sigret
  by unfold_locales
    (auto simp: pc_init_def pc_inv_start pc_step_def intro: pc_inv_cons pc_inv_prod)

lemma made_le: "made N e n p \<Longrightarrow> n \<le> N \<and> (e \<longrightarrow> n = N)"
  by (cases p) auto

text \<open>
  C6. Nothing is lost or duplicated between producer and consumer: in every reachable state,
  with spurious wake-ups or failing signals too, the items produced are the items consumed plus
  the counter, the counter is between 0 and \<open>maxTestNumber\<close>, and the two threads are never
  both between lock and unlock. The consumer finishes only when all items were produced and
  consumed.
\<close>

theorem pc_conserves:
  assumes "reach pc_init (pc_step sp N sigret) s"
  shows "int (produced s) = int (consumed s) + counter s \<and> 0 \<le> counter s \<and> counter s \<le> int N
    \<and> \<not> (cons_cs (kpc s) \<and> prod_cs (ppc s))
    \<and> (kpc s = KDone \<longrightarrow> ppc s = PDone \<and> consumed s = N \<and> pc_report s = Printf ''counter is %ld\<newline>'' [FInt 0])"
proof -
  have inv: "pc_inv N sigret s" by (rule pc.inv_reach [OF assms])
  then have "produced s \<le> N \<and> (producerExit s \<longrightarrow> produced s = N)" using made_le [of N "producerExit s" "produced s" "ppc s"]
    by (simp add: pc_inv_def)
  moreover have "ppc s = PDone" if "producerExit s" using inv that by (cases "ppc s") (auto simp: pc_inv_def)
  moreover have "kpc s = KDone \<Longrightarrow> producerExit s \<and> counter s = 0" using inv by (simp add: pc_inv_def)
  ultimately show ?thesis using inv by (auto simp: pc_inv_def pc_report_def)
qed

section \<open>Progress\<close>

text \<open>A consumer that is not asleep, finished or blocked by the mutex has a next statement.\<close>

lemma cons_moves:
  assumes "kpc s \<noteq> KDone" and "kpc s \<noteq> KSleep" and "cons_cs (kpc s) \<or> mutex s = None"
  shows "\<exists>t. cons_step sp s t"
proof (cases "kpc s")
  case KTest
  then show ?thesis by (cases "counter s = 0") (blast intro: cons_step.intros)+
next
  case KFlag
  then show ?thesis by (cases "producerExit s") (blast intro: cons_step.intros)+
next
  case KDrain
  then show ?thesis by (cases "counter s > 0") (blast intro: cons_step.intros)+
next
  case KEnd
  then show ?thesis by (cases "producerExit s") (blast intro: cons_step.intros)+
next
  case KEndCount
  then show ?thesis by (cases "counter s = 0") (blast intro: cons_step.intros)+
qed (use assms in \<open>auto intro: cons_step.intros\<close>)

lemma prod_moves:
  assumes "ppc s \<noteq> PDone" and "prod_cs (ppc s) \<or> mutex s = None"
  shows "\<exists>t. prod_step N sigret s t"
proof (cases "ppc s")
  case (PLock i)
  with assms show ?thesis by (cases "i < N") (auto intro: prod_step.intros)
next
  case (PCheck i)
  then show ?thesis by (cases "sigret i = 0") (blast intro: prod_step.intros)+
qed (use assms in \<open>auto intro: prod_step.intros\<close>)

lemma pc_stuck:
  assumes inv: "pc_inv N sigret s" and stuck: "\<forall>t. \<not> pc_step sp N sigret s t"
  shows "ppc s = PDone \<and> (kpc s = KDone \<or> kpc s = KSleep)
    \<and> (counter s \<noteq> 0 \<longrightarrow> kpc s = KSleep \<and> \<not> producerExit s \<and> sigret (produced s - 1) \<noteq> 0)"
proof -
  have nc: "\<not> cons_step sp s t" and np: "\<not> prod_step N sigret s t" for t
    using stuck by (auto simp: pc_step_def)
  have "\<not> cons_cs (kpc s)"
  proof
    assume "cons_cs (kpc s)"
    moreover from this have "kpc s \<noteq> KDone" "kpc s \<noteq> KSleep" by auto
    ultimately show False using cons_moves [of s sp] nc by blast
  qed
  moreover have "\<not> prod_cs (ppc s)"
  proof
    assume "prod_cs (ppc s)"
    moreover from this have "ppc s \<noteq> PDone" by auto
    ultimately show False using prod_moves [of s N sigret] np by blast
  qed
  ultimately have "mutex s = None" using inv by (auto simp: pc_inv_def)
  then have "ppc s = PDone" and k: "kpc s = KDone \<or> kpc s = KSleep"
    using prod_moves [of s N sigret] np cons_moves [of s sp] nc by blast+
  moreover have "counter s \<noteq> 0 \<longrightarrow> kpc s = KSleep \<and> \<not> producerExit s \<and> sigret (produced s - 1) \<noteq> 0"
    using inv k \<open>ppc s = PDone\<close> by (auto simp: pc_inv_def)
  ultimately show ?thesis by simp
qed

text \<open>
  C23. Whenever the two threads cannot go on, the producer has returned and the consumer has
  returned or sleeps in \<open>pthread_cond_wait\<close>: the mutex is never the reason for a deadlock. All items
  made are then consumed, unless the \<open>pthread_cond_signal\<close> for the last item made failed, so that the
  producer returned without setting its flag and the consumer was not woken.
\<close>

theorem pc_stuck_states:
  assumes "reach pc_init (pc_step sp N sigret) s" and "\<forall>t. \<not> pc_step sp N sigret s t"
  shows "ppc s = PDone \<and> (kpc s = KDone \<or> kpc s = KSleep)
    \<and> (counter s = 0 \<and> consumed s = produced s
       \<or> kpc s = KSleep \<and> \<not> producerExit s \<and> sigret (produced s - 1) \<noteq> 0)"
  using pc_stuck [OF pc.inv_reach [OF assms(1)] assms(2)] pc.inv_reach [OF assms(1)]
  by (auto simp: pc_inv_def)

section \<open>A run that ends with the consumer asleep\<close>

text \<open>The steps as functions: the next statement of a thread, \<open>None\<close> when it cannot run.\<close>

fun cons_next :: "kpc \<Rightarrow> pc_sys \<Rightarrow> pc_sys option" where
  "cons_next KLock s = (if mutex s = None then Some (s\<lparr>mutex := Some THREAD2, kpc := KTest\<rparr>) else None)"
| "cons_next KTest s = Some (s\<lparr>kpc := (if counter s = 0 then KFlag else KDrain)\<rparr>)"
| "cons_next KFlag s = Some (if producerExit s then s\<lparr>kpc := KDrain\<rparr>
     else say (TAB # '' before wait\<newline>'') [] (s\<lparr>kpc := KWait\<rparr>))"
| "cons_next KWait s = Some (s\<lparr>mutex := None, kpc := KSleep\<rparr>)"
| "cons_next KSleep s = None"
| "cons_next KRelock s = (if mutex s = None
     then Some (say (TAB # '' after  wait\<newline>'') [] (s\<lparr>mutex := Some THREAD2, kpc := KTest\<rparr>)) else None)"
| "cons_next KDrain s = Some (if counter s > 0
     then say (TAB # '' exhaust %ld\<newline>'') [FInt (counter s)]
            (s\<lparr>counter := counter s - 1, consumed := Suc (consumed s)\<rparr>)
     else s\<lparr>kpc := KUnlock\<rparr>)"
| "cons_next KUnlock s = Some (s\<lparr>mutex := None, kpc := KEnd\<rparr>)"
| "cons_next KEnd s = Some (s\<lparr>kpc := (if producerExit s then KEndCount else KNap)\<rparr>)"
| "cons_next KEndCount s = Some (if counter s = 0
     then say ''consumer thread finished\<newline>'' [] (s\<lparr>kpc := KDone\<rparr>) else s\<lparr>kpc := KNap\<rparr>)"
| "cons_next KNap s = Some (s\<lparr>kpc := KLock\<rparr>)"
| "cons_next KDone s = None"

fun prod_next :: "nat \<Rightarrow> (nat \<Rightarrow> int) \<Rightarrow> ppc \<Rightarrow> pc_sys \<Rightarrow> pc_sys option" where
  "prod_next N r (PLock i) s = (if \<not> i < N then Some (s\<lparr>ppc := PExit\<rparr>)
     else if mutex s = None then Some (s\<lparr>mutex := Some THREAD1, ppc := PAdd i\<rparr>) else None)"
| "prod_next N r (PAdd i) s = Some (say ''production %ld\<newline>'' [FInt (counter s + 1)]
     (s\<lparr>counter := counter s + 1, produced := Suc (produced s), ppc := PUnlock i\<rparr>))"
| "prod_next N r (PUnlock i) s = Some (s\<lparr>mutex := None, ppc := PSignal i\<rparr>)"
| "prod_next N r (PSignal i) s =
     Some (s\<lparr>ppc := PCheck i, kpc := (if r i = 0 \<and> kpc s = KSleep then KRelock else kpc s)\<rparr>)"
| "prod_next N r (PCheck i) s = Some (if r i \<noteq> 0
     then say ''cond_signal failed, ret is %d\<newline>'' [FInt (r i)] (s\<lparr>ppc := PDone\<rparr>) else s\<lparr>ppc := PNap i\<rparr>)"
| "prod_next N r (PNap i) s = Some (s\<lparr>ppc := PLock (Suc i)\<rparr>)"
| "prod_next N r PExit s = Some (say ''producer thread finished\<newline>'' [] (s\<lparr>ppc := PSet\<rparr>))"
| "prod_next N r PSet s = Some (s\<lparr>producerExit := True, ppc := PDone\<rparr>)"
| "prod_next N r PDone s = None"

lemma cons_next_sound: "cons_next k s = Some t \<Longrightarrow> kpc s = k \<Longrightarrow> cons_step sp s t"
  by (cases k) (auto split: if_splits intro: cons_step.intros)

lemma prod_next_sound: "prod_next N r p s = Some t \<Longrightarrow> ppc s = p \<Longrightarrow> prod_step N r s t"
  using p_signal [of s _ N r] by (cases p) (auto split: if_splits intro: prod_step.intros)

text \<open>A schedule: \<open>True\<close> runs the producer, \<open>False\<close> the consumer.\<close>

fun pc_run :: "nat \<Rightarrow> (nat \<Rightarrow> int) \<Rightarrow> bool list \<Rightarrow> pc_sys \<Rightarrow> pc_sys option" where
  "pc_run N r [] s = Some s"
| "pc_run N r (b # bs) s =
     (case if b then prod_next N r (ppc s) s else cons_next (kpc s) s of
        None \<Rightarrow> None | Some t \<Rightarrow> pc_run N r bs t)"

lemma pc_run_reach:
  "pc_run N r bs s = Some t \<Longrightarrow> reach pc_init (pc_step sp N r) s \<Longrightarrow> reach pc_init (pc_step sp N r) t"
proof (induction bs arbitrary: s)
  case (Cons b bs)
  then obtain u where "(if b then prod_next N r (ppc s) s else cons_next (kpc s) s) = Some u"
    and run: "pc_run N r bs u = Some t" by (auto split: option.splits)
  then have "pc_step sp N r s u"
    by (auto simp: pc_step_def split: if_splits intro: cons_next_sound prod_next_sound)
  with Cons.IH [OF run] Cons.prems(2) show ?case by (blast intro: reach_step)
qed simp

lemma pc_reach_start: "reach pc_init (pc_step sp N r) pc_start"
  by (rule reach_init) (simp add: pc_init_def)

text \<open>
  The producer makes its ten items and is about to set the flag; the consumer drains them,
  comes back, sees the empty buffer and the flag still unset, and goes to wait; only then is
  the flag set.
\<close>

definition hang_schedule :: "bool list" where
  "hang_schedule = concat (replicate 10 (replicate 6 True)) @ [True, True]
     @ replicate 13 False @ replicate 6 False @ [True, False]"

lemma hang_run:
  "\<exists>s. pc_run 10 (\<lambda>_. 0) hang_schedule pc_start = Some s \<and> kpc s = KSleep \<and> ppc s = PDone \<and> counter s = 0"
  by (simp add: hang_schedule_def pc_start_def say_def numeral_eq_Suc)

text \<open>
  The program can hang: \<open>producerExit\<close> is set without the mutex and without a signal, so a
  consumer that has just seen it unset goes to sleep and nobody wakes it. Without spurious
  wake-ups a state is reachable in which the producer has returned, the consumer sleeps and no
  thread can run, so that \<open>pthread_join\<close> of the consumer never returns.
\<close>

lemma pc_can_hang:
  "\<exists>s. reach pc_init (pc_step False 10 (\<lambda>_. 0)) s \<and> ppc s = PDone \<and> kpc s = KSleep
     \<and> (\<forall>t. \<not> pc_step False 10 (\<lambda>_. 0) s t)"
proof -
  obtain s where run: "pc_run 10 (\<lambda>_. 0) hang_schedule pc_start = Some s" and at: "kpc s = KSleep" "ppc s = PDone"
    using hang_run by blast
  have "\<not> pc_step False 10 (\<lambda>_. 0) s t" for t
    using at by (auto simp: pc_step_def elim!: cons_step.cases prod_step.cases)
  with pc_run_reach [OF run pc_reach_start, of False] at show ?thesis by blast
qed

text \<open>
  A failing signal strands an item: the producer returns with the counter at 1 and the flag
  unset, and the consumer sleeps.
\<close>

lemma failed_signal_strands:
  assumes "e \<noteq> 0"
  shows "\<exists>s. reach pc_init (pc_step False 10 (\<lambda>_. e)) s \<and> ppc s = PDone \<and> kpc s = KSleep \<and> counter s = 1
     \<and> (\<forall>t. \<not> pc_step False 10 (\<lambda>_. e) s t)"
proof -
  have "\<exists>s. pc_run 10 (\<lambda>_. e) [False, False, False, False, True, True, True, True, True] pc_start = Some s
      \<and> kpc s = KSleep \<and> ppc s = PDone \<and> counter s = 1"
    using assms by (simp add: pc_start_def say_def)
  then obtain s where run: "pc_run 10 (\<lambda>_. e) [False, False, False, False, True, True, True, True, True] pc_start = Some s"
    and at: "kpc s = KSleep" "ppc s = PDone" "counter s = 1" by blast
  have "\<not> pc_step False 10 (\<lambda>_. e) s t" for t
    using at by (auto simp: pc_step_def elim!: cons_step.cases prod_step.cases)
  with pc_run_reach [OF run pc_reach_start, of False] at show ?thesis by blast
qed

section \<open>Witnesses\<close>

lemma finish_run:
  "\<exists>s. pc_run 1 (\<lambda>_. 0) (replicate 9 True @ replicate 7 False) pc_start = Some s \<and> kpc s = KDone"
  by (simp add: pc_start_def say_def numeral_eq_Suc)

theorem pc_conserves_witness:
  "\<exists>s. reach pc_init (pc_step True 1 (\<lambda>_. 0)) s \<and> kpc s = KDone \<and> consumed s = 1
     \<and> pc_report s = Printf ''counter is %ld\<newline>'' [FInt 0]"
proof -
  obtain s where run: "pc_run 1 (\<lambda>_. 0) (replicate 9 True @ replicate 7 False) pc_start = Some s"
    and "kpc s = KDone" using finish_run by blast
  with pc_run_reach [OF run pc_reach_start, of True] pc_conserves [of True 1 "\<lambda>_. 0" s] show ?thesis by blast
qed

theorem pc_stuck_states_witness:
  "\<exists>s. reach pc_init (pc_step False 10 (\<lambda>_. 0)) s \<and> (\<forall>t. \<not> pc_step False 10 (\<lambda>_. 0) s t) \<and> counter s = 0 \<and> consumed s = produced s"
proof -
  obtain s where run: "pc_run 10 (\<lambda>_. 0) hang_schedule pc_start = Some s" and at: "kpc s = KSleep" "ppc s = PDone"
    using hang_run by blast
  have "\<not> pc_step False 10 (\<lambda>_. 0) s t" for t
    using at by (auto simp: pc_step_def elim!: cons_step.cases prod_step.cases)
  with pc_run_reach [OF run pc_reach_start, of False] pc_stuck_states [of False 10 "\<lambda>_. 0" s]
  show ?thesis by blast
qed

end
