(* ===== verification/File_Locks.thy ===== *)
theory File_Locks
  imports C_Prelude
begin

text \<open>
  The two file locking demos: \<open>io/file_lock/fcntl\<close> (record locks) and \<open>io/file_lock/flock\<close>
  (locks of open files). The calls are the record \<open>lock_os\<close>, an argument of the definitions;
  sleeping has no effect in the model. \<open>ltab_os\<close> is a lock table as \<open>flock(2)\<close> describes it:
  a lock belongs to the open file, which duplicated descriptors share, and goes with the last
  of them.
\<close>

section \<open>The calls\<close>

datatype lkcmd = F_GETLK | F_SETLK | F_SETLKW
datatype lktype = F_RDLCK | F_WRLCK | F_UNLCK
datatype whence = SEEK_SET | SEEK_CUR | SEEK_END

text \<open>\<open>struct flock\<close>.\<close>

record flock_req =
  l_type :: lktype
  l_whence :: whence
  l_start :: int
  l_len :: int
  l_pid :: int

datatype lkop = LOCK_SH | LOCK_EX | LOCK_UN

record 'k lock_os =
  k_open :: "string \<Rightarrow> bool \<Rightarrow> ('k, int) kcall"
  k_dup :: "int \<Rightarrow> ('k, int) kcall"
  k_close :: "int \<Rightarrow> ('k, int) kcall"
  k_fcntl :: "int \<Rightarrow> lkcmd \<Rightarrow> flock_req \<Rightarrow> ('k, flock_req) kcall"
  k_flock :: "int \<Rightarrow> lkop \<Rightarrow> bool \<Rightarrow> ('k, int) kcall"
  k_pid :: int

section \<open>io/file\_lock/fcntl\<close>

fun lock_cmd :: "char \<Rightarrow> (lkcmd \<times> string) option" where
  "lock_cmd c = (if c = CHR ''g'' then Some (F_GETLK, ''F_GETLK'')
     else if c = CHR ''s'' then Some (F_SETLK, ''F_SETLK'')
     else if c = CHR ''w'' then Some (F_SETLKW, ''F_SETLKW'') else None)"

fun lock_type :: "char \<Rightarrow> (lktype \<times> string) option" where
  "lock_type t = (if t = CHR ''r'' then Some (F_RDLCK, ''F_RDLCK'')
     else if t = CHR ''w'' then Some (F_WRLCK, ''F_WRLCK'')
     else if t = CHR ''u'' then Some (F_UNLCK, ''F_UNLCK'') else None)"

fun lock_whence :: "char \<Rightarrow> whence \<times> string" where
  "lock_whence w = (if w = CHR ''c'' then (SEEK_CUR, ''SEEK_CUR'')
     else if w = CHR ''e'' then (SEEK_END, ''SEEK_END'') else (SEEK_SET, ''SEEK_SET''))"

text \<open>The two global switches of the program.\<close>

definition g_testTwice :: bool where "g_testTwice = True"
definition g_testClose :: bool where "g_testClose = False"

text \<open>
  The report after the call (lines 59 to 103): the result, from the command, the return value
  and what the call left in the structure.
\<close>

definition lock_report :: "lkcmd \<Rightarrow> farg list \<Rightarrow> flock_req option \<Rightarrow> int \<Rightarrow> ('k, int) io" where
  "lock_report cmd args r e =
     (if cmd = F_GETLK then
        (case r of
           None \<Rightarrow> do { _ \<leftarrow> printf ''fcntl - F_GETLK return error, errno is %d\<newline>'' [FInt e]; ret (-1) }
         | Some fl \<Rightarrow>
             if l_type fl = F_UNLCK then do {
               _ \<leftarrow> printf ''pid: %ld fcntl: %s-%s for %d: %s[%d+%ld] succeeded\<newline>'' args;
               ret 0 }
             else do {
               _ \<leftarrow> printf ''pid: %ld fcntl: %s-%s for %d: %s[%d+%ld] denied(by pid: %ld)\<newline>''
                      (args @ [FInt (l_pid fl)]);
               ret (-1) })
      else
        (case r of
           Some fl \<Rightarrow> do {
             _ \<leftarrow> printf ''pid: %ld fcntl: %s-%s for %d: %s[%d+%ld] succeeded\<newline>'' args;
             ret 0 }
         | None \<Rightarrow>
             if e = EAGAIN \<or> e = EACCES then do {
               _ \<leftarrow> printf ''pid: %ld fcntl: %s-%s for %d: %s[%d+%ld] failed\<newline>'' args; ret (-1) }
             else if e = EDEADLK then do {
               _ \<leftarrow> printf ''pid: %ld fcntl: %s-%s for %d: %s[%d+%ld] deaklock\<newline>'' args; ret (-1) }
             else do {
               _ \<leftarrow> printf ''fcntl - F_SETLK(w) return error, errno is %d\<newline>'' [FInt e]; ret (-1) }))"

text \<open>\<open>_lock\<close>.\<close>

definition lock_file :: "'k lock_os \<Rightarrow> int \<Rightarrow> char \<Rightarrow> char \<Rightarrow> char \<Rightarrow> int \<Rightarrow> int \<Rightarrow> ('k, int) io" where
  "lock_file os fd c t w start len =
     (case lock_cmd c of
        None \<Rightarrow> do { _ \<leftarrow> printf ''unknow cmd %c\<newline>'' [FChar c]; ret (-1) }
      | Some (cmd, cmdStr) \<Rightarrow>
     (case lock_type t of
        None \<Rightarrow> do { _ \<leftarrow> printf ''unknow lockType %c\<newline>'' [FChar t]; ret (-1) }
      | Some (lockType, lockTypeStr) \<Rightarrow> do {
          let (wh, whenceStr) = lock_whence w;
          fd2 \<leftarrow> sys (k_dup os fd);
          r \<leftarrow> sysopt (k_fcntl os fd cmd
                 \<lparr>l_type = lockType, l_whence = wh, l_start = start, l_len = len, l_pid = 0\<rparr>);
          e \<leftarrow> get_errno;
          result \<leftarrow> lock_report cmd [FInt (k_pid os), FStr cmdStr, FStr lockTypeStr, FInt fd,
                      FStr whenceStr, FInt start, FInt len] r e;
          if g_testClose \<and> result = 0 then do {
            _ \<leftarrow> sys (k_close os fd2);
            _ \<leftarrow> printf ''close fd2\<newline>'' [];
            ret (-1) }
          else ret result }))"

text \<open>\<open>_otherTest\<close>.\<close>

definition fcntl_otherTest :: "'k lock_os \<Rightarrow> string \<Rightarrow> ('k, int) io" where
  "fcntl_otherTest os fileName = do {
     _ \<leftarrow> printf ''open file twice test begin...\<newline>'' [];
     fd1 \<leftarrow> sys (k_open os fileName True);
     fd2 \<leftarrow> sys (k_open os fileName True);
     if fd1 = -1 \<or> fd2 = -1 then do {
       e \<leftarrow> get_errno;
       _ \<leftarrow> printf ''open %s failed, errno is %d\<newline>'' [FStr fileName, FInt e];
       ret (-1) }
     else do {
       _ \<leftarrow> lock_file os fd1 (CHR ''s'') (CHR ''w'') (CHR ''s'') 0 10;
       _ \<leftarrow> lock_file os fd2 (CHR ''s'') (CHR ''w'') (CHR ''s'') 0 10;
       _ \<leftarrow> printf ''open file twice test finish...\<newline>'' [];
       ret 0 } }"

definition fcntl_usage :: string where
  "fcntl_usage = ''Usage: %s file cmd lock start length [whence] [sleep time]\<newline>   file: file name for test lock\<newline>   cmd: \<newline>       g: F_GETLK\<newline>       s: F_SETLK\<newline>       w: F_SETLKW\<newline>   lock: \<newline>       r: F_RDLCK\<newline>       w: F_WRLCK\<newline>       u: F_UNLCK\<newline>   start and length specify bytes range to lock\<newline>   whence: \<newline>       s: SEEK_SET (if net set is SEEK_SET)\<newline>       c: SEEK_CUR\<newline>       e: SEEK_END\<newline>   sleep-time: specifies time to hold lock; if net set is 10 s\<newline>''"

text \<open>\<open>main\<close>; the result is the exit status and the seconds slept with the lock.\<close>

definition fcntl_main :: "'k lock_os \<Rightarrow> string list \<Rightarrow> ('k, int \<times> int) io" where
  "fcntl_main os argv = do {
     _ \<leftarrow> (if g_testTwice \<and> length argv > 1 then fcntl_otherTest os (argv ! 1) else ret 0);
     if length argv < 6 \<or> argv ! 1 = ''--help'' then do {
       _ \<leftarrow> printf fcntl_usage [FStr (argv ! 0)];
       ret (-1, 0) }
     else do {
       fd \<leftarrow> sys (k_open os (argv ! 1) True);
       if fd = -1 then do {
         e \<leftarrow> get_errno;
         _ \<leftarrow> printf ''open %s failed, errno is %d\<newline>'' [FStr (argv ! 1), FInt e];
         ret (-1, 0) }
       else do {
         let c = char_at (argv ! 2) 0;
         let t = char_at (argv ! 3) 0;
         let start = atoi (argv ! 4);
         let len = atoi (argv ! 5);
         if start = 0 \<and> len = 0 then do {
           _ \<leftarrow> printf ''start and length all equal 0\<newline>'' [];
           ret (-1, 0) }
         else do {
           let w = CHR ''s'';
           let c = (if length argv > 6 then char_at (argv ! 6) 0 else c);
           let sleepTime = (if length argv > 7 then atoi (argv ! 7) else 10);
           r \<leftarrow> lock_file os fd c t w start len;
           _ \<leftarrow> sys (k_close os fd);
           ret (0, if r = 0 then sleepTime else 0) } } } }"

text \<open>
  C26. The whence argument of \<open>io/file_lock/fcntl\<close> is taken for the command: a run with the
  arguments \<open>file cmd lock start length whence\<close> is, on every system, the run with
  \<open>file whence lock start length\<close>. So the documented command is ignored, the offset is always
  relative to the start of the file, and a whence of \<open>c\<close> or \<open>e\<close> ends in the message
  \<open>unknow cmd\<close>.
\<close>

theorem fcntl_whence_is_command:
  "fcntl_main os [prog, file, cmd, lock, start, len, whence] = fcntl_main os [prog, file, whence, lock, start, len]"
  by (simp add: fcntl_main_def Let_def numeral_eq_Suc cong: if_cong)

text \<open>
  What \<open>_lock\<close> relies on: \<open>F_SETLK\<close> of a process succeeds on a range that no other process
  has locked (\<open>free_for\<close>), also when the process itself has locked it through another
  descriptor; duplicating descriptors does not matter.
\<close>

locale record_locks =
  fixes os :: "'k lock_os" and free_for :: "string \<Rightarrow> 'k \<Rightarrow> bool" and opened :: "int \<Rightarrow> string \<Rightarrow> 'k \<Rightarrow> bool"
  assumes setlk_free: "free_for name k \<Longrightarrow> opened fd name k \<Longrightarrow>
      l_whence req = SEEK_SET \<Longrightarrow> 0 \<le> l_start req \<Longrightarrow> 0 < l_len req \<Longrightarrow>
      \<exists>r k'. k_fcntl os fd F_SETLK req k = (Inr r, k') \<and> free_for name k'
        \<and> (\<forall>f. opened f name k \<longrightarrow> opened f name k')"
    and dup_keeps: "\<exists>r k'. k_dup os fd k = (r, k') \<and> (free_for name k \<longrightarrow> free_for name k')
        \<and> (\<forall>f. opened f name k \<longrightarrow> opened f name k')"
    and open_ok: "free_for name k \<Longrightarrow> \<exists>fd k'. k_open os name True k = (Inr fd, k') \<and> fd \<noteq> -1 \<and> free_for name k'
        \<and> opened fd name k' \<and> (\<forall>f. opened f name k \<longrightarrow> opened f name k')"
begin

lemma lock_file_set:
  assumes "free_for name (kern s)" and "opened fd name (kern s)" and "lock_type t = Some (ty, tyStr)"
    and "lock_whence w = (SEEK_SET, ws)" and "0 \<le> start" and "0 < len"
  shows "\<exists>s'. run_state (lock_file os fd (CHR ''s'') t w start len) s = (0, s')
    \<and> free_for name (kern s') \<and> (\<forall>f. opened f name (kern s) \<longrightarrow> opened f name (kern s'))
    \<and> outs s' = outs s @ [Printf ''pid: %ld fcntl: %s-%s for %d: %s[%d+%ld] succeeded\<newline>''
        [FInt (k_pid os), FStr ''F_SETLK'', FStr tyStr, FInt fd, FStr ws, FInt start, FInt len]]"
proof -
  obtain r k1 where d: "k_dup os fd (kern s) = (r, k1)" and k1: "free_for name k1" "opened fd name k1"
    "\<forall>f. opened f name (kern s) \<longrightarrow> opened f name k1"
    using dup_keeps [of fd "kern s" name] assms by auto
  obtain q k2 where f: "k_fcntl os fd F_SETLK \<lparr>l_type = ty, l_whence = SEEK_SET, l_start = start, l_len = len, l_pid = 0\<rparr> k1
      = (Inr q, k2)" and k2: "free_for name k2" "\<forall>f. opened f name k1 \<longrightarrow> opened f name k2"
    using setlk_free [OF k1(1,2),
        of "\<lparr>l_type = ty, l_whence = SEEK_SET, l_start = start, l_len = len, l_pid = 0\<rparr>"] assms(5,6) by auto
  show ?thesis using d f k1 k2 assms(3,4)
    by (cases r) (auto simp: lock_file_def lock_report_def io_simps g_testClose_def Let_def)
qed

lemma otherTest_succeeds:
  assumes "free_for name (kern s)"
  shows "\<exists>fd1 fd2 s'. run_state (fcntl_otherTest os name) s = (0, s') \<and> free_for name (kern s')
    \<and> outs s' = outs s @ [Printf ''open file twice test begin...\<newline>'' []]
      @ map (\<lambda>fd. Printf ''pid: %ld fcntl: %s-%s for %d: %s[%d+%ld] succeeded\<newline>''
          [FInt (k_pid os), FStr ''F_SETLK'', FStr ''F_WRLCK'', FInt fd, FStr ''SEEK_SET'', FInt 0, FInt 10]) [fd1, fd2]
      @ [Printf ''open file twice test finish...\<newline>'' []]"
proof -
  obtain fd1 k1 where o1: "k_open os name True (kern s) = (Inr fd1, k1)" "fd1 \<noteq> -1" "free_for name k1"
    "opened fd1 name k1" using open_ok [OF assms] by blast
  obtain fd2 k2 where o2: "k_open os name True k1 = (Inr fd2, k2)" "fd2 \<noteq> -1" "free_for name k2"
    "opened fd2 name k2" "opened fd1 name k2" using open_ok [OF o1(3)] o1(4) by blast
  let ?s = "s\<lparr>outs := outs s @ [Printf ''open file twice test begin...\<newline>'' []], kern := k2\<rparr>"
  obtain s1 where l1: "run_state (lock_file os fd1 (CHR ''s'') (CHR ''w'') (CHR ''s'') 0 10) ?s = (0, s1)"
    "free_for name (kern s1)" "opened fd2 name (kern s1)"
    "outs s1 = outs ?s @ [Printf ''pid: %ld fcntl: %s-%s for %d: %s[%d+%ld] succeeded\<newline>''
       [FInt (k_pid os), FStr ''F_SETLK'', FStr ''F_WRLCK'', FInt fd1, FStr ''SEEK_SET'', FInt 0, FInt 10]]"
    using lock_file_set [of name ?s fd1 "CHR ''w''" F_WRLCK "''F_WRLCK''" "CHR ''s''" "''SEEK_SET''" 0 10] o2
    by auto
  obtain s2 where l2: "run_state (lock_file os fd2 (CHR ''s'') (CHR ''w'') (CHR ''s'') 0 10) s1 = (0, s2)"
    "free_for name (kern s2)"
    "outs s2 = outs s1 @ [Printf ''pid: %ld fcntl: %s-%s for %d: %s[%d+%ld] succeeded\<newline>''
       [FInt (k_pid os), FStr ''F_SETLK'', FStr ''F_WRLCK'', FInt fd2, FStr ''SEEK_SET'', FInt 0, FInt 10]]"
    using lock_file_set [of name s1 fd2 "CHR ''w''" F_WRLCK "''F_WRLCK''" "CHR ''s''" "''SEEK_SET''" 0 10] l1
    by auto
  show ?thesis using o1 o2 l1 l2 by (auto simp: fcntl_otherTest_def io_simps)
qed

end

section \<open>io/file\_lock/flock\<close>

definition EWOULDBLOCK :: int where [errno_defs]: "EWOULDBLOCK = 11"

text \<open>
  \<open>_otherTest\<close>: the duplicate and the closing (\<open>fd1\<close> and \<open>fd3\<close> afterwards), the part from its second
  \<open>flock\<close> on, and the whole.
\<close>

definition flock_give_up :: "'k lock_os \<Rightarrow> int \<Rightarrow> bool \<Rightarrow> bool \<Rightarrow> ('k, int \<times> int) io" where
  "flock_give_up os fd1 testDup testClose = do {
     fd3 \<leftarrow> (if testDup then do {
              fd3 \<leftarrow> sys (k_dup os fd1);
              _ \<leftarrow> printf ''    dup fd1 to fd3(%d)\<newline>'' [FInt fd3];
              _ \<leftarrow> sys (k_flock os fd3 LOCK_UN False);
              _ \<leftarrow> printf ''    unlock fd3 will unlock fd1 too\<newline>'' [];
              ret fd3 }
            else ret (-1));
     fd1 \<leftarrow> (if testClose then do {
              _ \<leftarrow> sys (k_close os fd1);
              _ \<leftarrow> printf ''    close fd1, will not unlock fd1\<newline>'' [];
              ret (-1) }
            else ret fd1);
     ret (fd1, fd3) }"

definition flock_second :: "'k lock_os \<Rightarrow> int \<Rightarrow> int \<Rightarrow> int \<Rightarrow> ('k, int) io" where
  "flock_second os fd1 fd2 fd3 = do {
     _ \<leftarrow> printf ''try flock fd2\<newline>'' [];
     r \<leftarrow> sys (k_flock os fd2 LOCK_EX True);
     e \<leftarrow> get_errno;
     _ \<leftarrow> (if r = -1 then printf ''flock fd2 failed, errno is %d\<newline>'' [FInt e]
           else printf ''flock fd2 ok\<newline>'' []);
     _ \<leftarrow> (if fd1 \<ge> 0 then sys (k_close os fd1) else ret 0);
     _ \<leftarrow> (if fd2 \<ge> 0 then sys (k_close os fd2) else ret 0);
     _ \<leftarrow> (if fd3 \<ge> 0 then sys (k_close os fd3) else ret 0);
     ret 0 }"

definition flock_otherTest :: "'k lock_os \<Rightarrow> string \<Rightarrow> bool \<Rightarrow> bool \<Rightarrow> ('k, int) io" where
  "flock_otherTest os fileName testDup testClose = do {
     _ \<leftarrow> printf ''\<newline>\<newline>'' [];
     fd1 \<leftarrow> sys (k_open os fileName True);
     fd2 \<leftarrow> sys (k_open os fileName True);
     if fd1 < 0 \<or> fd2 < 0 then do {
       _ \<leftarrow> printf ''fd1 or fd2 < 0\<newline>'' [];
       ret (-1) }
     else do {
       _ \<leftarrow> printf ''open %s twice, fd1 = %d, fd2 = %d\<newline>'' [FStr fileName, FInt fd1, FInt fd2];
       _ \<leftarrow> printf ''try flock fd1\<newline>'' [];
       r \<leftarrow> sys (k_flock os fd1 LOCK_EX True);
       if r = -1 then do {
         e \<leftarrow> get_errno;
         _ \<leftarrow> printf ''flock fd2 failed, errno is %d\<newline>'' [FInt e];
         _ \<leftarrow> sys (k_close os fd1);
         _ \<leftarrow> sys (k_close os fd2);
         ret (-1) }
       else do {
         _ \<leftarrow> printf ''flock fd1 ok\<newline>'' [];
         (fd1, fd3) \<leftarrow> flock_give_up os fd1 testDup testClose;
         flock_second os fd1 fd2 fd3 } } }"

definition flock_usage :: string where
  "flock_usage = ''Usage: %s file s[n]/x[n] [sleep time]\<newline>'' @ TAB # ''s: shared lock\<newline>''
     @ TAB # ''x: exclusive lock\<newline>'' @ TAB # ''n: optionally; nonblocking\<newline>''
     @ TAB # ''sleep-time: specifies time to hold lock; if net set is 10 s\<newline>''"

text \<open>
  The number of a lock type: \<open>LOCK_SH\<close> is 1, \<open>LOCK_EX\<close> 2, \<open>LOCK_NB\<close> 4, \<open>LOCK_UN\<close> 8.
  \<open>strchr\<close> also finds the null byte of an empty \<open>argv[2]\<close>.
\<close>

definition lock_number :: "lkop \<Rightarrow> bool \<Rightarrow> int" where
  "lock_number op nb = (case op of LOCK_SH \<Rightarrow> 1 | LOCK_EX \<Rightarrow> 2 | LOCK_UN \<Rightarrow> 8) + (if nb then 4 else 0)"

definition flock_main :: "'k lock_os \<Rightarrow> string list \<Rightarrow> ('k, int) io" where
  "flock_main os argv =
     (if length argv < 3 \<or> argv ! 1 = ''--help'' \<or> char_at (argv ! 2) 0 \<notin> {CHR ''s'', CHR ''x'', NUL} then do {
        _ \<leftarrow> printf flock_usage [FStr (argv ! 0)];
        ret (-1) }
      else do {
        _ \<leftarrow> printf ''LOCK_SH = %d, LOCK_EX = %d, LOCK_NB = %d\<newline>'' [FInt 1, FInt 2, FInt 4];
        let op = (if char_at (argv ! 2) 0 = CHR ''s'' then LOCK_SH else LOCK_EX);
        let nb = (char_at (argv ! 2) 1 = CHR ''n'');
        let sleepTime = (if length argv > 3 then atoi (argv ! 3) else 10);
        let lockType = lock_number op nb;
        let pid = k_pid os;
        fd \<leftarrow> sys (k_open os (argv ! 1) False);
        if fd = -1 then do {
          _ \<leftarrow> printf ''open %s failed\<newline>'' [FStr (argv ! 1)];
          ret (-1) }
        else do {
          _ \<leftarrow> printf ''pid: %ld requesting lock %s %d s, lock type is %d\<newline>''
                 [FInt pid, FStr (argv ! 1), FInt sleepTime, FInt lockType];
          r \<leftarrow> sys (k_flock os fd op nb);
          if r = -1 then do {
            e \<leftarrow> get_errno;
            _ \<leftarrow> (if e = EWOULDBLOCK then printf ''pid: %ld already been locked by other process\<newline>'' [FInt pid]
                  else printf ''pid: %ld flock %s return -1\<newline>'' [FInt pid, FStr (argv ! 1)]);
            ret (-1) }
          else do {
            _ \<leftarrow> printf ''pid: %ld granted lock %s, lock type is %d\<newline>'' [FInt pid, FStr (argv ! 1), FInt lockType];
            _ \<leftarrow> printf ''pid: %ld release lock %s, lock type is %d\<newline>'' [FInt pid, FStr (argv ! 1), FInt lockType];
            r \<leftarrow> sys (k_flock os fd LOCK_UN False);
            if r = -1 then do {
              e \<leftarrow> get_errno;
              _ \<leftarrow> printf ''flock un lock return -1, errno is %d\<newline>'' [FInt e];
              ret (-1) }
            else do {
              _ \<leftarrow> sys (k_close os fd);
              _ \<leftarrow> flock_otherTest os (argv ! 1) False False;
              _ \<leftarrow> flock_otherTest os (argv ! 1) True False;
              _ \<leftarrow> flock_otherTest os (argv ! 1) False True;
              ret 0 } } } })"

text \<open>
  What \<open>flock(2)\<close> says. \<open>fds\<close> are the descriptors of the process with their file and their open file,
  \<open>lk\<close> the locks of all processes, by file and open file, with \<open>True\<close> for an exclusive one; \<open>room n\<close>
  says that the file exists and \<open>n\<close> more descriptors can be had. Opening makes a new open file,
  duplicating shares it; closing the last descriptor of an open file releases its lock. An
  exclusive lock is refused while another open file of the same file has one.
\<close>

locale flock_kernel =
  fixes os :: "'k lock_os" and fds :: "'k \<Rightarrow> int \<Rightarrow> (string \<times> nat) option" and lk :: "'k \<Rightarrow> string \<times> nat \<Rightarrow> bool option"
    and room :: "nat \<Rightarrow> string \<Rightarrow> 'k \<Rightarrow> bool"
  assumes open_law: "room (Suc n) name k \<Longrightarrow> \<exists>fd f k'. k_open os name True k = (Inr fd, k') \<and> 0 \<le> fd \<and> fds k fd = None
        \<and> (\<forall>g m. fds k g \<noteq> Some (m, f)) \<and> (\<forall>m. lk k (m, f) = None)
        \<and> fds k' = (fds k)(fd \<mapsto> (name, f)) \<and> lk k' = lk k \<and> room n name k'"
    and dup_law: "room (Suc n) name k \<Longrightarrow> fds k fd = Some x \<Longrightarrow> \<exists>fd' k'. k_dup os fd k = (Inr fd', k') \<and> 0 \<le> fd'
        \<and> fds k fd' = None \<and> fds k' = (fds k)(fd' \<mapsto> x) \<and> lk k' = lk k"
    and close_law: "fds k fd = Some x \<Longrightarrow> \<exists>k'. k_close os fd k = (Inr 0, k') \<and> fds k' = (fds k)(fd := None)
        \<and> lk k' = (if \<exists>g. g \<noteq> fd \<and> fds k g = Some x then lk k else (lk k)(x := None))"
    and lock_law: "fds k fd = Some (m, f) \<Longrightarrow> lk k (m, f) = None \<Longrightarrow> \<exists>r k'. k_flock os fd LOCK_EX True k = (r, k') \<and> fds k' = fds k
        \<and> (room n name k \<longrightarrow> room n name k')
        \<and> (if \<forall>g. lk k (m, g) = None then r = Inr 0 \<and> lk k' = (lk k)((m, f) \<mapsto> True) else r = Inl EWOULDBLOCK \<and> lk k' = lk k)"
    and unlock_law: "fds k fd = Some x \<Longrightarrow> \<exists>k'. k_flock os fd LOCK_UN False k = (Inr 0, k') \<and> fds k' = fds k \<and> lk k' = (lk k)(x := None)"
begin

text \<open>The last statements: what is still open is closed.\<close>

lemma close_run:
  assumes "fd \<ge> 0 \<Longrightarrow> fds (kern s) fd = Some x"
  shows "\<exists>r s'. run_state (if fd \<ge> 0 then sys (k_close os fd) else ret 0) s = (r, s') \<and> outs s' = outs s
    \<and> fds (kern s') = (if fd \<ge> 0 then (fds (kern s))(fd := None) else fds (kern s))
    \<and> lk (kern s') = (if fd < 0 \<or> (\<exists>g. g \<noteq> fd \<and> fds (kern s) g = Some x) then lk (kern s) else (lk (kern s))(x := None))"
proof (cases "fd \<ge> 0")
  case True
  with close_law [OF assms [OF True]] show ?thesis by (auto simp: io_simps)
qed simp

text \<open>The second attempt, with the first open file \<open>f1\<close> at \<open>fd1\<close> and \<open>fd3\<close>, where these are open.\<close>

lemma second_run:
  assumes "fds (kern s) fd2 = Some (m, f2)" "lk (kern s) (m, f2) = None" "0 \<le> fd2"
    and one: "\<And>g. fds (kern s) g = Some (m, f2) \<longleftrightarrow> g = fd2"
    and two: "\<And>g. fds (kern s) g = Some (m, f1) \<longleftrightarrow> 0 \<le> g \<and> (g = fd1 \<or> g = fd3)"
    and ne: "f1 \<noteq> f2" "0 \<le> fd1 \<Longrightarrow> fd1 \<noteq> fd3"
    and un: "fd1 < 0 \<Longrightarrow> fd3 < 0 \<Longrightarrow> lk (kern s) (m, f1) = None"
  shows "\<exists>s'. run_state (flock_second os fd1 fd2 fd3) s = (0, s')
    \<and> fds (kern s') = (\<lambda>g. if 0 \<le> g \<and> (g = fd1 \<or> g = fd2 \<or> g = fd3) then None else fds (kern s) g)
    \<and> lk (kern s') = (lk (kern s))((m, f1) := None)
    \<and> last (outs s') = (if \<forall>g. lk (kern s) (m, g) = None then Printf ''flock fd2 ok\<newline>'' []
         else Printf ''flock fd2 failed, errno is %d\<newline>'' [FInt EWOULDBLOCK])"
proof -
  let ?free = "\<forall>g. lk (kern s) (m, g) = None"
  have d: "0 \<le> fd1 \<Longrightarrow> fd1 \<noteq> fd2" "0 \<le> fd3 \<Longrightarrow> fd3 \<noteq> fd2"
    using two [of fd1] two [of fd3] one [of fd2] ne(1) by auto
  let ?msg = "if ?free then Printf ''flock fd2 ok\<newline>'' [] else Printf ''flock fd2 failed, errno is %d\<newline>'' [FInt EWOULDBLOCK]"
  obtain r k where k: "k_flock os fd2 LOCK_EX True (kern s) = (r, k)" "fds k = fds (kern s)"
      "if ?free then r = Inr 0 \<and> lk k = (lk (kern s))((m, f2) \<mapsto> True) else r = Inl EWOULDBLOCK \<and> lk k = lk (kern s)"
    using lock_law [OF assms(1,2)] by blast
  define s1 where "s1 = s\<lparr>kern := k, errno := (if ?free then errno s else EWOULDBLOCK),
    outs := outs s @ [Printf ''try flock fd2\<newline>'' [], ?msg]\<rparr>"
  have s1: "fds (kern s1) = fds (kern s)" "last (outs s1) = ?msg" "(lk (kern s1))((m, f2) := None) = lk (kern s)"
    using k assms(2) by (auto simp: s1_def fun_eq_iff split: if_splits)
  obtain r2 s2 where s2: "run_state (if fd1 \<ge> 0 then sys (k_close os fd1) else ret 0) s1 = (r2, s2)" "outs s2 = outs s1"
      "fds (kern s2) = (if fd1 \<ge> 0 then (fds (kern s1))(fd1 := None) else fds (kern s1))"
      "lk (kern s2) = (if fd1 < 0 \<or> (\<exists>g. g \<noteq> fd1 \<and> fds (kern s1) g = Some (m, f1)) then lk (kern s1) else (lk (kern s1))((m, f1) := None))"
    using close_run [of fd1 s1 "(m, f1)"] s1(1) two by auto
  have "fds (kern s2) fd2 = Some (m, f2)" using s2(3) s1(1) assms(1) d(1) by auto
  then obtain r3 s3 where s3: "run_state (if fd2 \<ge> 0 then sys (k_close os fd2) else ret 0) s2 = (r3, s3)" "outs s3 = outs s2"
      "fds (kern s3) = (fds (kern s2))(fd2 := None)" "lk (kern s3) = (lk (kern s2))((m, f2) := None)"
    using close_run [of fd2 s2 "(m, f2)"] assms(3) one s1(1) s2(3) by (auto split: if_splits)
  have "fds (kern s3) fd3 = Some (m, f1)" if "fd3 \<ge> 0" using that s3(3) s2(3) s1(1) two [of fd3] ne d by auto
  then obtain r4 s4 where s4: "run_state (if fd3 \<ge> 0 then sys (k_close os fd3) else ret 0) s3 = (r4, s4)" "outs s4 = outs s3"
      "fds (kern s4) = (if fd3 \<ge> 0 then (fds (kern s3))(fd3 := None) else fds (kern s3))"
      "lk (kern s4) = (if fd3 < 0 \<or> (\<exists>g. g \<noteq> fd3 \<and> fds (kern s3) g = Some (m, f1)) then lk (kern s3) else (lk (kern s3))((m, f1) := None))"
    using close_run [of fd3 s3 "(m, f1)"] by blast
  have "run_state (flock_second os fd1 fd2 fd3) s = (0, s4)"
  proof -
    have "run_state (flock_second os fd1 fd2 fd3) s = run_state (do {
        _ \<leftarrow> (if fd1 \<ge> 0 then sys (k_close os fd1) else ret 0);
        _ \<leftarrow> (if fd2 \<ge> 0 then sys (k_close os fd2) else ret 0);
        _ \<leftarrow> (if fd3 \<ge> 0 then sys (k_close os fd3) else ret 0);
        ret 0 }) s1"
    proof (cases ?free)
      case True
      then have "r = Inr 0" "s1 = s\<lparr>kern := k, errno := errno s,
          outs := outs s @ [Printf ''try flock fd2\<newline>'' [], Printf ''flock fd2 ok\<newline>'' []]\<rparr>"
        using k(3) unfolding s1_def by (simp_all only: if_True simp_thms)
      then show ?thesis using k(1) by (cases s) (simp add: flock_second_def io_simps)
    next
      case False
      then have "r = Inl EWOULDBLOCK" "s1 = s\<lparr>kern := k, errno := EWOULDBLOCK,
          outs := outs s @ [Printf ''try flock fd2\<newline>'' [], Printf ''flock fd2 failed, errno is %d\<newline>'' [FInt EWOULDBLOCK]]\<rparr>"
        using k(3) unfolding s1_def by (simp_all only: if_False simp_thms)
      then show ?thesis using k(1) by (cases s) (simp add: flock_second_def io_simps)
    qed
    also have "\<dots> = (0, s4)" by (simp only: run_state_bind s2(1) s3(1) s4(1) prod.case) simp
    finally show ?thesis .
  qed
  moreover have "fds (kern s4) = (\<lambda>g. if 0 \<le> g \<and> (g = fd1 \<or> g = fd2 \<or> g = fd3) then None else fds (kern s) g)"
    unfolding s4(3) s3(3) s2(3) s1(1) using assms(3) by (auto simp: fun_eq_iff)
  moreover have "lk (kern s4) = (lk (kern s))((m, f1) := None)"
  proof -
    have "(\<exists>g. g \<noteq> fd1 \<and> fds (kern s1) g = Some (m, f1)) \<longleftrightarrow> 0 \<le> fd3" if "0 \<le> fd1"
      using that ne(2) by (auto simp: s1(1) two intro: exI [of _ fd3])
    then have l2: "lk (kern s2) = (if fd1 < 0 \<or> 0 \<le> fd3 then lk (kern s1) else (lk (kern s1))((m, f1) := None))"
      using s2(4) by auto
    have "\<not> (\<exists>g. g \<noteq> fd3 \<and> fds (kern s3) g = Some (m, f1))" using two by (auto simp: s3(3) s2(3) s1(1))
    then have "lk (kern s4) = (if fd3 < 0 then lk (kern s3) else (lk (kern s3))((m, f1) := None))" using s4(4) by auto
    then show ?thesis using l2 s1(3) un ne(1) unfolding s3(4)
      by (cases "fd1 < 0"; cases "fd3 < 0") (auto simp: fun_eq_iff split: if_splits)
  qed
  ultimately show ?thesis using s4(2) s3(2) s2(2) s1(2) by auto
qed

text \<open>Giving the lock up, through a duplicate or by closing.\<close>

lemma give_up_run:
  assumes "fds (kern s) fd1 = Some x" and "room 1 name (kern s)" and "\<And>g. fds (kern s) g = Some x \<longleftrightarrow> g = fd1"
  shows "\<exists>fd3 s'. run_state (flock_give_up os fd1 testDup testClose) s = ((if testClose then -1 else fd1, fd3), s')
    \<and> (if testDup then 0 \<le> fd3 \<and> fds (kern s) fd3 = None else fd3 = -1)
    \<and> fds (kern s') = (\<lambda>g. if testClose \<and> g = fd1 then None else if testDup \<and> g = fd3 then Some x else fds (kern s) g)
    \<and> lk (kern s') = (if testDup \<or> testClose then (lk (kern s))(x := None) else lk (kern s))"
proof -
  have "\<exists>fd3 s1. run_state (if testDup then do {
          fd3 \<leftarrow> sys (k_dup os fd1);
          _ \<leftarrow> printf ''    dup fd1 to fd3(%d)\<newline>'' [FInt fd3];
          _ \<leftarrow> sys (k_flock os fd3 LOCK_UN False);
          _ \<leftarrow> printf ''    unlock fd3 will unlock fd1 too\<newline>'' [];
          ret fd3 } else ret (-1)) s = (fd3, s1)
      \<and> (if testDup then 0 \<le> fd3 \<and> fds (kern s) fd3 = None else fd3 = -1)
      \<and> fds (kern s1) = (if testDup then (fds (kern s))(fd3 \<mapsto> x) else fds (kern s))
      \<and> lk (kern s1) = (if testDup then (lk (kern s))(x := None) else lk (kern s))"
  proof (cases testDup)
    case True
    obtain fd3 k1 where d: "k_dup os fd1 (kern s) = (Inr fd3, k1)" "0 \<le> fd3" "fds (kern s) fd3 = None"
        "fds k1 = (fds (kern s))(fd3 \<mapsto> x)" "lk k1 = lk (kern s)"
      using dup_law [of 0 name "kern s" fd1 x] assms(1,2) by auto
    have "fds k1 fd3 = Some x" by (simp add: d(4))
    from unlock_law [OF this] True d show ?thesis by (auto simp: io_simps)
  qed simp
  then obtain fd3 s1 where a: "run_state (if testDup then do {
          fd3 \<leftarrow> sys (k_dup os fd1);
          _ \<leftarrow> printf ''    dup fd1 to fd3(%d)\<newline>'' [FInt fd3];
          _ \<leftarrow> sys (k_flock os fd3 LOCK_UN False);
          _ \<leftarrow> printf ''    unlock fd3 will unlock fd1 too\<newline>'' [];
          ret fd3 } else ret (-1)) s = (fd3, s1)"
      "if testDup then 0 \<le> fd3 \<and> fds (kern s) fd3 = None else fd3 = -1"
      "fds (kern s1) = (if testDup then (fds (kern s))(fd3 \<mapsto> x) else fds (kern s))"
      "lk (kern s1) = (if testDup then (lk (kern s))(x := None) else lk (kern s))" by blast
  have fd3: "fd3 \<noteq> fd1" if testDup using that a(2) assms(1) by auto
  have "fds (kern s1) fd1 = Some x" using a(3) assms(1) by auto
  then obtain k2 where c: "k_close os fd1 (kern s1) = (Inr 0, k2)" "fds k2 = (fds (kern s1))(fd1 := None)"
      "lk k2 = (if \<exists>g. g \<noteq> fd1 \<and> fds (kern s1) g = Some x then lk (kern s1) else (lk (kern s1))(x := None))"
    using close_law by blast
  have "(\<exists>g. g \<noteq> fd1 \<and> fds (kern s1) g = Some x) \<longleftrightarrow> testDup"
    using a(3) assms(3) fd3 by (auto split: if_splits)
  with c(3) a(4) have l: "lk k2 = (lk (kern s))(x := None)" by simp
  show ?thesis
  proof (cases testClose)
    case True
    let ?s = "s1\<lparr>kern := k2, outs := outs s1 @ [Printf ''    close fd1, will not unlock fd1\<newline>'' []]\<rparr>"
    have "run_state (flock_give_up os fd1 testDup testClose) s = ((-1, fd3), ?s)"
      unfolding flock_give_up_def run_state_bind a(1) using True c(1) by (simp add: io_simps)
    then show ?thesis using True a(2,3) c(2) l
      by (intro exI [of _ fd3] exI [of _ ?s]) (auto simp: fun_eq_iff)
  next
    case False
    have "run_state (flock_give_up os fd1 testDup testClose) s = ((fd1, fd3), s1)"
      unfolding flock_give_up_def run_state_bind a(1) using False by simp
    then show ?thesis using False a(2-4) by (intro exI [of _ fd3] exI [of _ s1]) (auto simp: fun_eq_iff)
  qed
qed

text \<open>
  From the first lock to the end, with \<open>F\<close> and \<open>L\<close> the descriptors and the locks of before: the second
  attempt succeeds exactly when the lock was given up.
\<close>

lemma granted_run:
  assumes fds: "fds (kern s) = F(fd1 \<mapsto> (name, f1), fd2 \<mapsto> (name, f2))" and lks: "lk (kern s) = L((name, f1) \<mapsto> True)"
    and new: "0 \<le> fd1" "0 \<le> fd2" "fd1 \<noteq> fd2" "f1 \<noteq> f2" "F fd1 = None" "F fd2 = None" "\<And>g. F g \<noteq> Some (name, f1)" "\<And>g. F g \<noteq> Some (name, f2)"
    and free: "\<And>g. L (name, g) = None" and room: "room 1 name (kern s)"
  shows "\<exists>s'. run_state (do { (a, b) \<leftarrow> flock_give_up os fd1 testDup testClose; flock_second os a fd2 b }) s = (0, s')
    \<and> fds (kern s') = F \<and> lk (kern s') = L
    \<and> last (outs s') = (if testDup \<or> testClose then Printf ''flock fd2 ok\<newline>'' []
         else Printf ''flock fd2 failed, errno is %d\<newline>'' [FInt EWOULDBLOCK])"
proof -
  let ?a = "if testClose then -1 else fd1"
  have at: "fds (kern s) fd1 = Some (name, f1)" "fds (kern s) fd2 = Some (name, f2)"
    "\<And>g. fds (kern s) g = Some (name, f1) \<longleftrightarrow> g = fd1" "\<And>g. fds (kern s) g = Some (name, f2) \<longleftrightarrow> g = fd2"
    using new by (auto simp: fds)
  obtain fd3 s4 where s4: "run_state (flock_give_up os fd1 testDup testClose) s = ((?a, fd3), s4)"
      "if testDup then 0 \<le> fd3 \<and> fds (kern s) fd3 = None else fd3 = -1"
      "fds (kern s4) = (\<lambda>g. if testClose \<and> g = fd1 then None else if testDup \<and> g = fd3 then Some (name, f1) else fds (kern s) g)"
      "lk (kern s4) = (if testDup \<or> testClose then (lk (kern s))((name, f1) := None) else lk (kern s))"
    using give_up_run [OF at(1) room at(3), of testDup testClose] by blast
  have fd3: "fd3 \<noteq> fd1" "fd3 \<noteq> fd2" "testDup \<longleftrightarrow> 0 \<le> fd3" "testDup \<Longrightarrow> F fd3 = None"
    using s4(2) at(1,2) new(1,2,3) by (auto simp: fds split: if_splits)
  have "\<exists>s'. run_state (flock_second os ?a fd2 fd3) s4 = (0, s')
    \<and> fds (kern s') = (\<lambda>g. if 0 \<le> g \<and> (g = ?a \<or> g = fd2 \<or> g = fd3) then None else fds (kern s4) g)
    \<and> lk (kern s') = (lk (kern s4))((name, f1) := None)
    \<and> last (outs s') = (if \<forall>g. lk (kern s4) (name, g) = None then Printf ''flock fd2 ok\<newline>'' []
         else Printf ''flock fd2 failed, errno is %d\<newline>'' [FInt EWOULDBLOCK])"
  proof (rule second_run)
    show "fds (kern s4) g = Some (name, f1) \<longleftrightarrow> 0 \<le> g \<and> (g = ?a \<or> g = fd3)" for g
      unfolding s4(3) using at(3) [of g] new(1) fd3 by auto
    show "fds (kern s4) g = Some (name, f2) \<longleftrightarrow> g = fd2" for g
      unfolding s4(3) using at(4) [of g] new(3,4) fd3 by auto
    show "fds (kern s4) fd2 = Some (name, f2)" unfolding s4(3) using at(2) new(3) fd3 by auto
    show "lk (kern s4) (name, f2) = None" unfolding s4(4) lks using free new(4) by auto
  qed (use new(1,2,4) fd3 s4(4) in auto)
  moreover have "(\<forall>g. lk (kern s4) (name, g) = None) \<longleftrightarrow> testDup \<or> testClose"
    unfolding s4(4) lks using free by auto
  moreover have "(\<lambda>g. if 0 \<le> g \<and> (g = ?a \<or> g = fd2 \<or> g = fd3) then None else fds (kern s4) g) = F"
    unfolding s4(3) fds using new(1,2,5,6) fd3 by (auto simp: fun_eq_iff)
  moreover have "(lk (kern s4))((name, f1) := None) = L" unfolding s4(4) lks using free by (auto simp: fun_eq_iff)
  ultimately show ?thesis by (simp only: run_state_bind s4(1) prod.case)
qed

text \<open>The other way: the first attempt is refused, and both descriptors are closed.\<close>

lemma refused_run:
  assumes fds: "fds k = F(fd1 \<mapsto> (name, f1), fd2 \<mapsto> (name, f2))"
    and new: "fd1 \<noteq> fd2" "f1 \<noteq> f2" "F fd1 = None" "F fd2 = None" "\<And>g. F g \<noteq> Some (name, f1)" "\<And>g. F g \<noteq> Some (name, f2)"
    and free: "lk k (name, f1) = None" "lk k (name, f2) = None"
  shows "\<exists>k1 k2. k_close os fd1 k = (Inr 0, k1) \<and> k_close os fd2 k1 = (Inr 0, k2) \<and> fds k2 = F \<and> lk k2 = lk k"
proof -
  obtain k1 where k1: "k_close os fd1 k = (Inr 0, k1)" "fds k1 = (fds k)(fd1 := None)" "lk k1 = (lk k)((name, f1) := None)"
    using close_law [of k fd1 "(name, f1)"] fds new by auto
  then obtain k2 where k2: "k_close os fd2 k1 = (Inr 0, k2)" "fds k2 = (fds k1)(fd2 := None)" "lk k2 = (lk k1)((name, f2) := None)"
    using close_law [of k1 fd2 "(name, f2)"] fds new by auto
  have "fds k2 = F" "lk k2 = lk k" using k1(2,3) k2(2,3) fds new(3,4) free by (auto simp: fun_eq_iff)
  with k1(1) k2(1) show ?thesis by blast
qed

text \<open>
  \<open>_otherTest\<close> in all its variants. When another open file has a lock on the file, the first attempt
  fails; otherwise the second one fails unless the lock was given up through the duplicate or by
  closing. Descriptors and locks are at the end what they were.
\<close>

lemma otherTest_run:
  assumes "room 3 name (kern s)"
  shows "\<exists>s'. run_state (flock_otherTest os name testDup testClose) s
      = (if \<forall>g. lk (kern s) (name, g) = None then 0 else -1, s')
    \<and> fds (kern s') = fds (kern s) \<and> lk (kern s') = lk (kern s)
    \<and> last (outs s') = (if (\<forall>g. lk (kern s) (name, g) = None) \<and> (testDup \<or> testClose) then Printf ''flock fd2 ok\<newline>'' []
         else Printf ''flock fd2 failed, errno is %d\<newline>'' [FInt EWOULDBLOCK])"
proof -
  let ?F = "fds (kern s)" and ?L = "lk (kern s)"
  obtain fd1 f1 k1 where o1: "k_open os name True (kern s) = (Inr fd1, k1)" "0 \<le> fd1" "?F fd1 = None"
      "\<And>g m. ?F g \<noteq> Some (m, f1)" "\<And>m. ?L (m, f1) = None" "fds k1 = ?F(fd1 \<mapsto> (name, f1))" "lk k1 = ?L" "room 2 name k1"
    using open_law [of 2 name "kern s"] assms by (auto simp: numeral_3_eq_3 numeral_2_eq_2)
  obtain fd2 f2 k2 where o2: "k_open os name True k1 = (Inr fd2, k2)" "0 \<le> fd2" "fds k1 fd2 = None"
      "\<And>g m. fds k1 g \<noteq> Some (m, f2)" "\<And>m. ?L (m, f2) = None" "fds k2 = (fds k1)(fd2 \<mapsto> (name, f2))" "lk k2 = ?L" "room 1 name k2"
    using open_law [of 1 name k1] o1(7,8) by (auto simp: numeral_2_eq_2)
  have ne: "fd1 \<noteq> fd2" "?F fd2 = None" "f1 \<noteq> f2" "?F g \<noteq> Some (m, f2)" for g m
    using o2(3) o2(4) [of fd1 name] o2(4) [of g m] o1(3,6) by (auto split: if_splits)
  have F2: "fds k2 = ?F(fd1 \<mapsto> (name, f1), fd2 \<mapsto> (name, f2))" using o2(6) o1(6) by simp
  have at: "fds k2 fd1 = Some (name, f1)" "lk k2 (name, f1) = None" using F2 ne(1) o1(5) o2(7) by auto
  obtain r k3 where k3: "k_flock os fd1 LOCK_EX True k2 = (r, k3)" "fds k3 = fds k2" "room 1 name k3"
      "if \<forall>g. ?L (name, g) = None then r = Inr 0 \<and> lk k3 = ?L((name, f1) \<mapsto> True) else r = Inl EWOULDBLOCK \<and> lk k3 = ?L"
    using lock_law [OF at, of 1 name] o2(7,8) by auto
  let ?outs = "outs s @ [Printf ''\<newline>\<newline>'' [], Printf ''open %s twice, fd1 = %d, fd2 = %d\<newline>'' [FStr name, FInt fd1, FInt fd2],
      Printf ''try flock fd1\<newline>'' []]"
  show ?thesis
  proof (cases "\<forall>g. ?L (name, g) = None")
    case True
    define s3 where "s3 = s\<lparr>kern := k3, outs := ?outs @ [Printf ''flock fd1 ok\<newline>'' []]\<rparr>"
    have "kern s3 = k3" by (simp add: s3_def)
    then have l3: "r = Inr 0" "lk (kern s3) = ?L((name, f1) \<mapsto> True)"
      using k3(4) True by (simp_all only: if_True simp_thms)
    have "run_state (flock_otherTest os name testDup testClose) s
        = run_state (do { (a, b) \<leftarrow> flock_give_up os fd1 testDup testClose; flock_second os a fd2 b }) s3"
      using o1(1,2) o2(1,2) k3(1) l3(1) by (cases s) (simp add: flock_otherTest_def io_simps s3_def)
    moreover have "fds (kern s3) = ?F(fd1 \<mapsto> (name, f1), fd2 \<mapsto> (name, f2))" "room 1 name (kern s3)"
      using k3(2,3) F2 by (simp_all add: s3_def)
    ultimately show ?thesis
      using granted_run [of s3 ?F fd1 name f1 fd2 f2 ?L testDup testClose] l3(2) o1(2-5) o2(2) ne True by simp
  next
    case False
    then have l3: "r = Inl EWOULDBLOCK" "lk k3 = ?L" using k3(4) by (simp_all only: if_False simp_thms)
    obtain k4 k5 where k5: "k_close os fd1 k3 = (Inr 0, k4)" "k_close os fd2 k4 = (Inr 0, k5)" "fds k5 = ?F" "lk k5 = ?L"
      using refused_run [of k3 ?F fd1 name f1 fd2 f2] k3(2) F2 ne o1(3-5) o2(5) l3(2) by auto
    let ?s = "s\<lparr>kern := k5, errno := EWOULDBLOCK, outs := ?outs @ [Printf ''flock fd2 failed, errno is %d\<newline>'' [FInt EWOULDBLOCK]]\<rparr>"
    have "run_state (flock_otherTest os name testDup testClose) s = (-1, ?s)"
      using o1(1,2) o2(1,2) k3(1) l3(1) k5(1,2) by (cases s) (simp add: flock_otherTest_def io_simps)
    with False k5(3,4) show ?thesis by (intro exI [of _ ?s]) auto
  qed
qed

end

section \<open>A lock table\<close>

text \<open>
  Descriptors with the file and the open file they refer to, the locks of \<open>flock\<close> by file and open
  file, of all processes (with \<open>True\<close> for exclusive), and the record locks: file, process, type, and the range
  from the first byte to the one after the last. Process 1 makes the calls.
\<close>

record ltab =
  fdt :: "(int \<times> string \<times> nat) list"
  held :: "((string \<times> nat) \<times> bool) list"
  recs :: "(string \<times> int \<times> lktype \<times> int \<times> int) list"
  fresh :: nat

definition ltab_open :: "string \<Rightarrow> bool \<Rightarrow> (ltab, int) kcall" where
  "ltab_open name wr k = (Inr (int (fresh k)),
     k\<lparr>fdt := (int (fresh k), name, fresh k) # fdt k, fresh := Suc (fresh k)\<rparr>)"

definition ltab_dup :: "int \<Rightarrow> (ltab, int) kcall" where
  "ltab_dup fd k = (case map_of (fdt k) fd of None \<Rightarrow> (Inl EBADF, k)
     | Some f \<Rightarrow> (Inr (int (fresh k)), k\<lparr>fdt := (int (fresh k), f) # fdt k, fresh := Suc (fresh k)\<rparr>))"

definition drop_key :: "'a \<Rightarrow> ('a \<times> 'b) list \<Rightarrow> ('a \<times> 'b) list" where
  "drop_key x = filter (\<lambda>(y, _). y \<noteq> x)"

definition ltab_close :: "int \<Rightarrow> (ltab, int) kcall" where
  "ltab_close fd k = (case map_of (fdt k) fd of None \<Rightarrow> (Inl EBADF, k)
     | Some (name, f) \<Rightarrow>
         let rest = drop_key fd (fdt k) in
         (Inr 0, k\<lparr>fdt := rest,
            held := (if \<exists>x\<in>set rest. map_of rest (fst x) = Some (name, f) then held k else drop_key (name, f) (held k)),
            recs := filter (\<lambda>(n, p, _). \<not> (n = name \<and> p = 1)) (recs k)\<rparr>))"

definition ltab_flock :: "int \<Rightarrow> lkop \<Rightarrow> bool \<Rightarrow> (ltab, int) kcall" where
  "ltab_flock fd op nb k = (case map_of (fdt k) fd of None \<Rightarrow> (Inl EBADF, k)
     | Some (name, f) \<Rightarrow>
         let mine = drop_key (name, f) (held k); others = filter (\<lambda>x. fst (fst x) = name) mine in
         (case op of
            LOCK_UN \<Rightarrow> (Inr 0, k\<lparr>held := mine\<rparr>)
          | LOCK_EX \<Rightarrow> if others = [] then (Inr 0, k\<lparr>held := ((name, f), True) # mine\<rparr>) else (Inl EWOULDBLOCK, k)
          | LOCK_SH \<Rightarrow> if \<exists>x\<in>set others. snd x then (Inl EWOULDBLOCK, k)
                       else (Inr 0, k\<lparr>held := ((name, f), False) # mine\<rparr>)))"

text \<open>Record locks: what is left of a range when another one is cut out, and the calls.\<close>

definition off_max :: int where "off_max = 2 ^ 63 - 1"

definition cut :: "int \<Rightarrow> int \<Rightarrow> int \<Rightarrow> int \<Rightarrow> (int \<times> int) list" where
  "cut a b c d = filter (\<lambda>(x, y). x < y) [(a, min b c), (max a d, b)]"

definition conflicts :: "string \<Rightarrow> lktype \<Rightarrow> int \<Rightarrow> int \<Rightarrow> (string \<times> int \<times> lktype \<times> int \<times> int) \<Rightarrow> bool" where
  "conflicts name ty c d e = (case e of (n, p, t, a, b) \<Rightarrow>
     n = name \<and> p \<noteq> 1 \<and> ty \<noteq> F_UNLCK \<and> (t = F_WRLCK \<or> ty = F_WRLCK) \<and> a < d \<and> c < b)"

definition carve :: "string \<Rightarrow> int \<Rightarrow> int \<Rightarrow> (string \<times> int \<times> lktype \<times> int \<times> int) \<Rightarrow>
    (string \<times> int \<times> lktype \<times> int \<times> int) list" where
  "carve name c d e = (case e of (n, p, t, a, b) \<Rightarrow>
     if n = name \<and> p = 1 then map (\<lambda>(x, y). (n, p, t, x, y)) (cut a b c d) else [e])"

definition ltab_fcntl :: "int \<Rightarrow> lkcmd \<Rightarrow> flock_req \<Rightarrow> (ltab, flock_req) kcall" where
  "ltab_fcntl fd cmd req k = (case map_of (fdt k) fd of None \<Rightarrow> (Inl EBADF, k)
     | Some (name, f) \<Rightarrow>
         let c = l_start req; d = (if l_len req = 0 then off_max else c + l_len req);
             bad = filter (conflicts name (l_type req) c d) (recs k) in
         if c < 0 \<or> d < c then (Inl EINVAL, k)
         else if cmd = F_GETLK then
           (Inr (case bad of [] \<Rightarrow> req\<lparr>l_type := F_UNLCK\<rparr>
                 | (n, p, t, a, b) # _ \<Rightarrow> req\<lparr>l_type := t, l_start := a, l_len := b - a, l_pid := p\<rparr>), k)
         else if bad \<noteq> [] then (Inl (if cmd = F_SETLK then EAGAIN else EINTR), k)
         else (Inr req, k\<lparr>recs := (if l_type req = F_UNLCK then [] else [(name, 1, l_type req, c, d)])
                             @ concat (map (carve name c d) (recs k))\<rparr>))"

definition ltab_os :: "ltab lock_os" where
  "ltab_os = \<lparr>k_open = ltab_open, k_dup = ltab_dup, k_close = ltab_close, k_fcntl = ltab_fcntl,
     k_flock = ltab_flock, k_pid = 1\<rparr>"

definition no_locks :: ltab where
  "no_locks = \<lparr>fdt = [], held = [], recs = [], fresh = 3\<rparr>"

definition only_mine :: "string \<Rightarrow> ltab \<Rightarrow> bool" where
  "only_mine name k \<longleftrightarrow> (\<forall>(n, p, _)\<in>set (recs k). n = name \<longrightarrow> p = 1) \<and> (\<forall>(fd, _)\<in>set (fdt k). fd < int (fresh k))"

definition fd_open :: "int \<Rightarrow> string \<Rightarrow> ltab \<Rightarrow> bool" where
  "fd_open fd name k \<longleftrightarrow> fd < int (fresh k) \<and> (\<exists>f. map_of (fdt k) fd = Some (name, f))"

lemma carve_mine: "x \<in> set (carve name c d e) \<Longrightarrow> fst x = fst e \<and> fst (snd x) = fst (snd e)"
  by (cases e) (auto simp: carve_def split: if_splits)

lemma fd_new: "only_mine name k \<Longrightarrow> map_of (fdt k) (int (fresh k)) = None"
  by (auto simp: only_mine_def map_of_eq_None_iff)

lemma no_conflict: "only_mine name k \<Longrightarrow> filter (conflicts name ty c d) (recs k) = []"
  by (force simp: only_mine_def conflicts_def filter_empty_conv)

interpretation reclk: record_locks ltab_os only_mine fd_open
proof
  fix name :: string and k :: ltab and fd :: int and req :: flock_req
  assume a: "only_mine name k" "fd_open fd name k" "0 \<le> l_start req" "0 < l_len req"
  let ?c = "l_start req" and ?d = "l_start req + l_len req"
  let ?k = "k\<lparr>recs := (if l_type req = F_UNLCK then [] else [(name, 1, l_type req, ?c, ?d)])
              @ concat (map (carve name ?c ?d) (recs k))\<rparr>"
  have "only_mine name ?k"
    using a(1) carve_mine [of _ name ?c ?d] by (fastforce simp: only_mine_def)
  moreover have "k_fcntl ltab_os fd F_SETLK req k = (Inr req, ?k)"
    using a no_conflict [OF a(1), of "l_type req" ?c ?d]
    by (auto simp: ltab_os_def ltab_fcntl_def fd_open_def Let_def)
  moreover have "\<forall>f. fd_open f name k \<longrightarrow> fd_open f name ?k" by (simp add: fd_open_def)
  ultimately show "\<exists>r k'. k_fcntl ltab_os fd F_SETLK req k = (Inr r, k') \<and> only_mine name k'
      \<and> (\<forall>f. fd_open f name k \<longrightarrow> fd_open f name k')" by blast
next
  fix name :: string and k :: ltab and fd :: int
  show "\<exists>r k'. k_dup ltab_os fd k = (r, k') \<and> (only_mine name k \<longrightarrow> only_mine name k')
      \<and> (\<forall>f. fd_open f name k \<longrightarrow> fd_open f name k')"
    by (auto simp: ltab_os_def ltab_dup_def only_mine_def fd_open_def split: option.splits)
next
  fix name :: string and k :: ltab
  assume "only_mine name k"
  then show "\<exists>fd k'. k_open ltab_os name True k = (Inr fd, k') \<and> fd \<noteq> -1 \<and> only_mine name k'
      \<and> fd_open fd name k' \<and> (\<forall>f. fd_open f name k \<longrightarrow> fd_open f name k')"
    by (auto simp: ltab_os_def ltab_open_def only_mine_def fd_open_def)
qed

text \<open>
  Record locks belong to the process: when no other process has locked the file,
  \<open>_otherTest\<close> of \<open>io/file_lock/fcntl\<close> gets the write lock on the first ten bytes through
  both of its descriptors, and reports both as succeeded.
\<close>

lemma fcntl_twice_succeeds:
  assumes "record_locks os free_for opened" and "free_for name (kern s)"
  shows "\<exists>fd1 fd2 s'. run_state (fcntl_otherTest os name) s = (0, s')
    \<and> outs s' = outs s @ [Printf ''open file twice test begin...\<newline>'' []]
      @ map (\<lambda>fd. Printf ''pid: %ld fcntl: %s-%s for %d: %s[%d+%ld] succeeded\<newline>''
          [FInt (k_pid os), FStr ''F_SETLK'', FStr ''F_WRLCK'', FInt fd, FStr ''SEEK_SET'', FInt 0, FInt 10]) [fd1, fd2]
      @ [Printf ''open file twice test finish...\<newline>'' []]"
  using record_locks.otherTest_succeeds [OF assms] by blast

text \<open>The laws of \<open>flock\<close>: numbers of descriptors and open files are below the next new one.\<close>

definition ltab_wf :: "ltab \<Rightarrow> bool" where
  "ltab_wf k \<longleftrightarrow> (\<forall>(fd, _, f) \<in> set (fdt k). fd < int (fresh k) \<and> f < fresh k) \<and> (\<forall>((_, f), _) \<in> set (held k). f < fresh k)"

lemma map_of_drop_key: "map_of (drop_key x xs) = (map_of xs)(x := None)"
  by (induction xs) (auto simp: drop_key_def fun_eq_iff)

lemma ltab_wf_fds: "ltab_wf k \<Longrightarrow> map_of (fdt k) fd = Some (m, f) \<Longrightarrow> fd < int (fresh k) \<and> f < fresh k"
  by (auto simp: ltab_wf_def dest!: map_of_SomeD)

lemma ltab_wf_held: "ltab_wf k \<Longrightarrow> map_of (held k) (m, f) = Some b \<Longrightarrow> f < fresh k"
  by (auto simp: ltab_wf_def dest!: map_of_SomeD)

lemma still_open: "(\<exists>x \<in> set xs. map_of xs (fst x) = Some y) \<longleftrightarrow> (\<exists>g. map_of xs g = Some y)"
  by (metis fst_conv map_of_SomeD)

lemma no_others:
  "filter (\<lambda>x. fst (fst x) = m) xs = [] \<longleftrightarrow> (\<forall>g. map_of xs (m, g) = None)"
  by (force simp: filter_empty_conv map_of_eq_None_iff)

lemma ltab_wf_held_cons: "ltab_wf k \<Longrightarrow> f < fresh k \<Longrightarrow> ltab_wf (k\<lparr>held := ((m, f), b) # drop_key x (held k)\<rparr>)"
  by (auto simp: ltab_wf_def drop_key_def)

interpretation flk: flock_kernel ltab_os "\<lambda>k. map_of (fdt k)" "\<lambda>k. map_of (held k)" "\<lambda>n name k. ltab_wf k"
proof
  fix n :: nat and name :: string and k :: ltab
  assume wf: "ltab_wf k"
  have "map_of (fdt k) (int (fresh k)) = None" using ltab_wf_fds [OF wf, of "int (fresh k)"]
    by (cases "map_of (fdt k) (int (fresh k))") auto
  moreover have "map_of (fdt k) g \<noteq> Some (m, fresh k)" for g m using ltab_wf_fds [OF wf, of g m "fresh k"] by auto
  moreover have "map_of (held k) (m, fresh k) = None" for m using ltab_wf_held [OF wf, of m "fresh k"]
    by (cases "map_of (held k) (m, fresh k)") auto
  ultimately show "\<exists>fd f k'. k_open ltab_os name True k = (Inr fd, k') \<and> 0 \<le> fd \<and> map_of (fdt k) fd = None
      \<and> (\<forall>g m. map_of (fdt k) g \<noteq> Some (m, f)) \<and> (\<forall>m. map_of (held k) (m, f) = None)
      \<and> map_of (fdt k') = (map_of (fdt k))(fd \<mapsto> (name, f)) \<and> map_of (held k') = map_of (held k) \<and> ltab_wf k'"
    using wf by (intro exI [of _ "int (fresh k)"] exI [of _ "fresh k"] exI [of _ "snd (ltab_open name True k)"])
      (auto simp: ltab_os_def ltab_open_def ltab_wf_def)
next
  fix n :: nat and name :: string and k :: ltab and fd :: int and x
  assume wf: "ltab_wf k" and x: "map_of (fdt k) fd = Some x"
  have "map_of (fdt k) (int (fresh k)) = None" using ltab_wf_fds [OF wf, of "int (fresh k)"]
    by (cases "map_of (fdt k) (int (fresh k))") auto
  then show "\<exists>fd' k'. k_dup ltab_os fd k = (Inr fd', k') \<and> 0 \<le> fd' \<and> map_of (fdt k) fd' = None
      \<and> map_of (fdt k') = (map_of (fdt k))(fd' \<mapsto> x) \<and> map_of (held k') = map_of (held k)"
    using x by (simp add: ltab_os_def ltab_dup_def)
next
  fix k :: ltab and fd :: int and x :: "string \<times> nat"
  assume "map_of (fdt k) fd = Some x"
  then show "\<exists>k'. k_close ltab_os fd k = (Inr 0, k') \<and> map_of (fdt k') = (map_of (fdt k))(fd := None)
      \<and> map_of (held k') = (if \<exists>g. g \<noteq> fd \<and> map_of (fdt k) g = Some x then map_of (held k) else (map_of (held k))(x := None))"
    by (auto simp: ltab_os_def ltab_close_def Let_def map_of_drop_key still_open split: prod.splits)
next
  fix k :: ltab and fd :: int and m f n name
  assume a: "map_of (fdt k) fd = Some (m, f)" "map_of (held k) (m, f) = None"
  have o: "filter (\<lambda>x. fst (fst x) = m) (drop_key (m, f) (held k)) = [] \<longleftrightarrow> (\<forall>g. map_of (held k) (m, g) = None)"
    unfolding no_others map_of_drop_key using a(2) by (metis fun_upd_idem)
  show "\<exists>r k'. k_flock ltab_os fd LOCK_EX True k = (r, k') \<and> map_of (fdt k') = map_of (fdt k) \<and> (ltab_wf k \<longrightarrow> ltab_wf k')
      \<and> (if \<forall>g. map_of (held k) (m, g) = None then r = Inr 0 \<and> map_of (held k') = (map_of (held k))((m, f) \<mapsto> True)
         else r = Inl EWOULDBLOCK \<and> map_of (held k') = map_of (held k))"
    using a ltab_wf_fds [of k fd m f] ltab_wf_held_cons [of k f m True "(m, f)"]
    by (simp add: ltab_os_def ltab_flock_def Let_def o map_of_drop_key fun_upd_idem)
next
  fix k :: ltab and fd :: int and x :: "string \<times> nat"
  assume "map_of (fdt k) fd = Some x"
  then show "\<exists>k'. k_flock ltab_os fd LOCK_UN False k = (Inr 0, k') \<and> map_of (fdt k') = map_of (fdt k)
      \<and> map_of (held k') = (map_of (held k))(x := None)"
    by (cases x) (simp add: ltab_os_def ltab_flock_def Let_def map_of_drop_key)
qed

text \<open>
  C25. Locks of \<open>flock\<close> belong to the open file. On every kernel that follows \<open>flock(2)\<close>, with the file
  there and room for three descriptors, from any state of the descriptors and of the locks of all
  processes: \<open>_otherTest\<close> of \<open>io/file_lock/flock\<close> fails at its first \<open>flock\<close> when another open file of
  this file has a lock, and then returns -1; otherwise it returns 0 and its second \<open>flock\<close> fails with
  \<open>EWOULDBLOCK\<close> exactly when the first lock was given up neither through the duplicate nor by closing:
  closing the only descriptor of the open file releases the lock, whatever the message
  \<open>close fd1, will not unlock fd1\<close> says. It leaves every descriptor and every lock as it was.
\<close>

theorem flock_otherTest_outcome:
  assumes "flock_kernel os fds lk room" and "room 3 name (kern s)"
  shows "\<exists>s'. run_state (flock_otherTest os name testDup testClose) s
      = (if \<forall>g. lk (kern s) (name, g) = None then 0 else -1, s')
    \<and> fds (kern s') = fds (kern s) \<and> lk (kern s') = lk (kern s)
    \<and> last (outs s') = (if (\<forall>g. lk (kern s) (name, g) = None) \<and> (testDup \<or> testClose) then Printf ''flock fd2 ok\<newline>'' []
         else Printf ''flock fd2 failed, errno is %d\<newline>'' [FInt EWOULDBLOCK])"
  using assms by (rule flock_kernel.otherTest_run)

text \<open>A table in which another process has locked the file \<open>b\<close>.\<close>

definition b_locked :: ltab where
  "b_locked = \<lparr>fdt = [], held = [((''b'', 1), True)], recs = [], fresh = 3\<rparr>"

theorem flock_otherTest_outcome_witness:
  "(\<exists>s'. run_state (flock_otherTest ltab_os ''a'' False True) \<lparr>kern = b_locked, errno = 0, outs = []\<rparr> = (0, s')
      \<and> last (outs s') = Printf ''flock fd2 ok\<newline>'' [])
    \<and> (\<exists>s'. run_state (flock_otherTest ltab_os ''b'' False True) \<lparr>kern = b_locked, errno = 0, outs = []\<rparr> = (-1, s'))"
proof -
  have wf: "ltab_wf b_locked" by (simp add: ltab_wf_def b_locked_def)
  have "(\<forall>g. map_of (held b_locked) (''a'', g) = None) = True" "(\<forall>g. map_of (held b_locked) (''b'', g) = None) = False"
    by (auto simp: b_locked_def)
  then show ?thesis
    using flock_otherTest_outcome [OF flk.flock_kernel_axioms, of "\<lparr>kern = b_locked, errno = 0, outs = []\<rparr>" "''a''" False True]
      flock_otherTest_outcome [OF flk.flock_kernel_axioms, of "\<lparr>kern = b_locked, errno = 0, outs = []\<rparr>" "''b''" False True] wf
    by (simp only: proc.select_convs if_True if_False simp_thms) blast
qed

end
