(* ===== verification/Sysv_Sem.thy ===== *)
theory Sysv_Sem
  imports C_Prelude
begin

text \<open>
  The System V semaphore demo, \<open>process/system-v-ipc/semaphore/main.c\<close>: creating or opening
  the semaphore with the \<open>sem_otime\<close> protocol, waiting, posting and the trial wait. The calls
  are the record \<open>ipc_os\<close>. \<open>sets_os\<close> is a kernel with one semaphore set per key, in which
  another process may be between creating and initialising the set.
\<close>

section \<open>The program\<close>

text \<open>
  \<open>semget\<close> (with \<open>True\<close> for \<open>IPC_CREAT | IPC_EXCL\<close>), \<open>semctl\<close> with \<open>SETVAL\<close>, \<open>GETVAL\<close> and
  \<open>IPC_STAT\<close> (the \<open>sem_otime\<close>), \<open>semop\<close> with one operation (and \<open>SEM_UNDO\<close> or not), and
  the passing of a second.
\<close>

record 'k ipc_os =
  i_semget :: "bool \<Rightarrow> ('k, int) kcall"
  i_setval :: "int \<Rightarrow> int \<Rightarrow> ('k, int) kcall"
  i_getval :: "int \<Rightarrow> ('k, int) kcall"
  i_otime :: "int \<Rightarrow> ('k, int) kcall"
  i_semop :: "int \<Rightarrow> int \<Rightarrow> bool \<Rightarrow> ('k, int) kcall"
  i_sleep :: "'k \<Rightarrow> 'k"

definition sleep1 :: "'k ipc_os \<Rightarrow> ('k, unit) io" where
  "sleep1 os = State (\<lambda>s. ((), s\<lparr>kern := i_sleep os (kern s)\<rparr>))"

lemma run_sleep1 [io_simps]: "run_state (sleep1 os) s = ((), s\<lparr>kern := i_sleep os (kern s)\<rparr>)"
  by (simp add: sleep1_def)

text \<open>
  The loop of lines 69 to 84: at most \<open>n\<close> looks at \<open>sem_otime\<close>, a second apart. The result
  is the last \<open>sem_otime\<close> seen (\<open>last\<close> is the one before, at first uninitialised), or
  \<open>None\<close> when \<open>semctl\<close> failed.
\<close>

fun wait_otime :: "'k ipc_os \<Rightarrow> int \<Rightarrow> nat \<Rightarrow> int \<Rightarrow> ('k, int option) io" where
  "wait_otime os semId 0 seen = ret (Some seen)"
| "wait_otime os semId (Suc n) seen = do {
     r \<leftarrow> sysopt (i_otime os semId);
     case r of
       None \<Rightarrow> do {
         e \<leftarrow> get_errno;
         _ \<leftarrow> printf ''semctl failed, errno is %d\<newline>'' [FInt e];
         ret None }
     | Some t \<Rightarrow>
         if t \<noteq> 0 then ret (Some t)
         else do { _ \<leftarrow> sleep1 os; wait_otime os semId n t } }"

text \<open>\<open>_semCreateOrGet\<close>: the identifier and \<open>createNew\<close>.\<close>

definition sem_create :: "'k ipc_os \<Rightarrow> int \<Rightarrow> ('k, int) io" where
  "sem_create os semId = do {
     _ \<leftarrow> printf ''create an new sem succeeded\<newline>'' [];
     r \<leftarrow> sys (i_setval os semId 0);
     if r = -1 then do {
       e \<leftarrow> get_errno;
       _ \<leftarrow> printf ''semctl failed, errno: %d\<newline>'' [FInt e];
       ret (-1) }
     else do {
       r \<leftarrow> sys (i_semop os semId 1 False);
       if r = -1 then do {
         e \<leftarrow> get_errno;
         _ \<leftarrow> printf ''semop failed, errno: %d\<newline>'' [FInt e];
         ret (-1) }
       else ret semId } }"

definition sem_get :: "'k ipc_os \<Rightarrow> int \<Rightarrow> ('k, int) io" where
  "sem_get os junk = do {
     e \<leftarrow> get_errno;
     if e \<noteq> EEXIST then do {
       _ \<leftarrow> printf ''semget failed, errno is %d\<newline>'' [FInt e];
       ret (-1) }
     else do {
       _ \<leftarrow> printf ''open an existing sem\<newline>'' [];
       semId \<leftarrow> sys (i_semget os False);
       if semId = -1 then do {
         e \<leftarrow> get_errno;
         _ \<leftarrow> printf ''semget failed, errno is %d\<newline>'' [FInt e];
         ret (-1) }
       else do {
         r \<leftarrow> wait_otime os semId 3 junk;
         case r of
           None \<Rightarrow> ret (-1)
         | Some t \<Rightarrow>
             if t = 0 then do {
               _ \<leftarrow> printf ''existing semaphore not initialized\<newline>'' [];
               ret (-1) }
             else ret semId } } }"

definition semCreateOrGet :: "'k ipc_os \<Rightarrow> int \<Rightarrow> ('k, int \<times> bool) io" where
  "semCreateOrGet os junk = do {
     semId \<leftarrow> sys (i_semget os True);
     if semId \<noteq> -1 then do { r \<leftarrow> sem_create os semId; ret (r, True) }
     else do { r \<leftarrow> sem_get os junk; ret (r, False) } }"

text \<open>\<open>_showSemValue\<close>, \<open>_semValue\<close>, \<open>_semWait\<close>, \<open>_trySemWait\<close> and \<open>_semPost\<close>.\<close>

definition showSemValue :: "'k ipc_os \<Rightarrow> int \<Rightarrow> ('k, unit) io" where
  "showSemValue os semId = do {
     r \<leftarrow> sys (i_getval os semId);
     if r = -1 then do { e \<leftarrow> get_errno; printf ''semctl failed, errno is %d\<newline>'' [FInt e] }
     else printf ''sem value is %d\<newline>'' [FInt r] }"

definition semValue :: "'k ipc_os \<Rightarrow> int \<Rightarrow> ('k, int) io" where
  "semValue os semId = do {
     r \<leftarrow> sys (i_getval os semId);
     _ \<leftarrow> (if r = -1 then do { e \<leftarrow> get_errno; printf ''semctl failed, errno is %d\<newline>'' [FInt e] } else ret ());
     ret r }"

definition semWait :: "'k ipc_os \<Rightarrow> int \<Rightarrow> ('k, bool) io" where
  "semWait os semId = do {
     r \<leftarrow> sys (i_semop os semId (-1) True);
     if r = -1 then do {
       e \<leftarrow> get_errno;
       _ \<leftarrow> printf ''semop failed, errno: %d\<newline>'' [FInt e];
       ret False }
     else do {
       v \<leftarrow> semValue os semId;
       _ \<leftarrow> printf ''after %s sem value is %d\<newline>'' [FStr ''_semWait'', FInt v];
       ret True } }"

definition trySemWait :: "'k ipc_os \<Rightarrow> int \<Rightarrow> ('k, bool) io" where
  "trySemWait os semId = do {
     r \<leftarrow> sys (i_getval os semId);
     if r = -1 then do {
       e \<leftarrow> get_errno;
       _ \<leftarrow> printf ''semctl failed, errno is %d\<newline>'' [FInt e];
       ret False }
     else do {
       v \<leftarrow> semValue os semId;
       _ \<leftarrow> printf ''%s return %s, sem value is %d\<newline>''
              [FStr ''_trySemWait'', FStr (if r > 0 then ''true'' else ''false''), FInt v];
       ret (r > 1) } }"

definition semPost :: "'k ipc_os \<Rightarrow> int \<Rightarrow> ('k, bool) io" where
  "semPost os semId = do {
     r \<leftarrow> sys (i_semop os semId 1 True);
     if r = -1 then do {
       e \<leftarrow> get_errno;
       _ \<leftarrow> printf ''semop(+1) for post failed, errno: %d\<newline>'' [FInt e];
       ret False }
     else do {
       v \<leftarrow> semValue os semId;
       _ \<leftarrow> printf ''after %s sem value is %d\<newline>'' [FStr ''_semPost'', FInt v];
       ret True } }"

definition sysv_sem_main :: "'k ipc_os \<Rightarrow> int \<Rightarrow> ('k, int) io" where
  "sysv_sem_main os junk = do {
     (semId, createNew) \<leftarrow> semCreateOrGet os junk;
     if semId = -1 then do {
       e \<leftarrow> get_errno;
       _ \<leftarrow> printf ''semId == -1, errno is %d\<newline>'' [FInt e];
       ret (-1) }
     else do {
       v \<leftarrow> semValue os semId;
       _ \<leftarrow> printf ''sem value is %d\<newline>'' [FInt v];
       _ \<leftarrow> semWait os semId;
       _ \<leftarrow> semPost os semId;
       _ \<leftarrow> semWait os semId;
       _ \<leftarrow> trySemWait os semId;
       ret 0 } }"

section \<open>The initialisation protocol\<close>

text \<open>
  A new set has a \<open>sem_otime\<close> of 0, and the first \<open>semop\<close> changes that. \<open>inited\<close> holds from
  the first \<open>semop\<close> on, whatever is done to the set.
\<close>

locale otime_protocol =
  fixes os :: "'k ipc_os" and inited :: "'k \<Rightarrow> bool"
  assumes otime_inited: "i_otime os i k = (Inr t, k') \<Longrightarrow> t \<noteq> 0 \<Longrightarrow> inited k'"
    and semop_inits: "i_semop os i n u k = (Inr v, k') \<Longrightarrow> inited k'"
begin

text \<open>The loop ends with a \<open>sem_otime\<close> that is not 0 only in an initialised state.\<close>

lemma wait_otime_inited:
  "run_state (wait_otime os semId n seen) s = (Some t, s') \<Longrightarrow> 0 < n \<Longrightarrow> t \<noteq> 0 \<Longrightarrow> inited (kern s')"
proof (induction n arbitrary: seen s)
  case (Suc n)
  obtain r k' where o: "i_otime os semId (kern s) = (r, k')" by (cases "i_otime os semId (kern s)")
  show ?case
  proof (cases r)
    case (Inl e)
    with Suc.prems o show ?thesis by (simp add: io_simps)
  next
    case (Inr t0)
    with Suc o show ?thesis
      by (cases "t0 = 0"; cases "n = 0") (auto simp: io_simps intro: otime_inited)
  qed
qed simp

lemma sem_get_inited:
  "run_state (sem_get os junk) s = (semId, s') \<Longrightarrow> semId \<noteq> -1 \<Longrightarrow> inited (kern s')"
proof -
  assume run: "run_state (sem_get os junk) s = (semId, s')" and ok: "semId \<noteq> -1"
  obtain r k' where g: "i_semget os False (kern s) = (r, k')" by (cases "i_semget os False (kern s)")
  from run ok g obtain i where r: "r = Inr i" and e: "errno s = EEXIST"
    by (cases r) (auto simp: sem_get_def io_simps split: if_splits)
  let ?s = "s\<lparr>outs := outs s @ [Printf ''open an existing sem\<newline>'' []], kern := k'\<rparr>"
  obtain t u where w: "run_state (wait_otime os i 3 junk) ?s = (t, u)"
    by (cases "run_state (wait_otime os i 3 junk) ?s")
  from run ok g r e w obtain v where "t = Some v" "v \<noteq> 0" "s' = u"
    by (cases t) (auto simp: sem_get_def io_simps split: if_splits)
  with wait_otime_inited [of i 3 junk ?s v u] w show ?thesis by simp
qed

lemma sem_create_inited:
  "run_state (sem_create os i) s = (semId, s') \<Longrightarrow> semId \<noteq> -1 \<Longrightarrow> inited (kern s')"
  by (auto simp: sem_create_def io_simps split: prod.splits sum.splits if_splits intro: semop_inits)

lemma createOrGet_inited:
  "run_state (semCreateOrGet os junk) s = ((semId, new), s') \<Longrightarrow> semId \<noteq> -1 \<Longrightarrow> inited (kern s')"
  by (auto simp: semCreateOrGet_def io_simps split: prod.splits sum.splits if_splits
      intro: sem_get_inited sem_create_inited)

end

section \<open>A kernel with one semaphore\<close>

text \<open>
  Whether the set exists, its value and \<open>sem_otime\<close>, and the seconds until the process that
  made it does its first \<open>semop\<close>, when that is another one. An operation that would have to
  wait is interrupted.
\<close>

record semset =
  made :: bool
  val :: int
  otime :: int
  init_in :: nat

definition set_semop :: "int \<Rightarrow> int \<Rightarrow> bool \<Rightarrow> (semset, int) kcall" where
  "set_semop i n u k = (if \<not> made k then (Inl EINVAL, k)
     else if val k + n < 0 then (Inl EINTR, k)
     else (Inr 0, k\<lparr>val := val k + n, otime := 1\<rparr>))"

definition set_sleep :: "semset \<Rightarrow> semset" where
  "set_sleep k = (if made k \<and> otime k = 0 then
      if init_in k \<le> 1 then k\<lparr>val := 1, otime := 1\<rparr> else k\<lparr>init_in := init_in k - 1\<rparr>
    else k)"

definition sets_os :: "semset ipc_os" where
  "sets_os = \<lparr>i_semget = (\<lambda>excl k. if excl then if made k then (Inl EEXIST, k) else (Inr 7, k\<lparr>made := True, val := 0, otime := 0\<rparr>)
                 else if made k then (Inr 7, k) else (Inl ENOENT, k)),
     i_setval = (\<lambda>i v k. if made k then (Inr 0, k\<lparr>val := v\<rparr>) else (Inl EINVAL, k)),
     i_getval = (\<lambda>i k. if made k then (Inr (val k), k) else (Inl EINVAL, k)),
     i_otime = (\<lambda>i k. if made k then (Inr (otime k), k) else (Inl EINVAL, k)),
     i_semop = set_semop, i_sleep = set_sleep\<rparr>"

interpretation sets: otime_protocol sets_os "\<lambda>k. otime k \<noteq> 0"
  by unfold_locales (auto simp: sets_os_def set_semop_def split: if_splits)

lemma created_run:
  "\<not> made k \<Longrightarrow> run_state (semCreateOrGet sets_os junk) \<lparr>kern = k, errno = e, outs = out\<rparr>
     = ((7, True), \<lparr>kern = k\<lparr>made := True, val := 1, otime := 1\<rparr>, errno = e,
          outs = out @ [Printf ''create an new sem succeeded\<newline>'' []]\<rparr>)"
  by (simp add: semCreateOrGet_def sem_create_def io_simps sets_os_def set_semop_def)

text \<open>
  C7. \<open>_semCreateOrGet\<close> never hands out a semaphore that is not initialised: when it returns an
  identifier, as creator or as opener, the first \<open>semop\<close> on the set has been done, so the
  creator's \<open>SETVAL\<close> cannot come later. It relies only on the \<open>sem_otime\<close> of the kernel.
\<close>

theorem semCreateOrGet_initialised:
  assumes "otime_protocol os inited"
    and "run_state (semCreateOrGet os junk) s = ((semId, new), s')" and "semId \<noteq> -1"
  shows "inited (kern s')"
  using otime_protocol.createOrGet_inited [OF assms] .

theorem semCreateOrGet_initialised_witness:
  "\<exists>s'. run_state (semCreateOrGet sets_os 0)
        \<lparr>kern = \<lparr>made = False, val = 5, otime = 0, init_in = 0\<rparr>, errno = 0, outs = []\<rparr> = ((7, True), s')
      \<and> otime (kern s') \<noteq> 0"
  using created_run [of "\<lparr>made = False, val = 5, otime = 0, init_in = 0\<rparr>" 0 0 "[]"]
    semCreateOrGet_initialised [OF sets.otime_protocol_axioms,
      of 0 "\<lparr>kern = \<lparr>made = False, val = 5, otime = 0, init_in = 0\<rparr>, errno = 0, outs = []\<rparr>" 7 True]
  by auto

text \<open>
  An opener gives a slow creator three looks, two seconds: it opens a set that is initialised
  within two seconds, and reports any slower one as not initialised.
\<close>

lemma sem_get_patience:
  "fst (run_state (semCreateOrGet sets_os junk)
      \<lparr>kern = \<lparr>made = True, val = 0, otime = 0, init_in = Suc d\<rparr>, errno = e, outs = []\<rparr>)
     = (if Suc d \<le> 2 then 7 else -1, False)"
  by (simp add: semCreateOrGet_def sem_get_def io_simps sets_os_def set_sleep_def numeral_eq_Suc errno_defs)

text \<open>
  \<open>_trySemWait\<close> neither waits nor agrees with its own message. For every value \<open>v\<close> of the
  semaphore it leaves the kernel unchanged, prints \<open>true\<close> when \<open>v\<close> is positive and returns
  true only when \<open>v\<close> is more than 1.
\<close>

lemma trySemWait_only_looks:
  assumes "i_getval os semId (kern s) = (Inr v, kern s)" and "v \<noteq> -1"
  shows "run_state (trySemWait os semId) s =
    (1 < v, s\<lparr>outs := outs s @ [Printf ''%s return %s, sem value is %d\<newline>''
        [FStr ''_trySemWait'', FStr (if 0 < v then ''true'' else ''false''), FInt v]]\<rparr>)"
  using assms by (simp add: trySemWait_def semValue_def io_simps)

end
