(* ===== verification/Shm_Counter.thy ===== *)
theory Shm_Counter
  imports C_Prelude
begin

text \<open>
  The shared memory counters: \<open>process/posix-ipc/shared-memory/main.c\<close> and
  \<open>process/system-v-ipc/shared-memory/main.c\<close>. Any number of processes run the program; the first
  creates the segment, the others open it, and each adds to a number in it with an atomic
  instruction. A step is one call or one atomic access of one process. The flag \<open>sv\<close> chooses the
  program: the POSIX one creates an empty object, sizes it with \<open>ftruncate\<close> and stores 0 in it; the
  System V one gets its segment sized and zeroed, and every process removes it at the end. The
  number is a C \<open>int\<close>: the atomic addition wraps at 32 bits. Every call can fail where the code
  has a branch for it or ignores the failure: the exclusive open, the second open, \<open>ftruncate\<close>
  (whose result is not looked at) and the mapping. A removed segment may still be mapped by a
  process that has its identifier or descriptor. Messages are left out.
\<close>

section \<open>State and steps\<close>

record segment =
  sized :: bool
  number :: "32 word"

text \<open>
  Places of a process: before the exclusive open, before the second open, before \<open>ftruncate\<close>,
  before the mapping, before the store of 0, in the counting loop, before the removal of the
  name, at the end; after an error; killed by \<open>SIGBUS\<close>. The flag is \<open>createNew\<close>.
\<close>

datatype spc = SOpen | SReopen | STrunc nat | SMap nat bool | SSet nat | SAdd nat bool nat
  | SUnlink nat bool | SDone | SFail | SBus

text \<open>
  The object the name refers to, the objects, and the processes. \<open>adds\<close> counts the increments
  of an object and \<open>lost\<close> those that a later store of 0 has wiped out.
\<close>

record shm_sys =
  name :: "nat option"
  seg :: "nat \<Rightarrow> segment"
  fresh :: nat
  spc :: "nat \<Rightarrow> spc"
  adds :: "nat \<Rightarrow> nat"
  lost :: "nat \<Rightarrow> nat"

definition goto :: "nat \<Rightarrow> spc \<Rightarrow> shm_sys \<Rightarrow> shm_sys" where
  "goto i p s = s\<lparr>spc := (spc s)(i := p)\<rparr>"

definition set_seg :: "nat \<Rightarrow> segment \<Rightarrow> shm_sys \<Rightarrow> shm_sys" where
  "set_seg x g s = s\<lparr>seg := (seg s)(x := g)\<rparr>"

inductive shm_step :: "bool \<Rightarrow> nat \<Rightarrow> shm_sys \<Rightarrow> shm_sys \<Rightarrow> bool" for sv :: bool and N :: nat where
  create: "spc s i = SOpen \<Longrightarrow> name s = None \<Longrightarrow>
    shm_step sv N s (goto i (if sv then SMap (fresh s) True else STrunc (fresh s))
      (set_seg (fresh s) \<lparr>sized = sv, number = 0\<rparr> (s\<lparr>name := Some (fresh s), fresh := Suc (fresh s)\<rparr>)))"
| exists: "spc s i = SOpen \<Longrightarrow> name s \<noteq> None \<Longrightarrow> shm_step sv N s (goto i SReopen s)"
| open_fails: "spc s i = SOpen \<Longrightarrow> shm_step sv N s (goto i (if sv then SFail else SReopen) s)"
| reopen: "spc s i = SReopen \<Longrightarrow> name s = Some x \<Longrightarrow> shm_step sv N s (goto i (SMap x False) s)"
| reopen_fails: "spc s i = SReopen \<Longrightarrow> shm_step sv N s (goto i SFail s)"
| truncate: "spc s i = STrunc x \<Longrightarrow>
    shm_step sv N s (goto i (SMap x True) (set_seg x ((seg s x)\<lparr>sized := True\<rparr>) s))"
| truncate_fails: "spc s i = STrunc x \<Longrightarrow> shm_step sv N s (goto i (SMap x True) s)"
| mapped: "spc s i = SMap x new \<Longrightarrow>
    shm_step sv N s (goto i (if new \<and> \<not> sv then SSet x else SAdd x new 0) s)"
| map_fails: "spc s i = SMap x new \<Longrightarrow> shm_step sv N s (goto i SFail s)"
| set_zero: "spc s i = SSet x \<Longrightarrow> sized (seg s x) \<Longrightarrow>
    shm_step sv N s (goto i (SAdd x True 0) (set_seg x ((seg s x)\<lparr>number := 0\<rparr>)
      (s\<lparr>lost := (lost s)(x := adds s x)\<rparr>)))"
| set_bus_error: "spc s i = SSet x \<Longrightarrow> \<not> sized (seg s x) \<Longrightarrow> shm_step sv N s (goto i SBus s)"
| add: "spc s i = SAdd x new n \<Longrightarrow> n < N \<Longrightarrow> sized (seg s x) \<Longrightarrow>
    shm_step sv N s (goto i (SAdd x new (Suc n)) (set_seg x ((seg s x)\<lparr>number := number (seg s x) + 1\<rparr>)
      (s\<lparr>adds := (adds s)(x := Suc (adds s x))\<rparr>)))"
| bus_error: "spc s i = SAdd x new n \<Longrightarrow> n < N \<Longrightarrow> \<not> sized (seg s x) \<Longrightarrow> shm_step sv N s (goto i SBus s)"
| counted: "spc s i = SAdd x new n \<Longrightarrow> \<not> n < N \<Longrightarrow> shm_step sv N s (goto i (SUnlink x new) s)"
| remove: "spc s i = SUnlink x new \<Longrightarrow> new \<or> sv \<Longrightarrow>
    shm_step sv N s (goto i SDone (s\<lparr>name := (if sv \<and> name s \<noteq> Some x then name s else None)\<rparr>))"
| leave: "spc s i = SUnlink x new \<Longrightarrow> \<not> (new \<or> sv) \<Longrightarrow> shm_step sv N s (goto i SDone s)"

text \<open>The two programs; the number of rounds is \<open>maxTestCount\<close>.\<close>

definition shm_maxTestCount :: nat where
  "shm_maxTestCount = 200000000"

definition posix_shm_step :: "nat \<Rightarrow> shm_sys \<Rightarrow> shm_sys \<Rightarrow> bool" where
  "posix_shm_step = shm_step False"

definition sysv_shm_step :: "nat \<Rightarrow> shm_sys \<Rightarrow> shm_sys \<Rightarrow> bool" where
  "sysv_shm_step = shm_step True"

definition shm_start :: shm_sys where
  "shm_start = \<lparr>name = None, seg = (\<lambda>_. \<lparr>sized = False, number = 0\<rparr>), fresh = 0, spc = (\<lambda>_. SOpen),
     adds = (\<lambda>_. 0), lost = (\<lambda>_. 0)\<rparr>"

definition shm_init :: "shm_sys \<Rightarrow> bool" where
  "shm_init s \<longleftrightarrow> s = shm_start"

section \<open>Invariant\<close>

text \<open>The object a process works on, and the object it is the creator of.\<close>

fun works_on :: "spc \<Rightarrow> nat option" where
  "works_on (STrunc x) = Some x"
| "works_on (SMap x new) = Some x"
| "works_on (SSet x) = Some x"
| "works_on (SAdd x new n) = Some x"
| "works_on (SUnlink x new) = Some x"
| "works_on _ = None"

fun creates :: "spc \<Rightarrow> nat option" where
  "creates (STrunc x) = Some x"
| "creates (SMap x new) = (if new then Some x else None)"
| "creates (SSet x) = Some x"
| "creates (SAdd x new n) = (if new then Some x else None)"
| "creates (SUnlink x new) = (if new then Some x else None)"
| "creates _ = None"

text \<open>Places only the POSIX program reaches.\<close>

fun posix_only :: "spc \<Rightarrow> bool" where
  "posix_only (STrunc x) = True"
| "posix_only (SSet x) = True"
| "posix_only SBus = True"
| "posix_only _ = False"

text \<open>No object has two creators.\<close>

definition one_creator :: "(nat \<Rightarrow> spc) \<Rightarrow> bool" where
  "one_creator f \<longleftrightarrow> (\<forall>i j x. creates (f i) = Some x \<longrightarrow> creates (f j) = Some x \<longrightarrow> i = j)"

lemma one_creator_keep:
  "one_creator f \<Longrightarrow> creates p = None \<or> creates p = creates (f i) \<Longrightarrow> one_creator (f(i := p))"
  unfolding one_creator_def by (metis fun_upd_apply option.distinct(1))

lemma one_creator_new:
  "one_creator f \<Longrightarrow> creates p = Some x \<Longrightarrow> (\<And>j. creates (f j) \<noteq> Some x) \<Longrightarrow> one_creator (f(i := p))"
  unfolding one_creator_def by (metis fun_upd_apply option.inject)

definition shm_inv :: "bool \<Rightarrow> shm_sys \<Rightarrow> bool" where
  "shm_inv sv s \<longleftrightarrow> (\<forall>x. name s = Some x \<longrightarrow> x < fresh s)
     \<and> (\<forall>i x. works_on (spc s i) = Some x \<longrightarrow> x < fresh s)
     \<and> one_creator (spc s)
     \<and> (\<forall>x. number (seg s x) + of_nat (lost s x) = of_nat (adds s x))
     \<and> (\<forall>x. fresh s \<le> x \<longrightarrow> adds s x = 0 \<and> lost s x = 0)
     \<and> (sv \<longrightarrow> (\<forall>i. \<not> posix_only (spc s i)) \<and> (\<forall>x. lost s x = 0) \<and> (\<forall>x. x < fresh s \<longrightarrow> sized (seg s x)))"

lemma creates_works: "creates p = Some x \<Longrightarrow> works_on p = Some x"
  by (cases p) (auto split: if_splits)

lemma shm_inv_start: "shm_inv sv shm_start"
  by (simp add: shm_inv_def shm_start_def one_creator_def)

text \<open>A process that moves on its object, or to one that exists, without becoming a creator.\<close>

lemma inv_goto:
  assumes "shm_inv sv s" and "\<And>x. works_on p = Some x \<Longrightarrow> x < fresh s"
    and "creates p = None \<or> creates p = creates (spc s i)" and "sv \<Longrightarrow> \<not> posix_only p"
  shows "shm_inv sv (goto i p s)"
  using assms one_creator_keep [of "spc s" p i] unfolding shm_inv_def goto_def
  by (auto split: if_splits)

text \<open>A change of one segment and its counts.\<close>

lemma inv_seg:
  assumes "shm_inv sv s" and "x < fresh s" and "number g + of_nat (b x) = of_nat (a x)"
    and "\<forall>y. y \<noteq> x \<longrightarrow> a y = adds s y \<and> b y = lost s y" and "sv \<Longrightarrow> b x = 0 \<and> sized g"
  shows "shm_inv sv (set_seg x g (s\<lparr>adds := a, lost := b\<rparr>))"
proof -
  have "number (((seg s)(x := g)) y) + of_nat (b y) = of_nat (a y)" for y
    using assms by (cases "y = x") (auto simp: shm_inv_def)
  moreover have "a y = 0 \<and> b y = 0" if "fresh s \<le> y" for y
    using assms(1,2,4) that by (auto simp: shm_inv_def)
  moreover have "sv \<longrightarrow> b y = 0" for y using assms by (cases "y = x") (auto simp: shm_inv_def)
  ultimately show ?thesis using assms by (auto simp: shm_inv_def set_seg_def)
qed

lemma inv_create:
  assumes "shm_inv sv s" and "spc s i = SOpen" and "name s = None"
  shows "shm_inv sv (goto i (if sv then SMap (fresh s) True else STrunc (fresh s))
      (set_seg (fresh s) \<lparr>sized = sv, number = 0\<rparr> (s\<lparr>name := Some (fresh s), fresh := Suc (fresh s)\<rparr>)))"
proof -
  have new: "works_on (spc s j) \<noteq> Some (fresh s)" "creates (spc s j) \<noteq> Some (fresh s)" for j
    using assms(1) creates_works [of "spc s j"] by (auto simp: shm_inv_def)
  let ?p = "if sv then SMap (fresh s) True else STrunc (fresh s)"
  have "one_creator ((spc s)(i := ?p))"
    using one_creator_new [of "spc s" ?p "fresh s" i] new(2) assms(1) by (auto simp: shm_inv_def)
  then show ?thesis
    using assms unfolding shm_inv_def goto_def set_seg_def
    by (auto simp: less_Suc_eq simp del: fun_upd_apply split: if_splits) (auto simp: less_Suc_eq split: if_splits)
qed

lemma works_lt: "shm_inv sv s \<Longrightarrow> works_on (spc s i) = Some x \<Longrightarrow> x < fresh s"
  by (auto simp: shm_inv_def)

lemma posix_only_false: "shm_inv sv s \<Longrightarrow> posix_only (spc s i) \<Longrightarrow> \<not> sv"
  by (auto simp: shm_inv_def)

lemma sized_sv: "shm_inv sv s \<Longrightarrow> \<not> sized (seg s x) \<Longrightarrow> x < fresh s \<Longrightarrow> \<not> sv"
  by (auto simp: shm_inv_def)

lemma lost_sv: "shm_inv sv s \<Longrightarrow> sv \<Longrightarrow> lost s x = 0"
  by (simp add: shm_inv_def)

lemma count_of: "shm_inv sv s \<Longrightarrow> number (seg s x) + of_nat (lost s x) = of_nat (adds s x)"
  by (simp add: shm_inv_def)

lemma shm_inv_step: "shm_step sv N s t \<Longrightarrow> shm_inv sv s \<Longrightarrow> shm_inv sv t"
proof (induction rule: shm_step.induct)
  case (create s i)
  then show ?case by (intro inv_create)
next
  case (reopen s i x)
  then have "x < fresh s" by (simp add: shm_inv_def)
  with reopen show ?case by (intro inv_goto) auto
next
  case (truncate s i x)
  then have x: "x < fresh s" and "\<not> sv"
    using works_lt [of sv s i x] posix_only_false [of sv s i] by simp_all
  have "shm_inv sv (set_seg x ((seg s x)\<lparr>sized := True\<rparr>) s)"
    using inv_seg [OF truncate(2) x, of "(seg s x)\<lparr>sized := True\<rparr>" "lost s" "adds s"]
      count_of [OF truncate(2), of x] \<open>\<not> sv\<close> by (simp add: set_seg_def)
  then show ?case by (rule inv_goto) (use truncate x \<open>\<not> sv\<close> in \<open>auto simp: set_seg_def\<close>)
next
  case (truncate_fails s i x)
  then show ?case using works_lt [of sv s i x] by (intro inv_goto) auto
next
  case (set_bus_error s i x)
  then show ?case using posix_only_false [of sv s i] by (intro inv_goto) auto
next
  case (mapped s i x new)
  then show ?case using works_lt [of sv s i x] by (intro inv_goto) (auto split: if_splits)
next
  case (set_zero s i x)
  then have x: "x < fresh s" and "\<not> sv"
    using works_lt [of sv s i x] posix_only_false [of sv s i] by simp_all
  have "shm_inv sv (set_seg x ((seg s x)\<lparr>number := 0\<rparr>) (s\<lparr>lost := (lost s)(x := adds s x)\<rparr>))"
    using inv_seg [OF set_zero(3) x, of "(seg s x)\<lparr>number := 0\<rparr>" "(lost s)(x := adds s x)" "adds s"] \<open>\<not> sv\<close>
    by (simp add: set_seg_def)
  then show ?case by (rule inv_goto) (use set_zero x \<open>\<not> sv\<close> in \<open>auto simp: set_seg_def\<close>)
next
  case (add s i x new n)
  then have x: "x < fresh s" using works_lt [of sv s i x] by simp
  have "shm_inv sv (set_seg x ((seg s x)\<lparr>number := number (seg s x) + 1\<rparr>) (s\<lparr>adds := (adds s)(x := Suc (adds s x))\<rparr>))"
    using inv_seg [OF add(4) x, of "(seg s x)\<lparr>number := number (seg s x) + 1\<rparr>" "lost s" "(adds s)(x := Suc (adds s x))"]
      count_of [OF add(4), of x] add(3) lost_sv [OF add(4), of x] by (simp add: set_seg_def ac_simps)
  then show ?case by (rule inv_goto) (use add x in \<open>auto simp: set_seg_def\<close>)
next
  case (bus_error s i x new n)
  then have "\<not> sv" using works_lt [of sv s i x] sized_sv [of sv s x] by simp
  with bus_error show ?case by (intro inv_goto) auto
next
  case (counted s i x new n)
  then show ?case using works_lt [of sv s i x] by (intro inv_goto) auto
next
  case (remove s i x new)
  then have "shm_inv sv (s\<lparr>name := (if sv \<and> name s \<noteq> Some x then name s else None)\<rparr>)" by (simp add: shm_inv_def)
  then show ?case by (rule inv_goto) auto
qed (auto intro!: inv_goto)

interpretation shm: inductive_invariant shm_init "shm_step sv N" "shm_inv sv" for sv N
  by unfold_locales (auto simp: shm_init_def shm_inv_start intro: shm_inv_step)

section \<open>Schedules\<close>

text \<open>The next step of a process whose calls succeed where they can.\<close>

fun shm_next :: "bool \<Rightarrow> nat \<Rightarrow> nat \<Rightarrow> spc \<Rightarrow> shm_sys \<Rightarrow> shm_sys option" where
  "shm_next sv N i SOpen s = Some (case name s of
      None \<Rightarrow> goto i (if sv then SMap (fresh s) True else STrunc (fresh s))
        (set_seg (fresh s) \<lparr>sized = sv, number = 0\<rparr> (s\<lparr>name := Some (fresh s), fresh := Suc (fresh s)\<rparr>))
    | Some _ \<Rightarrow> goto i SReopen s)"
| "shm_next sv N i SReopen s = Some (case name s of None \<Rightarrow> goto i SFail s | Some x \<Rightarrow> goto i (SMap x False) s)"
| "shm_next sv N i (STrunc x) s = Some (goto i (SMap x True) (set_seg x ((seg s x)\<lparr>sized := True\<rparr>) s))"
| "shm_next sv N i (SMap x new) s = Some (goto i (if new \<and> \<not> sv then SSet x else SAdd x new 0) s)"
| "shm_next sv N i (SSet x) s = Some (if sized (seg s x) then goto i (SAdd x True 0)
      (set_seg x ((seg s x)\<lparr>number := 0\<rparr>) (s\<lparr>lost := (lost s)(x := adds s x)\<rparr>)) else goto i SBus s)"
| "shm_next sv N i (SAdd x new n) s = Some (if \<not> n < N then goto i (SUnlink x new) s
      else if sized (seg s x) then goto i (SAdd x new (Suc n))
        (set_seg x ((seg s x)\<lparr>number := number (seg s x) + 1\<rparr>) (s\<lparr>adds := (adds s)(x := Suc (adds s x))\<rparr>))
      else goto i SBus s)"
| "shm_next sv N i (SUnlink x new) s = Some (if new \<or> sv
      then goto i SDone (s\<lparr>name := (if sv \<and> name s \<noteq> Some x then name s else None)\<rparr>) else goto i SDone s)"
| "shm_next sv N i _ s = None"

fun shm_run :: "bool \<Rightarrow> nat \<Rightarrow> nat list \<Rightarrow> shm_sys \<Rightarrow> shm_sys option" where
  "shm_run sv N [] s = Some s"
| "shm_run sv N (i # is) s = (case shm_next sv N i (spc s i) s of None \<Rightarrow> None | Some t \<Rightarrow> shm_run sv N is t)"

lemma shm_next_sound: "shm_next sv N i p s = Some t \<Longrightarrow> spc s i = p \<Longrightarrow> shm_step sv N s t"
proof (cases p)
  case (SMap x new)
  assume "shm_next sv N i p s = Some t" "spc s i = p"
  with SMap mapped [of s i x new sv N] show ?thesis by simp
next
  case SOpen
  assume "shm_next sv N i p s = Some t" "spc s i = p"
  with SOpen create [of s i sv N] exists [of s i sv N] show ?thesis by (auto split: option.splits)
next
  case (SUnlink x new)
  assume "shm_next sv N i p s = Some t" "spc s i = p"
  with SUnlink remove [of s i x new sv N] leave [of s i x new sv N] show ?thesis by (cases "new \<or> sv") auto
qed (auto split: if_splits option.splits intro: shm_step.intros)

lemma shm_run_reach:
  "shm_run sv N is s = Some t \<Longrightarrow> reach shm_init (shm_step sv N) s \<Longrightarrow> reach shm_init (shm_step sv N) t"
proof (induction "is" arbitrary: s)
  case (Cons i "is")
  then obtain u where "shm_next sv N i (spc s i) s = Some u" "shm_run sv N is u = Some t"
    by (auto split: option.splits)
  with Cons shm_next_sound [of sv N i "spc s i" s u] show ?case by (blast intro: reach_step)
qed simp

lemma shm_reach_start: "reach shm_init (shm_step sv N) shm_start"
  by (rule reach_init) (simp add: shm_init_def)

lemma posix_run: "shm_run False N is shm_start = Some s \<Longrightarrow> reach shm_init (posix_shm_step N) s"
  unfolding posix_shm_step_def by (rule shm_run_reach [OF _ shm_reach_start])

section \<open>The counters\<close>

lemma shm_counts:
  assumes "reach shm_init (shm_step sv N) s"
  shows "number (seg s x) + of_nat (lost s x) = of_nat (adds s x)"
    and "creates (spc s i) = Some x \<Longrightarrow> creates (spc s j) = Some x \<Longrightarrow> i = j"
    and "sv \<Longrightarrow> lost s x = 0" and "sv \<Longrightarrow> spc s i \<noteq> SBus"
proof -
  have inv: "shm_inv sv s" by (rule shm.inv_reach [OF assms])
  show "number (seg s x) + of_nat (lost s x) = of_nat (adds s x)" by (rule count_of [OF inv])
  show "creates (spc s i) = Some x \<Longrightarrow> creates (spc s j) = Some x \<Longrightarrow> i = j"
    using inv by (auto simp: shm_inv_def one_creator_def)
  show "sv \<Longrightarrow> lost s x = 0" by (rule lost_sv [OF inv])
  show "sv \<Longrightarrow> spc s i \<noteq> SBus" using posix_only_false [OF inv, of i] by auto
qed

text \<open>
  C9. The System V program counts: for every number of processes, every interleaving and every
  failure of a call, the number in a segment is the number of atomic increments that were done on
  it, modulo the 32 bits of an \<open>int\<close>. A segment has at most one creator at work, and no process is killed for
  touching a segment that has no size.
\<close>

theorem sysv_shm_counts:
  assumes "reach shm_init (sysv_shm_step N) s"
  shows "number (seg s x) = of_nat (adds s x) \<and> spc s i \<noteq> SBus
    \<and> (creates (spc s i) = Some x \<and> creates (spc s j) = Some x \<longrightarrow> i = j)"
  using shm_counts [of True N s] assms by (auto simp: sysv_shm_step_def)

text \<open>
  The POSIX program can lose increments, and can crash. The name exists before the creator has
  sized the object and stored its 0: a second process that opens it in between adds to a number
  that is then reset, so that after an increment the number is 0; or it touches the object before
  it has a size and is killed by \<open>SIGBUS\<close>. The creator itself is killed when \<open>ftruncate\<close> failed.
\<close>

lemma shm_creation_races:
  "(\<exists>s. reach shm_init (posix_shm_step shm_maxTestCount) s \<and> spc s 0 = SAdd 0 True 0 \<and> spc s 1 = SAdd 0 False 1
      \<and> adds s 0 = 1 \<and> number (seg s 0) = 0)
   \<and> (\<exists>s. reach shm_init (posix_shm_step shm_maxTestCount) s \<and> spc s 1 = SBus)
   \<and> (\<exists>s. reach shm_init (posix_shm_step shm_maxTestCount) s \<and> spc s 0 = SBus)"
proof -
  let ?N = shm_maxTestCount
  obtain s where s: "shm_run False ?N [0, 0, 0, 1, 1, 1, 1, 0] shm_start = Some s"
      "spc s 0 = SAdd 0 True 0 \<and> spc s 1 = SAdd 0 False 1 \<and> adds s 0 = 1 \<and> number (seg s 0) = 0"
    by (simp add: shm_start_def goto_def set_seg_def shm_maxTestCount_def)
  obtain t where t: "shm_run False ?N [0, 1, 1, 1, 1] shm_start = Some t" "spc t 1 = SBus"
    by (simp add: shm_start_def goto_def set_seg_def shm_maxTestCount_def)
  obtain u where u: "shm_run False ?N [0] shm_start = Some u" "spc u 0 = STrunc 0" "\<not> sized (seg u 0)"
    by (simp add: shm_start_def goto_def set_seg_def)
  let ?u = "goto 0 (SMap 0 True) u"
  obtain v where v: "shm_run False ?N [0, 0] ?u = Some v" "spc v 0 = SBus"
    using u(3) by (simp add: goto_def)
  have "reach shm_init (posix_shm_step ?N) ?u"
    using reach_step [OF posix_run [OF u(1)], of ?u] truncate_fails [OF u(2), of False ?N]
    unfolding posix_shm_step_def by blast
  then have "reach shm_init (posix_shm_step ?N) v"
    using shm_run_reach [OF v(1)] unfolding posix_shm_step_def by blast
  with posix_run [OF s(1)] s(2) posix_run [OF t(1)] t(2) v(2) show ?thesis by blast
qed

theorem sysv_shm_counts_witness:
  "\<exists>s. reach shm_init (sysv_shm_step 1) s \<and> spc s 0 = SDone \<and> spc s 1 = SDone \<and> number (seg s 0) = 2"
proof -
  obtain s where run: "shm_run True 1 [0, 0, 1, 1, 1, 1, 0, 0, 0, 1, 1] shm_start = Some s"
    and *: "spc s 0 = SDone \<and> spc s 1 = SDone \<and> adds s 0 = 2"
    by (simp add: shm_start_def goto_def set_seg_def)
  have "reach shm_init (sysv_shm_step 1) s"
    using shm_run_reach [OF run shm_reach_start] by (simp add: sysv_shm_step_def)
  with sysv_shm_counts [OF this, of 0 0 0] * show ?thesis by auto
qed

end
