(* ===== verification/Posix_Ipc.thy ===== *)
theory Posix_Ipc
  imports C_Prelude
begin

text \<open>
  The programs that create or open a named object and exchange something through it, one run
  after the other: \<open>process/posix-ipc/semaphore/named.c\<close> and \<open>process/posix-ipc/msg-queue/main.c\<close>.
  What the calls do is stated by the locales \<open>sem_calls\<close> and \<open>mq_calls\<close>, over a view of the
  kernel's state; both are interpreted on a table in memory.
\<close>

section \<open>Named semaphore\<close>

record 'k nsem_os =
  n_open_excl :: "string \<Rightarrow> nat \<Rightarrow> ('k, nat) kcall"
  n_open :: "string \<Rightarrow> ('k, nat) kcall"
  n_getvalue :: "nat \<Rightarrow> ('k, int) kcall"
  n_trywait :: "nat \<Rightarrow> ('k, int) kcall"
  n_post :: "nat \<Rightarrow> ('k, int) kcall"
  n_close :: "nat \<Rightarrow> ('k, int) kcall"
  n_unlink :: "string \<Rightarrow> ('k, int) kcall"

text \<open>\<open>_printSemValue\<close>, which \<open>unnamed.c\<close> has too.\<close>

definition printSemValue :: "'k nsem_os \<Rightarrow> nat \<Rightarrow> ('k, unit) io" where
  "printSemValue os sem = do {
     r \<leftarrow> sysopt (n_getvalue os sem);
     (case r of
        None \<Rightarrow> do { e \<leftarrow> get_errno; printf ''sem_getvalue failed, errno is %d\<newline>'' [FInt e] }
      | Some value \<Rightarrow> printf ''sem value is %d\<newline>'' [FInt value]) }"

definition success_or_failed :: "int \<Rightarrow> string" where
  "success_or_failed r = (if r = 0 then ''success'' else ''failed'')"

definition try_and_tell :: "'k nsem_os \<Rightarrow> nat \<Rightarrow> ('k, unit) io" where
  "try_and_tell os sem = do {
     r \<leftarrow> sys (n_trywait os sem);
     printf ''sem_trywait %s(%d)\<newline>'' [FStr (success_or_failed r), FInt r] }"

definition semMame :: string where "semMame = ''test_semaphore''"
definition initValue :: nat where "initValue = 0"

definition named_exchange :: "'k nsem_os \<Rightarrow> nat \<Rightarrow> ('k, unit) io" where
  "named_exchange os sem = do {
     _ \<leftarrow> printSemValue os sem;
     _ \<leftarrow> try_and_tell os sem;
     _ \<leftarrow> printf ''will call sem_post\<newline>'' [];
     _ \<leftarrow> sys (n_post os sem);
     _ \<leftarrow> printSemValue os sem;
     _ \<leftarrow> try_and_tell os sem;
     printSemValue os sem }"

definition named_open :: "'k nsem_os \<Rightarrow> ('k, bool \<times> nat option) io" where
  "named_open os = do {
     r \<leftarrow> sysopt (n_open_excl os semMame initValue);
     (case r of
        None \<Rightarrow> do {
          r2 \<leftarrow> sysopt (n_open os semMame);
          _ \<leftarrow> printf ''open existing semaphore\<newline>'' [];
          ret (False, r2) }
      | Some sem \<Rightarrow> do {
          _ \<leftarrow> printf ''create new semaphore, init value is %u\<newline>'' [FInt (int initValue)];
          ret (True, Some sem) }) }"

definition named_main :: "'k nsem_os \<Rightarrow> ('k, int) io" where
  "named_main os = do {
     (createNew, r) \<leftarrow> named_open os;
     (case r of
        None \<Rightarrow> do {
          e \<leftarrow> get_errno;
          _ \<leftarrow> printf ''sem_open failed, errno is %d\<newline>'' [FInt e];
          ret (-1) }
      | Some sem \<Rightarrow> do {
          _ \<leftarrow> named_exchange os sem;
          _ \<leftarrow> sys (n_close os sem);
          _ \<leftarrow> (if createNew then sys (n_unlink os semMame) else ret 0);
          ret 0 }) }"

text \<open>What the semaphore calls promise, by the objects the names refer to and their values.\<close>

definition SEM_VALUE_MAX :: nat where "SEM_VALUE_MAX = 2147483647"

text \<open>What the exchange prints on a semaphore of value \<open>v\<close>; it leaves \<open>v - 1\<close>, or 0.\<close>

definition exchange_log :: "nat \<Rightarrow> outev list" where
  "exchange_log v =
    [Printf ''sem value is %d\<newline>'' [FInt (int v)],
     Printf ''sem_trywait %s(%d)\<newline>'' (if v = 0 then [FStr ''failed'', FInt (-1)] else [FStr ''success'', FInt 0]),
     Printf ''will call sem_post\<newline>'' [],
     Printf ''sem value is %d\<newline>'' [FInt (int (v - 1) + 1)],
     Printf ''sem_trywait %s(%d)\<newline>'' [FStr ''success'', FInt 0],
     Printf ''sem value is %d\<newline>'' [FInt (int (v - 1))]]"

locale sem_calls =
  fixes os :: "'k nsem_os" and names :: "'k \<Rightarrow> string \<Rightarrow> nat option" and val :: "'k \<Rightarrow> nat \<Rightarrow> nat"
  assumes open_excl_new: "names k n = None \<Longrightarrow>
      \<exists>x k'. n_open_excl os n v k = (Inr x, k') \<and> names k' = (names k)(n \<mapsto> x) \<and> val k' = (val k)(x := v)"
    and open_excl_old: "names k n = Some x \<Longrightarrow>
      \<exists>k'. n_open_excl os n v k = (Inl EEXIST, k') \<and> names k' = names k \<and> val k' = val k"
    and open_old: "names k n = Some x \<Longrightarrow>
      \<exists>k'. n_open os n k = (Inr x, k') \<and> names k' = names k \<and> val k' = val k"
    and getvalue: "\<exists>k'. n_getvalue os x k = (Inr (int (val k x)), k') \<and> names k' = names k \<and> val k' = val k"
    and trywait: "\<exists>k'. n_trywait os x k = (if val k x = 0 then Inl EAGAIN else Inr 0, k')
      \<and> names k' = names k \<and> val k' = (val k)(x := val k x - 1)"
    and post: "val k x < SEM_VALUE_MAX \<Longrightarrow>
      \<exists>k'. n_post os x k = (Inr 0, k') \<and> names k' = names k \<and> val k' = (val k)(x := val k x + 1)"
    and close: "\<exists>k'. n_close os x k = (Inr 0, k') \<and> names k' = names k \<and> val k' = val k"
    and unlink: "names k n \<noteq> None \<Longrightarrow>
      \<exists>k'. n_unlink os n k = (Inr 0, k') \<and> names k' = (names k)(n := None) \<and> val k' = val k"
begin

abbreviation after :: "'k proc \<Rightarrow> 'k proc \<Rightarrow> (nat \<Rightarrow> nat) \<Rightarrow> outev list \<Rightarrow> bool" where
  "after s s' f out \<equiv> names (kern s') = names (kern s) \<and> val (kern s') = f \<and> outs s' = outs s @ out"

lemma run_printSemValue:
  "\<exists>s'. run_state (printSemValue os x) s = ((), s')
    \<and> after s s' (val (kern s)) [Printf ''sem value is %d\<newline>'' [FInt (int (val (kern s) x))]]"
  using getvalue [of x "kern s"] by (auto simp: printSemValue_def io_simps)

lemma run_try_and_tell:
  "\<exists>s'. run_state (try_and_tell os x) s = ((), s')
    \<and> after s s' ((val (kern s))(x := val (kern s) x - 1))
        [Printf ''sem_trywait %s(%d)\<newline>'' (if val (kern s) x = 0 then [FStr ''failed'', FInt (-1)] else [FStr ''success'', FInt 0])]"
  using trywait [of x "kern s"] by (auto simp: try_and_tell_def success_or_failed_def io_simps)

lemma run_sys_post:
  "val (kern s) x < SEM_VALUE_MAX \<Longrightarrow> \<exists>s'. run_state (sys (n_post os x)) s = (0, s')
    \<and> after s s' ((val (kern s))(x := val (kern s) x + 1)) []"
  using post [of "kern s" x] by (auto simp: io_simps)

lemma run_named_exchange:
  assumes "val (kern s) x \<le> SEM_VALUE_MAX"
  shows "\<exists>s'. run_state (named_exchange os x) s = ((), s')
    \<and> after s s' ((val (kern s))(x := val (kern s) x - 1)) (exchange_log (val (kern s) x))"
proof -
  let ?v = "val (kern s) x"
  obtain s1 where s1: "run_state (printSemValue os x) s = ((), s1)"
    "after s s1 (val (kern s)) [Printf ''sem value is %d\<newline>'' [FInt (int ?v)]]" using run_printSemValue by blast
  obtain s2 where s2: "run_state (try_and_tell os x) s1 = ((), s2)"
    "after s1 s2 ((val (kern s1))(x := val (kern s1) x - 1))
        [Printf ''sem_trywait %s(%d)\<newline>'' (if val (kern s1) x = 0 then [FStr ''failed'', FInt (-1)] else [FStr ''success'', FInt 0])]"
    using run_try_and_tell by blast
  let ?s3 = "s2\<lparr>outs := outs s2 @ [Printf ''will call sem_post\<newline>'' []]\<rparr>"
  have "val (kern ?s3) x < SEM_VALUE_MAX" using assms s1(2) s2(2) by (auto simp: SEM_VALUE_MAX_def)
  then obtain s4 where s4: "run_state (sys (n_post os x)) ?s3 = (0, s4)"
    "after ?s3 s4 ((val (kern ?s3))(x := val (kern ?s3) x + 1)) []" using run_sys_post by blast
  obtain s5 where s5: "run_state (printSemValue os x) s4 = ((), s5)"
    "after s4 s5 (val (kern s4)) [Printf ''sem value is %d\<newline>'' [FInt (int (val (kern s4) x))]]"
    using run_printSemValue by blast
  obtain s6 where s6: "run_state (try_and_tell os x) s5 = ((), s6)"
    "after s5 s6 ((val (kern s5))(x := val (kern s5) x - 1))
        [Printf ''sem_trywait %s(%d)\<newline>'' (if val (kern s5) x = 0 then [FStr ''failed'', FInt (-1)] else [FStr ''success'', FInt 0])]"
    using run_try_and_tell by blast
  obtain s7 where s7: "run_state (printSemValue os x) s6 = ((), s7)"
    "after s6 s7 (val (kern s6)) [Printf ''sem value is %d\<newline>'' [FInt (int (val (kern s6) x))]]"
    using run_printSemValue by blast
  show ?thesis
    using s1 s2 s4 s5 s6 s7
    by (simp add: named_exchange_def exchange_log_def run_printf fun_eq_iff del: run_sys)
qed

lemma named_main_new:
  assumes "names (kern s) semMame = None"
  shows "\<exists>s'. run_state (named_main os) s = (0, s') \<and> names (kern s') = names (kern s)
    \<and> outs s' = outs s @ Printf ''create new semaphore, init value is %u\<newline>'' [FInt 0] # exchange_log 0"
proof -
  obtain x k where k: "n_open_excl os semMame initValue (kern s) = (Inr x, k)"
    "names k = (names (kern s))(semMame \<mapsto> x)" "val k = (val (kern s))(x := initValue)"
    using open_excl_new [OF assms] by blast
  let ?s1 = "s\<lparr>kern := k, outs := outs s @ [Printf ''create new semaphore, init value is %u\<newline>'' [FInt 0]]\<rparr>"
  obtain s2 where s2: "run_state (named_exchange os x) ?s1 = ((), s2)"
    "after ?s1 s2 ((val k)(x := val k x - 1)) (exchange_log (val k x))"
    using run_named_exchange [of ?s1 x] k(3) by (auto simp: initValue_def)
  obtain k3 where k3: "n_close os x (kern s2) = (Inr 0, k3)" "names k3 = names (kern s2)" using close by blast
  have "names k3 semMame \<noteq> None" using k3(2) s2(2) k(2) by simp
  then obtain k4 where k4: "n_unlink os semMame k3 = (Inr 0, k4)" "names k4 = (names k3)(semMame := None)"
    using unlink by blast
  show ?thesis
    using k s2 k3 k4 assms
    by (simp add: named_main_def named_open_def io_simps initValue_def fun_upd_idem)
qed

lemma named_main_old:
  assumes "names (kern s) semMame = Some x" and "val (kern s) x \<le> SEM_VALUE_MAX"
  shows "\<exists>s'. run_state (named_main os) s = (0, s')
    \<and> names (kern s') = names (kern s) \<and> val (kern s') = (val (kern s))(x := val (kern s) x - 1)
    \<and> outs s' = outs s @ Printf ''open existing semaphore\<newline>'' [] # exchange_log (val (kern s) x)"
proof -
  obtain k where k: "n_open_excl os semMame initValue (kern s) = (Inl EEXIST, k)"
    "names k = names (kern s)" "val k = val (kern s)" using open_excl_old [OF assms(1)] by blast
  obtain k1 where k1: "n_open os semMame k = (Inr x, k1)" "names k1 = names k" "val k1 = val k"
    using open_old [of k semMame x] assms(1) k(2) by auto
  let ?s1 = "s\<lparr>errno := EEXIST, kern := k1, outs := outs s @ [Printf ''open existing semaphore\<newline>'' []]\<rparr>"
  obtain s2 where s2: "run_state (named_exchange os x) ?s1 = ((), s2)"
    "after ?s1 s2 ((val k1)(x := val k1 x - 1)) (exchange_log (val k1 x))"
    using run_named_exchange [of ?s1 x] k k1 assms(2) by auto
  obtain k3 where k3: "n_close os x (kern s2) = (Inr 0, k3)" "names k3 = names (kern s2)" "val k3 = val (kern s2)"
    using close by blast
  show ?thesis using k k1 s2 k3 by (simp add: named_main_def named_open_def io_simps)
qed

end

subsection \<open>A table of semaphores\<close>

record semtab =
  st_names :: "string \<Rightarrow> nat option"
  st_val :: "nat \<Rightarrow> nat"
  st_next :: nat

definition semtab_os :: "semtab nsem_os" where
  "semtab_os = \<lparr>
     n_open_excl = (\<lambda>n v k. case st_names k n of
         Some _ \<Rightarrow> (Inl EEXIST, k)
       | None \<Rightarrow> (Inr (st_next k), k\<lparr>st_names := (st_names k)(n \<mapsto> st_next k),
            st_val := (st_val k)(st_next k := v), st_next := Suc (st_next k)\<rparr>)),
     n_open = (\<lambda>n k. case st_names k n of None \<Rightarrow> (Inl ENOENT, k) | Some x \<Rightarrow> (Inr x, k)),
     n_getvalue = (\<lambda>x k. (Inr (int (st_val k x)), k)),
     n_trywait = (\<lambda>x k. if st_val k x = 0 then (Inl EAGAIN, k) else (Inr 0, k\<lparr>st_val := (st_val k)(x := st_val k x - 1)\<rparr>)),
     n_post = (\<lambda>x k. if st_val k x < SEM_VALUE_MAX then (Inr 0, k\<lparr>st_val := (st_val k)(x := st_val k x + 1)\<rparr>) else (Inl 75, k)),
     n_close = (\<lambda>x k. (Inr 0, k)),
     n_unlink = (\<lambda>n k. case st_names k n of None \<Rightarrow> (Inl ENOENT, k) | Some _ \<Rightarrow> (Inr 0, k\<lparr>st_names := (st_names k)(n := None)\<rparr>))\<rparr>"

interpretation semtab: sem_calls semtab_os st_names st_val
  by unfold_locales (auto simp: semtab_os_def split: option.splits)

text \<open>Runs of the program one after the other, with the output of all of them.\<close>

definition run_times :: "nat \<Rightarrow> ('k, int) io \<Rightarrow> 'k proc \<Rightarrow> 'k proc" where
  "run_times n m = (\<lambda>s. snd (run_state m s)) ^^ n"

text \<open>
  C32. \<open>named.c\<close>, with semaphore calls that do what POSIX says. The process that creates the
  semaphore finds 0, is refused at its first \<open>sem_trywait\<close>, gets past the second after its own
  \<open>sem_post\<close> and removes the name again. A process that opens an existing semaphore of value
  \<open>v\<close> takes one more than it posts: \<open>n\<close> such runs leave \<open>v - n\<close>, never less than 0, and the name.
\<close>

theorem named_main_effect:
  assumes "sem_calls os names val"
  shows "(names (kern s) semMame = None \<longrightarrow>
      (\<exists>s'. run_state (named_main os) s = (0, s') \<and> names (kern s') = names (kern s)
        \<and> outs s' = outs s @ Printf ''create new semaphore, init value is %u\<newline>'' [FInt 0] # exchange_log 0))
    \<and> (\<forall>x. names (kern s) semMame = Some x \<and> val (kern s) x \<le> SEM_VALUE_MAX \<longrightarrow>
      (let s' = run_times n (named_main os) s in
        names (kern s') = names (kern s) \<and> val (kern s') = (val (kern s))(x := val (kern s) x - n)
        \<and> outs s' = outs s @ concat (map (\<lambda>i. Printf ''open existing semaphore\<newline>'' [] # exchange_log (val (kern s) x - i)) [0..<n])))"
proof (intro conjI impI allI)
  assume "names (kern s) semMame = None"
  then show "\<exists>s'. run_state (named_main os) s = (0, s') \<and> names (kern s') = names (kern s)
        \<and> outs s' = outs s @ Printf ''create new semaphore, init value is %u\<newline>'' [FInt 0] # exchange_log 0"
    by (rule sem_calls.named_main_new [OF assms])
next
  fix x
  assume x: "names (kern s) semMame = Some x \<and> val (kern s) x \<le> SEM_VALUE_MAX"
  show "let s' = run_times n (named_main os) s in
        names (kern s') = names (kern s) \<and> val (kern s') = (val (kern s))(x := val (kern s) x - n)
        \<and> outs s' = outs s @ concat (map (\<lambda>i. Printf ''open existing semaphore\<newline>'' [] # exchange_log (val (kern s) x - i)) [0..<n])"
  proof (induction n)
    case 0
    then show ?case by (simp add: run_times_def)
  next
    case (Suc n)
    let ?u = "run_times n (named_main os) s"
    have "names (kern ?u) semMame = Some x" "val (kern ?u) x \<le> SEM_VALUE_MAX" using Suc x by (auto simp: Let_def)
    from sem_calls.named_main_old [OF assms this] Suc show ?case
      by (auto simp: Let_def run_times_def)
  qed
qed

theorem named_main_effect_witness:
  "st_val (kern (run_times 2 (named_main semtab_os)
      \<lparr>kern = \<lparr>st_names = [semMame \<mapsto> 0], st_val = (\<lambda>_. 5), st_next = 1\<rparr>, errno = 0, outs = []\<rparr>)) 0 = 3"
  using named_main_effect [OF semtab.sem_calls_axioms,
      of "\<lparr>kern = \<lparr>st_names = [semMame \<mapsto> 0], st_val = (\<lambda>_. 5), st_next = 1\<rparr>, errno = 0, outs = []\<rparr>" 2]
  by (simp add: Let_def SEM_VALUE_MAX_def)

section \<open>Message queue\<close>

record mq_attr =
  mq_flags :: int
  mq_maxmsg :: int
  mq_msgsize :: int
  mq_curmsgs :: int

text \<open>
  The two ways \<open>main\<close> opens the queue, \<open>O_CREAT | O_EXCL | O_WRONLY\<close> and \<open>O_RDWR\<close>, and the calls
  on a descriptor. The descriptor of a failed open is -1.
\<close>

record 'k mq_os =
  m_open_new :: "string \<Rightarrow> ('k, int) kcall"
  m_open_rdwr :: "string \<Rightarrow> ('k, int) kcall"
  m_getattr :: "int \<Rightarrow> ('k, mq_attr) kcall"
  m_send :: "int \<Rightarrow> char list \<Rightarrow> nat \<Rightarrow> ('k, int) kcall"
  m_receive :: "int \<Rightarrow> nat \<Rightarrow> ('k, char list) kcall"
  m_close :: "int \<Rightarrow> ('k, int) kcall"

definition showAttribute :: "mq_attr \<Rightarrow> ('k, unit) io" where
  "showAttribute attr = printf ''show mq attribute: flags: %ld, maxMsg: %ld, msgSize: %ld, curMsgs: %ld\<newline>''
     [FInt (mq_flags attr), FInt (mq_maxmsg attr), FInt (mq_msgsize attr), FInt (mq_curmsgs attr)]"

definition mqName :: string where "mqName = ''/mq_test''"

definition mq_open_or_create :: "'k mq_os \<Rightarrow> ('k, int) io" where
  "mq_open_or_create os = do {
     mq \<leftarrow> sys (m_open_new os mqName);
     if mq = -1 then do {
       mq2 \<leftarrow> sys (m_open_rdwr os mqName);
       _ \<leftarrow> printf ''open an exist message queue\<newline>'' [];
       ret mq2 }
     else do {
       _ \<leftarrow> printf ''create an new message queue\<newline>'' [];
       ret mq } }"

text \<open>
  The exchange. The buffer is zeroed; the string that is printed ends at its first null byte, so
  a message of 8192 bytes without one would be printed past the buffer: here without the bytes
  that follow. \<open>junk\<close> is the attribute when \<open>mq_getattr\<close> fails.
\<close>

definition mq_exchange :: "'k mq_os \<Rightarrow> mq_attr \<Rightarrow> int \<Rightarrow> ('k, unit) io" where
  "mq_exchange os junk mq = do {
     a \<leftarrow> sysopt (m_getattr os mq);
     let attr = (case a of None \<Rightarrow> junk | Some x \<Rightarrow> x);
     _ \<leftarrow> showAttribute attr;
     if mq_curmsgs attr = 0 then do {
       r \<leftarrow> sys (m_send os mq ''abc'' 0);
       printf ''mq_send [abc] %s\<newline>'' [FStr (if r = 0 then ''success'' else ''fail'')] }
     else do {
       (r, bs) \<leftarrow> sysbuf (m_receive os mq 8192);
       printf ''mq_receive [%s] %s\<newline>''
         [FStr (cstr (bs @ replicate (8192 - length bs) NUL)), FStr (if r \<noteq> -1 then ''success'' else ''fail'')] } }"

definition mq_main :: "'k mq_os \<Rightarrow> mq_attr \<Rightarrow> ('k, int) io" where
  "mq_main os junk = do {
     mq \<leftarrow> mq_open_or_create os;
     if mq = -1 then do {
       e \<leftarrow> get_errno;
       _ \<leftarrow> printf ''mq_open failed, errno is %d\<newline>'' [FInt e];
       ret (-1) }
     else do {
       _ \<leftarrow> mq_exchange os junk mq;
       _ \<leftarrow> sys (m_close os mq);
       ret 0 } }"

text \<open>
  The promise of the calls: the queues by name, the descriptors with the queue they are for and
  whether they may receive, and the attributes of an empty queue. At priority 0 the queue is
  first in, first out.
\<close>

lemma last_of_drop: "drop n xs = [x] \<Longrightarrow> last xs = x"
  by (metis append_take_drop_id last_snoc)

locale mq_calls =
  fixes os :: "'k mq_os" and queues :: "'k \<Rightarrow> string \<Rightarrow> char list list option"
    and fds :: "'k \<Rightarrow> int \<Rightarrow> (string \<times> bool) option" and attr0 :: mq_attr
  assumes maxmsg: "1 \<le> mq_maxmsg attr0" and msgsize: "3 \<le> mq_msgsize attr0"
    and mq_open_new: "queues k n = None \<Longrightarrow> \<exists>d k'. m_open_new os n k = (Inr d, k') \<and> 0 \<le> d
      \<and> queues k' = (queues k)(n \<mapsto> []) \<and> fds k' = (fds k)(d \<mapsto> (n, False))"
    and mq_open_exists: "queues k n = Some ms \<Longrightarrow> \<exists>k'. m_open_new os n k = (Inl EEXIST, k')
      \<and> queues k' = queues k \<and> fds k' = fds k"
    and mq_open_rdwr: "queues k n = Some ms \<Longrightarrow> \<exists>d k'. m_open_rdwr os n k = (Inr d, k') \<and> 0 \<le> d
      \<and> queues k' = queues k \<and> fds k' = (fds k)(d \<mapsto> (n, True))"
    and mq_getattr: "fds k d = Some (n, rd) \<Longrightarrow> queues k n = Some ms \<Longrightarrow> \<exists>k'.
      m_getattr os d k = (Inr (attr0\<lparr>mq_curmsgs := int (length ms)\<rparr>), k') \<and> queues k' = queues k \<and> fds k' = fds k"
    and mq_send: "fds k d = Some (n, rd) \<Longrightarrow> queues k n = Some ms \<Longrightarrow> int (length m) \<le> mq_msgsize attr0
      \<Longrightarrow> int (length ms) < mq_maxmsg attr0 \<Longrightarrow> \<exists>k'. m_send os d m 0 k = (Inr 0, k')
      \<and> queues k' = (queues k)(n \<mapsto> ms @ [m]) \<and> fds k' = fds k"
    and mq_receive: "fds k d = Some (n, True) \<Longrightarrow> queues k n = Some (m # ms) \<Longrightarrow> mq_msgsize attr0 \<le> int sz
      \<Longrightarrow> \<exists>k'. m_receive os d sz k = (Inr m, k') \<and> queues k' = (queues k)(n \<mapsto> ms) \<and> fds k' = fds k"
    and mq_not_readable: "fds k d = Some (n, False) \<Longrightarrow>
      \<exists>k'. m_receive os d sz k = (Inl EBADF, k') \<and> queues k' = queues k \<and> fds k' = fds k"
    and mq_close: "fds k d = Some (n, rd) \<Longrightarrow> \<exists>k'. m_close os d k = (Inr 0, k')
      \<and> queues k' = queues k \<and> fds k' = (fds k)(d := None)"
begin

lemma exchange_sends:
  assumes "fds (kern s) d = Some (n, rd)" and "queues (kern s) n = Some []"
  shows "\<exists>s'. run_state (mq_exchange os junk d) s = ((), s')
    \<and> queues (kern s') = (queues (kern s))(n \<mapsto> [''abc'']) \<and> fds (kern s') = fds (kern s)
    \<and> drop (length (outs s) + 1) (outs s') = [Printf ''mq_send [abc] %s\<newline>'' [FStr ''success'']]"
proof -
  obtain k where k: "m_getattr os d (kern s) = (Inr (attr0\<lparr>mq_curmsgs := 0\<rparr>), k)"
    "queues k = queues (kern s)" "fds k = fds (kern s)" using mq_getattr [OF assms] by auto
  obtain k' where "m_send os d ''abc'' 0 k = (Inr 0, k')"
    "queues k' = (queues (kern s))(n \<mapsto> [''abc''])" "fds k' = fds (kern s)"
    using mq_send [of k d n rd "[]" "''abc''"] assms k maxmsg msgsize by auto
  with k show ?thesis by (simp add: mq_exchange_def io_simps showAttribute_def Let_def)
qed

lemma exchange_receives:
  assumes "fds (kern s) d = Some (n, True)" and "queues (kern s) n = Some (m # ms)" and "mq_msgsize attr0 \<le> 8192"
  shows "\<exists>s'. run_state (mq_exchange os junk d) s = ((), s')
    \<and> queues (kern s') = (queues (kern s))(n \<mapsto> ms) \<and> fds (kern s') = fds (kern s)
    \<and> drop (length (outs s) + 1) (outs s')
       = [Printf ''mq_receive [%s] %s\<newline>'' [FStr (cstr (m @ replicate (8192 - length m) NUL)), FStr ''success'']]"
proof -
  obtain k where k: "m_getattr os d (kern s) = (Inr (attr0\<lparr>mq_curmsgs := 1 + int (length ms)\<rparr>), k)"
    "queues k = queues (kern s)" "fds k = fds (kern s)" using mq_getattr [OF assms(1,2)] by auto
  obtain k' where "m_receive os d 8192 k = (Inr m, k')"
    "queues k' = (queues (kern s))(n \<mapsto> ms)" "fds k' = fds (kern s)"
    using mq_receive [of k d n m ms 8192] assms k by auto
  moreover have "1 + int (length ms) \<noteq> 0" by linarith
  ultimately show ?thesis using k by (simp add: mq_exchange_def io_simps showAttribute_def Let_def)
qed

text \<open>The creator opened the queue for writing only: a message it finds there it cannot take.\<close>

lemma creator_cannot_receive:
  assumes "fds (kern s) d = Some (n, False)" and "queues (kern s) n = Some (m # ms)"
  shows "\<exists>s'. run_state (mq_exchange os junk d) s = ((), s') \<and> queues (kern s') = queues (kern s)
    \<and> drop (length (outs s) + 1) (outs s') = [Printf ''mq_receive [%s] %s\<newline>'' [FStr [], FStr ''fail'']]"
proof -
  obtain k where k: "m_getattr os d (kern s) = (Inr (attr0\<lparr>mq_curmsgs := 1 + int (length ms)\<rparr>), k)"
    "queues k = queues (kern s)" "fds k = fds (kern s)" using mq_getattr [OF assms(1,2)] by auto
  obtain k' where "m_receive os d 8192 k = (Inl EBADF, k')" "queues k' = queues (kern s)"
    using mq_not_readable [of k d n 8192] assms k by auto
  moreover have "1 + int (length ms) \<noteq> 0" by linarith
  moreover have "cstr (replicate 8192 NUL) = []" by (simp add: cstr_def)
  ultimately show ?thesis using k by (simp add: mq_exchange_def io_simps showAttribute_def Let_def)
qed

text \<open>The rest of \<open>main\<close> when the queue was created, and when it was opened.\<close>

lemma mq_main_created:
  assumes "queues (kern s) mqName = None"
  shows "\<exists>s'. run_state (mq_main os junk) s = (0, s') \<and> queues (kern s') = (queues (kern s))(mqName \<mapsto> [''abc''])
    \<and> last (outs s') = Printf ''mq_send [abc] %s\<newline>'' [FStr ''success'']"
proof -
  obtain d k where k: "m_open_new os mqName (kern s) = (Inr d, k)" "0 \<le> d"
    "queues k = (queues (kern s))(mqName \<mapsto> [])" "fds k = (fds (kern s))(d \<mapsto> (mqName, False))"
    using mq_open_new [OF assms] by blast
  let ?s = "s\<lparr>kern := k, outs := outs s @ [Printf ''create an new message queue\<newline>'' []]\<rparr>"
  obtain s1 where s1: "run_state (mq_exchange os junk d) ?s = ((), s1)"
    "queues (kern s1) = (queues k)(mqName \<mapsto> [''abc''])" "fds (kern s1) = fds k"
    "drop (length (outs ?s) + 1) (outs s1) = [Printf ''mq_send [abc] %s\<newline>'' [FStr ''success'']]"
    using exchange_sends [of ?s d mqName False junk] k by auto
  obtain k' where "m_close os d (kern s1) = (Inr 0, k')" "queues k' = queues (kern s1)"
    using mq_close [of "kern s1" d mqName False] s1(3) k(4) by auto
  with k s1 last_of_drop [OF s1(4)] show ?thesis
    by (simp add: mq_main_def mq_open_or_create_def io_simps)
qed

lemma mq_main_opened:
  assumes "queues (kern s) mqName = Some ms" and "mq_msgsize attr0 \<le> 8192"
  shows "\<exists>s'. run_state (mq_main os junk) s = (0, s')
    \<and> queues (kern s') = (queues (kern s))(mqName \<mapsto> (case ms of [] \<Rightarrow> [''abc''] | m # r \<Rightarrow> r))
    \<and> last (outs s') = (case ms of [] \<Rightarrow> Printf ''mq_send [abc] %s\<newline>'' [FStr ''success'']
       | m # r \<Rightarrow> Printf ''mq_receive [%s] %s\<newline>'' [FStr (cstr (m @ replicate (8192 - length m) NUL)), FStr ''success''])"
proof -
  obtain k0 where k0: "m_open_new os mqName (kern s) = (Inl EEXIST, k0)" "queues k0 = queues (kern s)"
    using mq_open_exists [OF assms(1)] by blast
  obtain d k where k: "m_open_rdwr os mqName k0 = (Inr d, k)" "0 \<le> d"
    "queues k = queues (kern s)" "fds k = (fds k0)(d \<mapsto> (mqName, True))"
    using mq_open_rdwr [of k0 mqName ms] assms(1) k0 by auto
  let ?s = "s\<lparr>errno := EEXIST, kern := k, outs := outs s @ [Printf ''open an exist message queue\<newline>'' []]\<rparr>"
  let ?e = "case ms of [] \<Rightarrow> Printf ''mq_send [abc] %s\<newline>'' [FStr ''success'']
       | m # r \<Rightarrow> Printf ''mq_receive [%s] %s\<newline>'' [FStr (cstr (m @ replicate (8192 - length m) NUL)), FStr ''success'']"
  have "\<exists>s1. run_state (mq_exchange os junk d) ?s = ((), s1)
    \<and> queues (kern s1) = (queues k)(mqName \<mapsto> (case ms of [] \<Rightarrow> [''abc''] | m # r \<Rightarrow> r)) \<and> fds (kern s1) = fds k
    \<and> drop (length (outs ?s) + 1) (outs s1) = [?e]"
    using exchange_sends [of ?s d mqName True junk] exchange_receives [of ?s d mqName _ _ junk] k assms
    by (cases ms) auto
  then obtain s1 where s1: "run_state (mq_exchange os junk d) ?s = ((), s1)"
    "queues (kern s1) = (queues k)(mqName \<mapsto> (case ms of [] \<Rightarrow> [''abc''] | m # r \<Rightarrow> r))" "fds (kern s1) = fds k"
    "drop (length (outs ?s) + 1) (outs s1) = [?e]" by blast
  obtain k' where "m_close os d (kern s1) = (Inr 0, k')" "queues k' = queues (kern s1)"
    using mq_close [of "kern s1" d mqName True] s1(3) k(4) by auto
  moreover have "last (outs s1) = ?e" using s1(4) by (rule last_of_drop)
  ultimately show ?thesis using k0 k s1
    by (simp add: mq_main_def mq_open_or_create_def io_simps)
qed

end

subsection \<open>Queues in memory\<close>

record mqtab =
  mt_queues :: "string \<Rightarrow> char list list option"
  mt_fds :: "int \<Rightarrow> (string \<times> bool) option"
  mt_next :: nat

definition mq_default :: mq_attr where
  "mq_default = \<lparr>mq_flags = 0, mq_maxmsg = 10, mq_msgsize = 8192, mq_curmsgs = 0\<rparr>"

definition mt_open :: "string \<Rightarrow> bool \<Rightarrow> (mqtab, int) kcall" where
  "mt_open n rd k = (Inr (int (mt_next k)), k\<lparr>mt_fds := (mt_fds k)(int (mt_next k) \<mapsto> (n, rd)), mt_next := Suc (mt_next k)\<rparr>)"

definition mt_queue :: "mqtab \<Rightarrow> int \<Rightarrow> (string \<times> bool \<times> char list list) option" where
  "mt_queue k d = (case mt_fds k d of None \<Rightarrow> None
     | Some (n, rd) \<Rightarrow> map_option (\<lambda>ms. (n, rd, ms)) (mt_queues k n))"

definition mqtab_os :: "mqtab mq_os" where
  "mqtab_os = \<lparr>
     m_open_new = (\<lambda>n k. case mt_queues k n of
         Some _ \<Rightarrow> (Inl EEXIST, k)
       | None \<Rightarrow> mt_open n False (k\<lparr>mt_queues := (mt_queues k)(n \<mapsto> [])\<rparr>)),
     m_open_rdwr = (\<lambda>n k. case mt_queues k n of None \<Rightarrow> (Inl ENOENT, k) | Some _ \<Rightarrow> mt_open n True k),
     m_getattr = (\<lambda>d k. case mt_queue k d of None \<Rightarrow> (Inl EBADF, k)
       | Some (n, rd, ms) \<Rightarrow> (Inr (mq_default\<lparr>mq_curmsgs := int (length ms)\<rparr>), k)),
     m_send = (\<lambda>d m prio k. case mt_queue k d of None \<Rightarrow> (Inl EBADF, k)
       | Some (n, rd, ms) \<Rightarrow> if length ms < 10 then (Inr 0, k\<lparr>mt_queues := (mt_queues k)(n \<mapsto> ms @ [m])\<rparr>) else (Inl EAGAIN, k)),
     m_receive = (\<lambda>d sz k. case mt_fds k d of
         Some (n, True) \<Rightarrow> (case mt_queues k n of Some (m # ms) \<Rightarrow> (Inr m, k\<lparr>mt_queues := (mt_queues k)(n \<mapsto> ms)\<rparr>) | _ \<Rightarrow> (Inl EAGAIN, k))
       | _ \<Rightarrow> (Inl EBADF, k)),
     m_close = (\<lambda>d k. case mt_fds k d of None \<Rightarrow> (Inl EBADF, k) | Some _ \<Rightarrow> (Inr 0, k\<lparr>mt_fds := (mt_fds k)(d := None)\<rparr>))\<rparr>"

interpretation mqtab: mq_calls mqtab_os mt_queues mt_fds mq_default
  by unfold_locales (auto simp: mqtab_os_def mt_open_def mt_queue_def mq_default_def split: option.splits)

text \<open>
  C33. \<open>msg-queue\<close>, with calls that do what POSIX says. A run on a queue that does not exist or is
  empty leaves one message in it; a run on a queue with messages takes the first and prints it
  up to its first null byte. So from no queue at all \<open>n\<close> runs leave \<open>n mod 2\<close> messages, and the
  \<open>n\<close>-th of them sends or receives ``abc'', in turn.
\<close>

theorem mq_runs_alternate:
  assumes "mq_calls os queues fds attr0" and "mq_msgsize attr0 \<le> 8192" and "queues (kern s) mqName = None"
  shows "queues (kern (run_times (Suc n) (mq_main os junk) s)) mqName = Some (if even n then [''abc''] else [])
    \<and> last (outs (run_times (Suc n) (mq_main os junk) s))
       = (if even n then Printf ''mq_send [abc] %s\<newline>'' [FStr ''success'']
          else Printf ''mq_receive [%s] %s\<newline>'' [FStr ''abc'', FStr ''success''])"
proof (induction n)
  case 0
  with mq_calls.mq_main_created [OF assms(1,3), of junk] show ?case by (auto simp: run_times_def)
next
  case (Suc n)
  let ?u = "run_times (Suc n) (mq_main os junk) s"
  have "queues (kern ?u) mqName = Some (if even n then [''abc''] else [])" using Suc by blast
  from mq_calls.mq_main_opened [OF assms(1) this assms(2), of junk] show ?case
    by (auto simp: run_times_def cstr_def split: if_splits)
qed

theorem mq_runs_alternate_witness:
  "mt_queues (kern (run_times 2 (mq_main mqtab_os mq_default)
      \<lparr>kern = \<lparr>mt_queues = (\<lambda>_. None), mt_fds = (\<lambda>_. None), mt_next = 3\<rparr>, errno = 0, outs = []\<rparr>)) mqName = Some []"
  using mq_runs_alternate [OF mqtab.mq_calls_axioms,
      of "\<lparr>kern = \<lparr>mt_queues = (\<lambda>_. None), mt_fds = (\<lambda>_. None), mt_next = 3\<rparr>, errno = 0, outs = []\<rparr>" 1 mq_default]
  by (simp add: mq_default_def numeral_2_eq_2)

end
