(* ===== verification/Unnamed_Sem.thy ===== *)
theory Unnamed_Sem
  imports C_Prelude
begin

text \<open>
  The whole of \<open>process/posix-ipc/semaphore/unnamed.c\<close>: any number of processes of which the first
  creates a piece of shared memory, puts a semaphore and a number into it and counts, while the
  others open it and count too. A step is one call, or one access to the number, of one process;
  every call for whose failure the code has a branch, or whose failure it ignores, can fail.
  An access to shared memory that has no size yet is killed by \<open>SIGBUS\<close>. Two things are undefined:
  a \<open>sem_wait\<close> on a semaphore that was never initialised, and an increment of the number at the
  largest \<open>int\<close>, which 22 processes reach; once a process has done one of them every step is
  possible. A \<open>sem_wait\<close> that fails, which the code does not see, is recorded in \<open>u_failed\<close>.
\<close>

section \<open>State and steps\<close>

record uobj =
  u_sized :: bool
  u_inited :: bool
  u_sem :: nat
  u_number :: int

text \<open>
  Places of a process: the calls of \<open>_mapSharedMemory\<close> (the flag is \<open>createNew\<close>), \<open>sem_init\<close>, the
  counting loop with the rounds done (\<open>(*number)++\<close> is a load and a store), the report, the
  removal of the name.
\<close>

datatype upc = UOpen | UReopen | UTrunc nat | UMap nat bool | UInit nat
  | UWait nat bool nat | ULoad nat bool nat | UStore nat bool nat int | UPost nat bool nat
  | UReport nat bool | UUnlink bool | UDone | UFail | UBus | UUndef

text \<open>
  \<open>u_adds\<close> counts the stores to an object, \<open>u_log\<close> has the numbers of the finish messages,
  \<open>u_failed\<close> says that some \<open>sem_wait\<close> has failed.
\<close>

record usys =
  u_name :: "nat option"
  u_obj :: "nat \<Rightarrow> uobj"
  u_fresh :: nat
  u_pc :: "nat \<Rightarrow> upc"
  u_adds :: "nat \<Rightarrow> nat"
  u_log :: "(bool \<times> int) list"
  u_failed :: bool

definition ugoto :: "nat \<Rightarrow> upc \<Rightarrow> usys \<Rightarrow> usys" where
  "ugoto i p s = s\<lparr>u_pc := (u_pc s)(i := p)\<rparr>"

definition uset :: "nat \<Rightarrow> uobj \<Rightarrow> usys \<Rightarrow> usys" where
  "uset x b s = s\<lparr>u_obj := (u_obj s)(x := b)\<rparr>"

text \<open>\<open>_mapSharedMemory\<close>.\<close>

inductive map_step :: "nat \<Rightarrow> usys \<Rightarrow> usys \<Rightarrow> bool" for i :: nat where
  u_create: "u_pc s i = UOpen \<Longrightarrow> u_name s = None \<Longrightarrow>
    map_step i s (ugoto i (UTrunc (u_fresh s)) (uset (u_fresh s) \<lparr>u_sized = False, u_inited = False, u_sem = 0, u_number = 0\<rparr>
      (s\<lparr>u_name := Some (u_fresh s), u_fresh := Suc (u_fresh s)\<rparr>)))"
| u_open_fails: "u_pc s i = UOpen \<Longrightarrow> map_step i s (ugoto i UReopen s)"
| u_reopen: "u_pc s i = UReopen \<Longrightarrow> u_name s = Some x \<Longrightarrow> map_step i s (ugoto i (UMap x False) s)"
| u_reopen_fails: "u_pc s i = UReopen \<Longrightarrow> map_step i s (ugoto i UFail s)"
| u_truncate: "u_pc s i = UTrunc x \<Longrightarrow>
    map_step i s (ugoto i (UMap x True) (uset x ((u_obj s x)\<lparr>u_sized := True\<rparr>) s))"
| u_truncate_fails: "u_pc s i = UTrunc x \<Longrightarrow> map_step i s (ugoto i (UMap x True) s)"
| u_mapped: "u_pc s i = UMap x new \<Longrightarrow> map_step i s (ugoto i (if new then UInit x else UWait x False 0) s)"
| u_map_fails: "u_pc s i = UMap x new \<Longrightarrow> map_step i s (ugoto i UFail s)"

definition max_sem_value :: nat where
  "max_sem_value = 2147483647"

definition max_int_value :: int where
  "max_int_value = 2147483647"

text \<open>The rest of \<open>main\<close>, with \<open>N\<close> rounds.\<close>

inductive count_step :: "nat \<Rightarrow> nat \<Rightarrow> usys \<Rightarrow> usys \<Rightarrow> bool" for N i :: nat where
  u_init: "u_pc s i = UInit x \<Longrightarrow> u_sized (u_obj s x) \<Longrightarrow>
    count_step N i s (ugoto i (UWait x True 0) (uset x ((u_obj s x)\<lparr>u_inited := True, u_sem := 1\<rparr>) s))"
| u_init_fails: "u_pc s i = UInit x \<Longrightarrow> count_step N i s (ugoto i UFail s)"
| u_init_bus: "u_pc s i = UInit x \<Longrightarrow> \<not> u_sized (u_obj s x) \<Longrightarrow> count_step N i s (ugoto i UBus s)"
| u_wait: "u_pc s i = UWait x new n \<Longrightarrow> n < N \<Longrightarrow> u_sized (u_obj s x) \<Longrightarrow> u_inited (u_obj s x) \<Longrightarrow> 0 < u_sem (u_obj s x) \<Longrightarrow>
    count_step N i s (ugoto i (ULoad x new n) (uset x ((u_obj s x)\<lparr>u_sem := u_sem (u_obj s x) - 1\<rparr>) s))"
| u_wait_undefined: "u_pc s i = UWait x new n \<Longrightarrow> n < N \<Longrightarrow> u_sized (u_obj s x) \<Longrightarrow> \<not> u_inited (u_obj s x) \<Longrightarrow>
    count_step N i s (ugoto i UUndef s)"
| u_wait_fails: "u_pc s i = UWait x new n \<Longrightarrow> n < N \<Longrightarrow> u_sized (u_obj s x) \<Longrightarrow> u_inited (u_obj s x) \<Longrightarrow>
    count_step N i s (ugoto i (ULoad x new n) (s\<lparr>u_failed := True\<rparr>))"
| u_wait_bus: "u_pc s i = UWait x new n \<Longrightarrow> n < N \<Longrightarrow> \<not> u_sized (u_obj s x) \<Longrightarrow> count_step N i s (ugoto i UBus s)"
| u_load: "u_pc s i = ULoad x new n \<Longrightarrow> count_step N i s (ugoto i (UStore x new n (u_number (u_obj s x))) s)"
| u_store: "u_pc s i = UStore x new n v \<Longrightarrow> v < max_int_value \<Longrightarrow>
    count_step N i s (ugoto i (UPost x new n) (uset x ((u_obj s x)\<lparr>u_number := v + 1\<rparr>)
      (s\<lparr>u_adds := (u_adds s)(x := Suc (u_adds s x))\<rparr>)))"
| u_overflow: "u_pc s i = UStore x new n v \<Longrightarrow> \<not> v < max_int_value \<Longrightarrow> count_step N i s (ugoto i UUndef s)"
| u_post: "u_pc s i = UPost x new n \<Longrightarrow> u_sem (u_obj s x) < max_sem_value \<Longrightarrow>
    count_step N i s (ugoto i (UWait x new (Suc n)) (uset x ((u_obj s x)\<lparr>u_sem := u_sem (u_obj s x) + 1\<rparr>) s))"
| u_post_fails: "u_pc s i = UPost x new n \<Longrightarrow> \<not> u_sem (u_obj s x) < max_sem_value \<Longrightarrow>
    count_step N i s (ugoto i (UWait x new (Suc n)) s)"
| u_counted: "u_pc s i = UWait x new n \<Longrightarrow> \<not> n < N \<Longrightarrow> count_step N i s (ugoto i (UReport x new) s)"
| u_report: "u_pc s i = UReport x new \<Longrightarrow>
    count_step N i s (ugoto i (UUnlink new) (s\<lparr>u_log := u_log s @ [(new, u_number (u_obj s x))]\<rparr>))"
| u_unlink: "u_pc s i = UUnlink new \<Longrightarrow>
    count_step N i s (ugoto i UDone (if new then s\<lparr>u_name := None\<rparr> else s))"
| u_anything: "u_pc s i = UUndef \<Longrightarrow> u_pc t i = UUndef \<Longrightarrow> count_step N i s t"

definition usys_step :: "nat \<Rightarrow> usys \<Rightarrow> usys \<Rightarrow> bool" where
  "usys_step N s t \<longleftrightarrow> (\<exists>i. map_step i s t \<or> count_step N i s t)"

definition usys_start :: usys where
  "usys_start = \<lparr>u_name = None, u_obj = (\<lambda>_. \<lparr>u_sized = False, u_inited = False, u_sem = 0, u_number = 0\<rparr>),
     u_fresh = 0, u_pc = (\<lambda>_. UOpen), u_adds = (\<lambda>_. 0), u_log = [], u_failed = False\<rparr>"

definition usys_init :: "usys \<Rightarrow> bool" where
  "usys_init s \<longleftrightarrow> s = usys_start"

section \<open>Invariant\<close>

text \<open>The object of a place; the places between \<open>sem_wait\<close> and \<open>sem_post\<close>; those before \<open>sem_init\<close>.\<close>

fun on_obj :: "upc \<Rightarrow> nat option" where
  "on_obj (UTrunc x) = Some x"
| "on_obj (UMap x new) = Some x"
| "on_obj (UInit x) = Some x"
| "on_obj (UWait x new n) = Some x"
| "on_obj (ULoad x new n) = Some x"
| "on_obj (UStore x new n v) = Some x"
| "on_obj (UPost x new n) = Some x"
| "on_obj (UReport x new) = Some x"
| "on_obj _ = None"

fun crit_of :: "upc \<Rightarrow> nat option" where
  "crit_of (ULoad x new n) = Some x"
| "crit_of (UStore x new n v) = Some x"
| "crit_of (UPost x new n) = Some x"
| "crit_of _ = None"

fun sets_up :: "upc \<Rightarrow> nat option" where
  "sets_up (UTrunc x) = Some x"
| "sets_up (UMap x new) = (if new then Some x else None)"
| "sets_up (UInit x) = Some x"
| "sets_up _ = None"

text \<open>What a place says about the number: the rounds of the process itself are in it.\<close>

fun progress_ok :: "nat \<Rightarrow> (nat \<Rightarrow> uobj) \<Rightarrow> upc \<Rightarrow> bool" where
  "progress_ok N f (UWait x new n) \<longleftrightarrow> int n \<le> u_number (f x)"
| "progress_ok N f (ULoad x new n) \<longleftrightarrow> int n \<le> u_number (f x)"
| "progress_ok N f (UStore x new n v) \<longleftrightarrow> v = u_number (f x) \<and> int n \<le> v"
| "progress_ok N f (UPost x new n) \<longleftrightarrow> int n < u_number (f x)"
| "progress_ok N f (UReport x new) \<longleftrightarrow> int N \<le> u_number (f x)"
| "progress_ok N f p \<longleftrightarrow> True"

text \<open>The semaphore of an object: free, or taken by exactly one process; untouched before \<open>sem_init\<close>.\<close>

definition sem_ok :: "(nat \<Rightarrow> upc) \<Rightarrow> nat \<Rightarrow> uobj \<Rightarrow> bool" where
  "sem_ok pcs x b \<longleftrightarrow> (if u_inited b
     then (\<exists>h. guards h (\<lambda>i. crit_of (pcs i) = Some x) \<and> u_sem b = (if h = None then 1 else 0)) \<and> (\<forall>i. sets_up (pcs i) \<noteq> Some x)
     else u_sem b = 0 \<and> (\<forall>i. crit_of (pcs i) \<noteq> Some x))"

text \<open>No object is set up by two processes.\<close>

definition one_setup :: "(nat \<Rightarrow> upc) \<Rightarrow> bool" where
  "one_setup f \<longleftrightarrow> (\<forall>i j x. sets_up (f i) = Some x \<longrightarrow> sets_up (f j) = Some x \<longrightarrow> i = j)"

lemma one_setup_keep: "one_setup f \<Longrightarrow> sets_up q = None \<or> sets_up q = sets_up (f i) \<Longrightarrow> one_setup (f(i := q))"
  unfolding one_setup_def by (metis fun_upd_apply option.distinct(1))

lemma one_setup_new:
  "one_setup f \<Longrightarrow> sets_up q = Some x \<Longrightarrow> (\<And>j. sets_up (f j) \<noteq> Some x) \<Longrightarrow> one_setup (f(i := q))"
  unfolding one_setup_def by (metis fun_upd_apply option.inject)

definition uinv :: "nat \<Rightarrow> usys \<Rightarrow> bool" where
  "uinv N s \<longleftrightarrow> (\<forall>x. u_name s = Some x \<longrightarrow> x < u_fresh s)
     \<and> (\<forall>i x. on_obj (u_pc s i) = Some x \<longrightarrow> x < u_fresh s)
     \<and> one_setup (u_pc s)
     \<and> (\<forall>x. sem_ok (u_pc s) x (u_obj s x))
     \<and> (\<forall>x. u_number (u_obj s x) = int (u_adds s x))
     \<and> (\<forall>x. u_fresh s \<le> x \<longrightarrow> u_adds s x = 0)
     \<and> (\<forall>i. progress_ok N (u_obj s) (u_pc s i))
     \<and> (\<forall>e \<in> set (u_log s). int N \<le> snd e)"

lemma uinv_start: "uinv N usys_start"
  by (simp add: uinv_def usys_start_def sem_ok_def one_setup_def)

lemma sem_ok_move:
  assumes "sem_ok f y b" and "crit_of q = Some y \<longleftrightarrow> crit_of (f i) = Some y"
    and "sets_up q = Some y \<Longrightarrow> sets_up (f i) = Some y"
    and "u_inited b' = u_inited b" and "u_sem b' = u_sem b"
  shows "sem_ok (f(i := q)) y b'"
proof -
  have "(\<lambda>j. crit_of ((f(i := q)) j) = Some y) = (\<lambda>j. crit_of (f j) = Some y)" using assms(2) by (auto simp: fun_eq_iff)
  then show ?thesis using assms(1,3-5) unfolding sem_ok_def by (auto split: if_splits dest: fun_cong)
qed

lemma sem_ok_take:
  assumes "sem_ok f x b" and "u_inited b" and "0 < u_sem b" and "crit_of q = Some x" and "sets_up q = None"
  shows "sem_ok (f(i := q)) x (b\<lparr>u_sem := u_sem b - 1\<rparr>)"
proof -
  have "guards None (\<lambda>j. crit_of (f j) = Some x)" "u_sem b = 1"
    using assms(1-3) by (auto simp: sem_ok_def split: if_splits)
  moreover have "(\<lambda>j. crit_of ((f(i := q)) j) = Some x) = (\<lambda>j. crit_of (f j) = Some x)(i := True)"
    using assms(4) by (auto simp: fun_eq_iff)
  ultimately show ?thesis using assms guards_acquire unfolding sem_ok_def
    by (auto intro!: exI [of _ "Some i"])
qed

lemma sem_ok_crit:
  assumes "sem_ok f x b" and "crit_of (f i) = Some x"
  shows "u_inited b" "u_sem b = 0" "crit_of (f j) = Some x \<Longrightarrow> j = i" "sets_up (f j) \<noteq> Some x"
  using assms by (auto simp: sem_ok_def guards_def split: if_splits)

lemma sem_ok_free:
  assumes "\<And>j. crit_of (g j) \<noteq> Some x" and "\<And>j. sets_up (g j) \<noteq> Some x" and "u_inited b" and "u_sem b = 1"
  shows "sem_ok g x b"
proof -
  have "guards None (\<lambda>j. crit_of (g j) = Some x)" using assms(1) by (simp add: guards_def)
  then show ?thesis using assms(2-4) unfolding sem_ok_def by (metis (mono_tags, lifting))
qed

lemma sem_ok_give:
  assumes "sem_ok f x b" and "crit_of (f i) = Some x" and "crit_of q = None" and "sets_up q = None"
  shows "sem_ok (f(i := q)) x (b\<lparr>u_sem := u_sem b + 1\<rparr>)"
  using assms(3,4) sem_ok_crit [OF assms(1,2)] by (intro sem_ok_free) auto

lemma sem_ok_set_up:
  assumes "sem_ok f x b" and "sets_up (f i) = Some x" and "crit_of q = None" and "sets_up q = None"
    and "\<And>j. sets_up (f j) = Some x \<Longrightarrow> j = i"
  shows "sem_ok (f(i := q)) x (b\<lparr>u_inited := True, u_sem := 1\<rparr>)"
proof -
  have "crit_of (f j) \<noteq> Some x" for j using sem_ok_crit(4) [OF assms(1), of j i] assms(2) by blast
  then show ?thesis using assms(3-5) by (intro sem_ok_free) auto
qed

text \<open>The steps that only move a process, or change what no other clause speaks of.\<close>

lemma uinv_move:
  assumes "uinv N s" and "\<And>x. on_obj q = Some x \<Longrightarrow> x < u_fresh s" and "crit_of q = crit_of (u_pc s i)"
    and "sets_up q = None \<or> sets_up q = sets_up (u_pc s i)" and "progress_ok N (u_obj s) q"
  shows "uinv N (ugoto i q s)"
proof -
  have "sem_ok ((u_pc s)(i := q)) x (u_obj s x)" for x
    using assms by (intro sem_ok_move [of "u_pc s" x "u_obj s x"]) (auto simp: uinv_def)
  moreover have "one_setup ((u_pc s)(i := q))" using assms one_setup_keep by (auto simp: uinv_def)
  ultimately show ?thesis using assms unfolding uinv_def ugoto_def by auto
qed

text \<open>The steps that change one object and leave its number as it is.\<close>

lemma uinv_obj:
  assumes "uinv N s" and "on_obj q = Some x" and "x < u_fresh s" and "u_number b = u_number (u_obj s x)"
    and "crit_of (u_pc s i) = None \<or> crit_of (u_pc s i) = Some x"
    and "sets_up q = None \<or> sets_up q = sets_up (u_pc s i)"
    and "sem_ok ((u_pc s)(i := q)) x b" and "progress_ok N (u_obj s) q" and "crit_of q = None \<or> crit_of q = Some x"
  shows "uinv N (ugoto i q (uset x b s))"
proof -
  let ?f = "(u_obj s)(x := b)"
  have num: "u_number (?f y) = u_number (u_obj s y)" for y using assms(4) by simp
  have prog: "progress_ok N ?f p \<longleftrightarrow> progress_ok N (u_obj s) p" for p
    by (cases p) (simp_all add: num del: fun_upd_apply)
  have "sem_ok ((u_pc s)(i := q)) y (?f y)" for y
  proof (cases "y = x")
    case False
    with assms show ?thesis by (intro sem_ok_move [of "u_pc s" y "u_obj s y"]) (auto simp: uinv_def)
  qed (use assms(7) in simp)
  moreover have "one_setup ((u_pc s)(i := q))" using assms one_setup_keep by (auto simp: uinv_def)
  moreover have "on_obj (((u_pc s)(i := q)) j) = Some y \<longrightarrow> y < u_fresh s" for j y
    using assms by (auto simp: uinv_def)
  moreover have "progress_ok N ?f (((u_pc s)(i := q)) j)" for j
    unfolding prog using assms by (simp add: uinv_def)
  ultimately show ?thesis using assms(1) num unfolding uinv_def ugoto_def uset_def
    by (simp del: fun_upd_apply)
qed

lemma uinv_create:
  assumes "uinv N s" and "u_pc s i = UOpen"
  shows "uinv N (ugoto i (UTrunc (u_fresh s)) (uset (u_fresh s) \<lparr>u_sized = False, u_inited = False, u_sem = 0, u_number = 0\<rparr>
      (s\<lparr>u_name := Some (u_fresh s), u_fresh := Suc (u_fresh s)\<rparr>)))"
proof -
  let ?x = "u_fresh s"
  let ?b = "\<lparr>u_sized = False, u_inited = False, u_sem = 0, u_number = 0\<rparr>"
  have on: "on_obj (u_pc s j) \<noteq> Some ?x" for j using assms(1) by (auto simp: uinv_def)
  have "crit_of p = Some ?x \<Longrightarrow> on_obj p = Some ?x" "sets_up p = Some ?x \<Longrightarrow> on_obj p = Some ?x" for p
    by (cases p; auto split: if_splits)+
  with on have new: "crit_of (u_pc s j) \<noteq> Some ?x" "sets_up (u_pc s j) \<noteq> Some ?x" for j by blast+
  have prog: "progress_ok N ((u_obj s)(?x := ?b)) (u_pc s j)" for j
  proof -
    have "progress_ok N (u_obj s) (u_pc s j)" using assms(1) by (simp add: uinv_def)
    with on [of j] show ?thesis by (cases "u_pc s j") auto
  qed
  have "sem_ok ((u_pc s)(i := UTrunc ?x)) y (((u_obj s)(?x := ?b)) y)" for y
  proof (cases "y = ?x")
    case False
    with assms show ?thesis by (auto intro: sem_ok_move [of "u_pc s" y "u_obj s y"] simp: uinv_def)
  qed (use new in \<open>auto simp: sem_ok_def\<close>)
  moreover have "one_setup ((u_pc s)(i := UTrunc ?x))"
    using assms(1) new(2) by (intro one_setup_new [of _ _ ?x]) (auto simp: uinv_def)
  ultimately show ?thesis using assms new prog unfolding uinv_def ugoto_def uset_def
    by (auto simp: less_Suc_eq)
qed

lemma uinv_store:
  assumes "uinv N s" and "u_pc s i = UStore x new n v"
  shows "uinv N (ugoto i (UPost x new n) (uset x ((u_obj s x)\<lparr>u_number := v + 1\<rparr>)
      (s\<lparr>u_adds := (u_adds s)(x := Suc (u_adds s x))\<rparr>)))"
proof -
  let ?b = "(u_obj s x)\<lparr>u_number := v + 1\<rparr>"
  have v: "v = u_number (u_obj s x)" "int n \<le> v" and ok: "sem_ok (u_pc s) x (u_obj s x)" and lt: "x < u_fresh s"
    and pr: "\<And>j. progress_ok N (u_obj s) (u_pc s j)"
  proof -
    have "progress_ok N (u_obj s) (u_pc s i)" "on_obj (u_pc s i) = Some x \<longrightarrow> x < u_fresh s"
      using assms(1) by (auto simp: uinv_def)
    then show "v = u_number (u_obj s x)" "int n \<le> v" "x < u_fresh s" using assms(2) by auto
  qed (use assms(1) in \<open>auto simp: uinv_def\<close>)
  have alone: "crit_of (u_pc s j) = Some x \<Longrightarrow> j = i" for j using sem_ok_crit(3) [OF ok, of i j] assms(2) by simp
  have prog: "progress_ok N ((u_obj s)(x := ?b)) (u_pc s j)" if "j \<noteq> i" for j
    using pr [of j] alone [of j] that v(1) by (cases "u_pc s j") auto
  have "sem_ok ((u_pc s)(i := UPost x new n)) y (((u_obj s)(x := ?b)) y)" for y
    using assms by (intro sem_ok_move [of "u_pc s" y "u_obj s y"]) (auto simp: uinv_def)
  moreover have "one_setup ((u_pc s)(i := UPost x new n))" using assms(1) by (auto intro: one_setup_keep simp: uinv_def)
  ultimately show ?thesis using assms v lt prog unfolding uinv_def ugoto_def uset_def by auto
qed

lemma uinv_facts:
  assumes "uinv N s"
  shows "sem_ok (u_pc s) x (u_obj s x)" "on_obj (u_pc s i) = Some x \<Longrightarrow> x < u_fresh s"
    "progress_ok N (u_obj s) (u_pc s i)" "u_name s = Some x \<Longrightarrow> x < u_fresh s"
    "sets_up (u_pc s i) = Some x \<Longrightarrow> sets_up (u_pc s j) = Some x \<Longrightarrow> i = j"
    "u_number (u_obj s x) = int (u_adds s x)"
  using assms by (auto simp: uinv_def one_setup_def)

lemma uinv_map_step: "map_step i s t \<Longrightarrow> uinv N s \<Longrightarrow> uinv N t"
proof (induction rule: map_step.induct)
  case (u_create s)
  then show ?case by (intro uinv_create)
next
  case (u_reopen s x)
  then show ?case using uinv_facts(4) [OF u_reopen(3)] by (intro uinv_move) auto
next
  case (u_truncate s x)
  note f = uinv_facts [OF u_truncate(2)]
  have "sem_ok ((u_pc s)(i := UMap x True)) x ((u_obj s x)\<lparr>u_sized := True\<rparr>)"
    using u_truncate by (intro sem_ok_move [OF f(1)]) auto
  with u_truncate f(2) [of i x] show ?case by (intro uinv_obj) auto
next
  case (u_truncate_fails s x)
  then show ?case using uinv_facts(2) [OF u_truncate_fails(2), of i x] by (intro uinv_move) auto
next
  case (u_mapped s x new)
  note f = uinv_facts [OF u_mapped(2)]
  from u_mapped f(2) [of i x] f(6) [of x] show ?case by (intro uinv_move) (auto split: if_splits)
qed (auto intro: uinv_move)

text \<open>What the theorem is not about: an undefined operation was done, or a \<open>sem_wait\<close> has failed.\<close>

definition off_course :: "usys \<Rightarrow> bool" where
  "off_course s \<longleftrightarrow> (\<exists>i. u_pc s i = UUndef) \<or> u_failed s"

lemma off_course_undef: "off_course (ugoto i UUndef s)"
  by (auto simp: off_course_def ugoto_def intro: exI [of _ i])

lemma off_course_move:
  assumes "off_course s" and "u_pc s i \<noteq> UUndef" and "u_failed s \<longrightarrow> u_failed s'" and "u_pc s' = u_pc s"
  shows "off_course (ugoto i q s')"
  using assms by (auto simp: off_course_def ugoto_def)

lemma off_course_map_step: "map_step i s t \<Longrightarrow> off_course s \<Longrightarrow> off_course t"
  by (induction rule: map_step.induct; erule off_course_move; simp add: uset_def)

lemma off_course_count_step: "count_step N i s t \<Longrightarrow> off_course s \<Longrightarrow> off_course t"
proof (induction rule: count_step.induct)
  case (u_anything s t)
  then show ?case by (auto simp: off_course_def)
qed (erule off_course_move; simp add: uset_def)+

lemma uinv_count_step: "count_step N i s t \<Longrightarrow> uinv N s \<Longrightarrow> off_course t \<or> uinv N t"
proof (induction rule: count_step.induct)
  case (u_init s x)
  note f = uinv_facts [OF u_init(3)]
  have "sem_ok ((u_pc s)(i := UWait x True 0)) x ((u_obj s x)\<lparr>u_inited := True, u_sem := 1\<rparr>)"
    using sem_ok_set_up [OF f(1), of i] f(5) [of _ x i] u_init(1) by simp
  with u_init f(2) [of i x] f(6) [of x] show ?case by - (rule disjI2, rule uinv_obj, auto)
next
  case (u_wait s x new n)
  note f = uinv_facts [OF u_wait(6)]
  have "uinv N (ugoto i (ULoad x new n) (uset x ((u_obj s x)\<lparr>u_sem := u_sem (u_obj s x) - 1\<rparr>) s))"
    using u_wait f(1,2) [of x] f(3) [of i] sem_ok_take [OF f(1)] f(2) [of i x] by (intro uinv_obj) auto
  then show ?case ..
next
  case (u_load s x new n)
  note f = uinv_facts [OF u_load(2)]
  show ?case using u_load f(2) [of i x] f(3) [of i] by - (rule disjI2, rule uinv_move, auto)
next
  case (u_store s x new n v)
  then show ?case by - (rule disjI2, rule uinv_store, auto)
next
  case (u_post s x new n)
  note f = uinv_facts [OF u_post(3)]
  have "sem_ok ((u_pc s)(i := UWait x new (Suc n))) x ((u_obj s x)\<lparr>u_sem := u_sem (u_obj s x) + 1\<rparr>)"
    using sem_ok_give [OF f(1), of i] u_post(1) by simp
  with u_post f(2) [of i x] f(3) [of i] show ?case by - (rule disjI2, rule uinv_obj, auto)
next
  case (u_post_fails s x new n)
  then show ?case using sem_ok_crit(2) [OF uinv_facts(1) [OF u_post_fails(3)], of i x] by (simp add: max_sem_value_def)
next
  case (u_wait_fails s x new n)
  then show ?case by (simp add: off_course_def ugoto_def)
next
  case (u_anything s t)
  then show ?case by (auto simp: off_course_def)
next
  case (u_counted s x new n)
  note f = uinv_facts [OF u_counted(3)]
  show ?case using u_counted f(2) [of i x] f(3) [of i] by - (rule disjI2, rule uinv_move, auto)
next
  case (u_report s x new)
  then have "uinv N (ugoto i (UUnlink new) s)" by (intro uinv_move) auto
  with u_report uinv_facts(3) [OF u_report(2), of i] show ?case by (auto simp: uinv_def ugoto_def)
next
  case (u_unlink s new)
  then have "uinv N (ugoto i UDone s)" by (intro uinv_move) auto
  then show ?case by (cases new) (simp_all add: uinv_def ugoto_def del: fun_upd_apply)
qed (auto intro: uinv_move off_course_undef)

interpretation usys: inductive_invariant usys_init "usys_step N" "\<lambda>s. off_course s \<or> uinv N s" for N
proof
  fix s
  assume "usys_init s"
  then show "off_course s \<or> uinv N s" by (simp add: usys_init_def uinv_start)
next
  fix s t
  assume "usys_step N s t" and "off_course s \<or> uinv N s"
  then show "off_course t \<or> uinv N t" unfolding usys_step_def
    by (metis uinv_map_step uinv_count_step off_course_map_step off_course_count_step)
qed

section \<open>Running a schedule\<close>

text \<open>The successful steps as a function: \<open>unnamed_exec N i\<close> runs the next step of process \<open>i\<close>.\<close>

fun unnamed_exec :: "nat \<Rightarrow> nat \<Rightarrow> usys \<Rightarrow> usys option" where
  "unnamed_exec N i s = (case u_pc s i of
      UOpen \<Rightarrow> Some (if u_name s = None
        then ugoto i (UTrunc (u_fresh s)) (uset (u_fresh s) \<lparr>u_sized = False, u_inited = False, u_sem = 0, u_number = 0\<rparr>
          (s\<lparr>u_name := Some (u_fresh s), u_fresh := Suc (u_fresh s)\<rparr>))
        else ugoto i UReopen s)
    | UReopen \<Rightarrow> (case u_name s of None \<Rightarrow> Some (ugoto i UFail s) | Some x \<Rightarrow> Some (ugoto i (UMap x False) s))
    | UTrunc x \<Rightarrow> Some (ugoto i (UMap x True) (uset x ((u_obj s x)\<lparr>u_sized := True\<rparr>) s))
    | UMap x new \<Rightarrow> Some (ugoto i (if new then UInit x else UWait x False 0) s)
    | UInit x \<Rightarrow> if u_sized (u_obj s x)
        then Some (ugoto i (UWait x True 0) (uset x ((u_obj s x)\<lparr>u_inited := True, u_sem := 1\<rparr>) s))
        else Some (ugoto i UBus s)
    | UWait x new n \<Rightarrow>
        if \<not> n < N then Some (ugoto i (UReport x new) s)
        else if \<not> u_sized (u_obj s x) then Some (ugoto i UBus s)
        else if \<not> u_inited (u_obj s x) then Some (ugoto i UUndef s)
        else if 0 < u_sem (u_obj s x)
        then Some (ugoto i (ULoad x new n) (uset x ((u_obj s x)\<lparr>u_sem := u_sem (u_obj s x) - 1\<rparr>) s)) else None
    | ULoad x new n \<Rightarrow> Some (ugoto i (UStore x new n (u_number (u_obj s x))) s)
    | UStore x new n v \<Rightarrow> if v < max_int_value
        then Some (ugoto i (UPost x new n) (uset x ((u_obj s x)\<lparr>u_number := v + 1\<rparr>)
          (s\<lparr>u_adds := (u_adds s)(x := Suc (u_adds s x))\<rparr>)))
        else Some (ugoto i UUndef s)
    | UPost x new n \<Rightarrow> if u_sem (u_obj s x) < max_sem_value
        then Some (ugoto i (UWait x new (Suc n)) (uset x ((u_obj s x)\<lparr>u_sem := u_sem (u_obj s x) + 1\<rparr>) s))
        else Some (ugoto i (UWait x new (Suc n)) s)
    | UReport x new \<Rightarrow> Some (ugoto i (UUnlink new) (s\<lparr>u_log := u_log s @ [(new, u_number (u_obj s x))]\<rparr>))
    | UUnlink new \<Rightarrow> Some (ugoto i UDone (if new then s\<lparr>u_name := None\<rparr> else s))
    | _ \<Rightarrow> None)"

fun unnamed_run :: "nat \<Rightarrow> nat list \<Rightarrow> usys \<Rightarrow> usys option" where
  "unnamed_run N [] s = Some s"
| "unnamed_run N (i # is) s = Option.bind (unnamed_exec N i s) (unnamed_run N is)"

lemma unnamed_exec_sound: "unnamed_exec N i s = Some t \<Longrightarrow> map_step i s t \<or> count_step N i s t"
  by (cases "u_pc s i")
    (auto split: if_splits option.splits simp: map_step.simps count_step.simps)

lemma unnamed_run_sound: "unnamed_run N is s = Some t \<Longrightarrow> (usys_step N)\<^sup>*\<^sup>* s t"
proof (induction "is" arbitrary: s)
  case (Cons i "is")
  then obtain u where "unnamed_exec N i s = Some u" "unnamed_run N is u = Some t"
    by (auto simp: bind_eq_Some_conv simp del: unnamed_exec.simps)
  with Cons.IH [of u] unnamed_exec_sound [of N i s u] show ?case
    unfolding usys_step_def by (metis (mono_tags, lifting) converse_rtranclp_into_rtranclp)
qed simp

lemma unnamed_run_reach: "unnamed_run N is usys_start = Some t \<Longrightarrow> reach usys_init (usys_step N) t"
  by (rule reach_run [OF reach_init [of usys_init] unnamed_run_sound]) (simp add: usys_init_def)

text \<open>
  The second process is not held back until the memory has a size and the semaphore a value:
  one run of it ends with \<open>SIGBUS\<close>, one waits on a semaphore that is not initialised.
\<close>

lemma unnamed_creation_races:
  "(\<exists>s. reach usys_init (usys_step 5) s \<and> u_pc s 1 = UBus)
    \<and> (\<exists>s. reach usys_init (usys_step 5) s \<and> u_pc s 1 = UUndef)"
proof
  have "\<exists>s. unnamed_run 5 [0, 1, 1, 1, 1] usys_start = Some s \<and> u_pc s 1 = UBus"
    by (simp add: usys_start_def ugoto_def uset_def)
  then show "\<exists>s. reach usys_init (usys_step 5) s \<and> u_pc s 1 = UBus" by (meson unnamed_run_reach)
  have "\<exists>s. unnamed_run 5 [0, 0, 1, 1, 1, 1] usys_start = Some s \<and> u_pc s 1 = UUndef"
    by (simp add: usys_start_def ugoto_def uset_def)
  then show "\<exists>s. reach usys_init (usys_step 5) s \<and> u_pc s 1 = UUndef" by (meson unnamed_run_reach)
qed

text \<open>A \<open>sem_wait\<close> that fails is taken for a success: two processes then increment at the same time.\<close>

lemma failed_wait_lets_two_in:
  "\<exists>s. reach usys_init (usys_step 5) s \<and> crit_of (u_pc s 0) = Some 0 \<and> crit_of (u_pc s 1) = Some 0
     \<and> (\<forall>i. u_pc s i \<noteq> UUndef)"
proof -
  obtain s where s: "unnamed_run 5 [0, 0, 0, 0, 0, 1, 1, 1] usys_start = Some s" "u_sized (u_obj s 0)" "u_inited (u_obj s 0)"
      "u_pc s = (\<lambda>_. UOpen)(0 := ULoad 0 True 0, 1 := UWait 0 False 0)"
    by (simp add: usys_start_def ugoto_def uset_def)
  let ?t = "ugoto 1 (ULoad 0 False 0) (s\<lparr>u_failed := True\<rparr>)"
  have "count_step 5 1 s ?t" using s by (intro u_wait_fails [where x = 0]) auto
  then have "reach usys_init (usys_step 5) ?t"
    by (intro reach_step [OF unnamed_run_reach [OF s(1)]]) (auto simp: usys_step_def)
  moreover have "u_pc ?t = (\<lambda>_. UOpen)(0 := ULoad 0 True 0, 1 := ULoad 0 False 0)" using s(4) by (simp add: ugoto_def)
  ultimately show ?thesis by (intro exI [of _ ?t]) simp
qed

text \<open>
  C12. The whole of \<open>unnamed.c\<close>, for any number of processes that come and go and any interleaving,
  with the calls of the set-up failing where they can. As long as no process has done something
  undefined (waited on a semaphore that is not initialised, or incremented the largest \<open>int\<close>) and no
  \<open>sem_wait\<close> has failed, at most one process is between \<open>sem_wait\<close> and \<open>sem_post\<close> of an object, the
  number of every object is exactly the number of increments done on it, and every finish message
  shows at least the \<open>maxTestCount\<close> increments of the process itself.
\<close>

theorem unnamed_program_counts:
  assumes "reach usys_init (usys_step N) s" and "\<forall>i. u_pc s i \<noteq> UUndef" and "\<not> u_failed s"
  shows "(crit_of (u_pc s i) = Some x \<longrightarrow> crit_of (u_pc s j) = Some x \<longrightarrow> i = j)
    \<and> u_number (u_obj s x) = int (u_adds s x)
    \<and> (\<forall>(new, v) \<in> set (u_log s). int N \<le> v)"
proof -
  from usys.inv_reach [OF assms(1)] assms(2,3) have inv: "uinv N s" by (simp add: off_course_def)
  then have "sem_ok (u_pc s) x (u_obj s x)" by (rule uinv_facts)
  with sem_ok_crit(3) [of "u_pc s" x "u_obj s x" j i] inv show ?thesis by (auto simp: uinv_def)
qed

theorem unnamed_program_counts_witness:
  "\<exists>s. reach usys_init (usys_step 2) s \<and> u_log s = [(True, 3), (False, 4)] \<and> u_number (u_obj s 0) = int (u_adds s 0)"
proof -
  let ?sched = "[0, 0, 0, 0, 1, 1, 1, 0, 0, 0, 0, 1, 1, 1, 1, 0, 0, 0, 0, 0, 0, 0, 1, 1, 1, 1, 1, 1, 1]"
  obtain s where s: "unnamed_run 2 ?sched usys_start = Some s" "u_log s = [(True, 3), (False, 4)]"
      "u_pc s = (\<lambda>_. UOpen)(0 := UDone, 1 := UDone)" "\<not> u_failed s"
    by (simp add: usys_start_def ugoto_def uset_def max_int_value_def max_sem_value_def)
  have "\<forall>i. u_pc s i \<noteq> UUndef" using s(3) by simp
  with unnamed_program_counts [OF unnamed_run_reach [OF s(1)] _ s(4), of 0 0 0] s unnamed_run_reach [OF s(1)]
  show ?thesis by auto
qed

end
