(* ===== verification/Inotify.thy ===== *)
theory Inotify
  imports C_Prelude
begin

unbundle bit_operations_syntax

text \<open>
  \<open>io/inotify/main.c\<close>: watching paths and decoding the records that \<open>read\<close> delivers. A record
  is a \<open>struct inotify_event\<close>, sixteen bytes in little-endian order, followed by \<open>len\<close> bytes of
  name. Decoding is proved to be the inverse of the kernel's encoding, and never to look outside
  the bytes that were read.
\<close>

section \<open>Records\<close>

record inotify_event =
  wd :: int
  mask :: "32 word"
  cookie :: nat
  len :: nat

definition HEADER :: nat where "HEADER = 16"

definition NAME_MAX :: nat where "NAME_MAX = 255"

definition BUFFER_LENGTH :: nat where
  "BUFFER_LENGTH = 10 * (HEADER + NAME_MAX + 1)"

text \<open>An unsigned number of 32 bits in little-endian order, and as a signed \<open>int\<close>.\<close>

definition u32 :: "char list \<Rightarrow> nat" where
  "u32 bs = (case bs of [a, b, c, d] \<Rightarrow>
      of_char a + 256 * (of_char b + 256 * (of_char c + 256 * of_char d)) | _ \<Rightarrow> 0)"

definition s32 :: "nat \<Rightarrow> int" where
  "s32 n = (if n < 2 ^ 31 then int n else int n - 2 ^ 32)"

text \<open>
  The record at offset \<open>p\<close>; \<open>None\<close> when it does not lie within the buffer (\<open>event->len\<close> would
  then be read outside of it).
\<close>

definition event_at :: "char list \<Rightarrow> nat \<Rightarrow> inotify_event option" where
  "event_at buf p = (if p + HEADER \<le> length buf then
      (let f = (\<lambda>i. u32 (take 4 (drop (p + i) buf))) in
       Some \<lparr>wd = s32 (f 0), mask = of_nat (f 4), cookie = f 8, len = f 12\<rparr>)
     else None)"

section \<open>The program\<close>

text \<open>The masks in the order in which \<open>displayEvent\<close> tests them.\<close>

definition mask_table :: "(32 word \<times> string) list" where
  "mask_table = [(0x1, ''IN_ACCESS''), (0x4, ''IN_ATTRIB''), (0x10, ''IN_CLOSE_NOWRITE''), (0x8, ''IN_CLOSE_WRITE''),
     (0x100, ''IN_CREATE''), (0x200, ''IN_DELETE''), (0x400, ''IN_DELETE_SELF''), (0x8000, ''IN_IGNORED''),
     (0x40000000, ''IN_ISDIR''), (0x2, ''IN_MODIFY''), (0x800, ''IN_MOVE_SELF''), (0x40, ''IN_MOVED_FROM''),
     (0x80, ''IN_MOVED_TO''), (0x20, ''IN_OPEN''), (0x4000, ''IN_Q_OVERFLOW''), (0x2000, ''IN_UNMOUNT'')]"

text \<open>\<open>displayEvent\<close>: what it prints for a record with the name \<open>nm\<close>.\<close>

definition displayEvent :: "inotify_event \<Rightarrow> string \<Rightarrow> outev list" where
  "displayEvent e nm =
     [Printf ''    wd =%2d; '' [FInt (wd e)]]
     @ (if cookie e > 0 then [Printf ''cookie =%4d; '' [FInt (s32 (cookie e))]] else [])
     @ [Printf ''mask = '' []]
     @ map (\<lambda>(b, s). Printf ''%20s'' [FStr s]) (filter (\<lambda>(b, s). mask e AND b \<noteq> 0) mask_table)
     @ (if len e > 0 then [Printf '' name = %s'' [FStr nm]] else [])
     @ [Printf ''\<newline>'' []]"

text \<open>
  The loop over the records (lines 83 to 89): the output, \<open>None\<close> when it leaves the buffer. Each
  turn advances by at least the size of the header.
\<close>

function decode :: "char list \<Rightarrow> nat \<Rightarrow> nat \<Rightarrow> outev list option" where
  "decode buf number p =
     (if p < number then
        (case event_at buf p of
           None \<Rightarrow> None
         | Some e \<Rightarrow> map_option (\<lambda>out. displayEvent e (cstr (drop (p + HEADER) buf)) @ out)
                      (decode buf number (p + HEADER + len e)))
      else Some [])"
  by pat_completeness auto

termination
  by (relation "measure (\<lambda>(buf, number, p). number - p)") (auto simp: HEADER_def)

declare decode.simps [simp del]

text \<open>The calls of the program.\<close>

record 'k inotify_os =
  n_init :: "('k, int) kcall"
  n_add_watch :: "int \<Rightarrow> string \<Rightarrow> ('k, int) kcall"
  n_read :: "int \<Rightarrow> nat \<Rightarrow> ('k, char list) kcall"

definition emit_all :: "outev list \<Rightarrow> ('k, unit) io" where
  "emit_all es = State (\<lambda>s. ((), s\<lparr>outs := outs s @ es\<rparr>))"

lemma run_emit_all [io_simps]: "run_state (emit_all es) s = ((), s\<lparr>outs := outs s @ es\<rparr>)"
  by (simp add: emit_all_def)

datatype watch_end = Running | ReadFailed | OutOfBuffer

text \<open>
  The endless loop of lines 68 to 90, with a fuel for its turns; \<open>stale\<close> is what the buffer
  holds behind the bytes of the last \<open>read\<close>.
\<close>

fun watch_loop :: "'k inotify_os \<Rightarrow> int \<Rightarrow> nat \<Rightarrow> char list \<Rightarrow> ('k, watch_end) io" where
  "watch_loop os fd 0 buf = ret Running"
| "watch_loop os fd (Suc fuel) buf = do {
     (number, bs) \<leftarrow> sysbuf (n_read os fd BUFFER_LENGTH);
     if number = 0 then do {
       _ \<leftarrow> printf ''read inotify fd return 0\<newline>'' [];
       watch_loop os fd fuel buf }
     else if number = -1 then do {
       _ \<leftarrow> printf ''read inotify fd return -1\<newline>'' [];
       ret ReadFailed }
     else do {
       _ \<leftarrow> printf ''read %ld bytes from inotify fd\<newline>'' [FInt number];
       let buf = bs @ drop (length bs) buf;
       case decode buf (length bs) 0 of
         None \<Rightarrow> ret OutOfBuffer
       | Some out \<Rightarrow> do { _ \<leftarrow> emit_all out; watch_loop os fd fuel buf } } }"

fun add_watches :: "'k inotify_os \<Rightarrow> int \<Rightarrow> string list \<Rightarrow> ('k, bool) io" where
  "add_watches os fd [] = ret True"
| "add_watches os fd (path # paths) = do {
     w \<leftarrow> sys (n_add_watch os fd path);
     if w = -1 then do {
       _ \<leftarrow> printf ''inotify add watch %s return -1\<newline>'' [FStr path];
       ret False }
     else do {
       _ \<leftarrow> printf ''using wd: %d watch %s\<newline>'' [FInt w, FStr path];
       add_watches os fd paths } }"

text \<open>\<open>main\<close>: the exit status, \<open>None\<close> while it runs, or \<open>Some None\<close> when it left the buffer.\<close>

definition inotify_main :: "'k inotify_os \<Rightarrow> nat \<Rightarrow> char list \<Rightarrow> string list \<Rightarrow> ('k, int option option) io" where
  "inotify_main os fuel stale argv =
     (if length argv < 2 \<or> argv ! 1 = ''-h'' \<or> argv ! 1 = ''--help'' then do {
        _ \<leftarrow> printf ''usage: %s pathName1 pathName2...\<newline>'' [FStr (argv ! 0)];
        ret (Some (Some 0)) }
      else do {
        fd \<leftarrow> sys (n_init os);
        if fd = -1 then do {
          _ \<leftarrow> printf ''inotify_init return -1\<newline>'' [];
          ret (Some (Some (-1))) }
        else do {
          ok \<leftarrow> add_watches os fd (tl argv);
          if \<not> ok then ret (Some (Some (-1)))
          else do {
            r \<leftarrow> watch_loop os fd fuel stale;
            ret (case r of Running \<Rightarrow> None | ReadFailed \<Rightarrow> Some (Some 0) | OutOfBuffer \<Rightarrow> Some None) } } })"

section \<open>The kernel's encoding\<close>

definition enc32 :: "nat \<Rightarrow> char list" where
  "enc32 n = [char_of n, char_of (n div 256), char_of (n div 65536), char_of (n div 16777216)]"

text \<open>
  A record as \<open>inotify(7)\<close> describes it: the fields, then the name with null bytes up to
  \<open>len\<close>, at least one when there is a name.
\<close>

definition encode :: "inotify_event \<times> string \<Rightarrow> char list" where
  "encode en = (case en of (e, nm) \<Rightarrow>
     enc32 (nat (wd e mod 2 ^ 32)) @ enc32 (unat (mask e)) @ enc32 (cookie e) @ enc32 (len e)
     @ nm @ replicate (len e - length nm) NUL)"

definition record_ok :: "inotify_event \<times> string \<Rightarrow> bool" where
  "record_ok en = (case en of (e, nm) \<Rightarrow> - (2 ^ 31) \<le> wd e \<and> wd e < 2 ^ 31 \<and> cookie e < 2 ^ 32 \<and> len e < 2 ^ 32
     \<and> NUL \<notin> set nm \<and> (if nm = [] then len e = 0 else length nm < len e))"

lemma u32_enc32: "n < 2 ^ 32 \<Longrightarrow> u32 (enc32 n) = n"
proof -
  assume n: "n < 2 ^ 32"
  define a where "a = n div 256"
  define b where "b = a div 256"
  have "n div 65536 = b" "n div 16777216 = b div 256"
    by (simp_all add: a_def b_def div_mult2_eq [symmetric])
  moreover have "b div 256 < 256" using n by (simp add: a_def b_def div_mult2_eq [symmetric])
  moreover have "n = n mod 256 + 256 * a" "a = a mod 256 + 256 * b" "b = b mod 256 + 256 * (b div 256)"
    by (simp_all add: a_def b_def)
  ultimately have "n mod 256 + (256 * (a mod 256) + (65536 * (b mod 256) + 16777216 * (b div 256))) = n"
    by linarith
  with \<open>n div 65536 = b\<close> \<open>n div 16777216 = b div 256\<close> \<open>b div 256 < 256\<close> show ?thesis
    by (simp add: u32_def enc32_def a_def [symmetric])
qed

lemma enc32_length [simp]: "length (enc32 n) = 4"
  by (simp add: enc32_def)

lemma s32_inverse: "- (2 ^ 31) \<le> i \<Longrightarrow> i < 2 ^ 31 \<Longrightarrow> s32 (nat (i mod 2 ^ 32)) = i"
proof (cases "0 \<le> i")
  case False
  assume "- (2 ^ 31) \<le> i" "i < 2 ^ 31"
  moreover have "i mod 2 ^ 32 = (i + 2 ^ 32) mod 2 ^ 32" by simp
  moreover have "(i + 2 ^ 32) mod 2 ^ 32 = i + 2 ^ 32"
    by (rule mod_pos_pos_trivial) (use False \<open>- (2 ^ 31) \<le> i\<close> in simp_all)
  ultimately have "i mod 2 ^ 32 = i + 2 ^ 32" by simp
  with False \<open>- (2 ^ 31) \<le> i\<close> show ?thesis by (simp add: s32_def)
qed (simp add: s32_def)

lemma length_encode: "record_ok (e, nm) \<Longrightarrow> length (encode (e, nm)) = HEADER + len e"
  by (auto simp: encode_def record_ok_def HEADER_def split: if_splits)

text \<open>The header of an encoded record, wherever it stands, is decoded to the record.\<close>

lemma event_at_encode:
  assumes "record_ok (e, nm)"
  shows "event_at (pre @ encode (e, nm) @ rest) (length pre) = Some e"
proof -
  have "take 4 (drop (length pre + 0) (pre @ encode (e, nm) @ rest)) = enc32 (nat (wd e mod 2 ^ 32))"
    "take 4 (drop (length pre + 4) (pre @ encode (e, nm) @ rest)) = enc32 (unat (mask e))"
    "take 4 (drop (length pre + 8) (pre @ encode (e, nm) @ rest)) = enc32 (cookie e)"
    "take 4 (drop (length pre + 12) (pre @ encode (e, nm) @ rest)) = enc32 (len e)"
    by (simp_all add: encode_def)
  moreover have "unat (mask e) < 2 ^ 32" using unsigned_less [of "mask e"] by simp
  moreover have "nat (wd e mod 2 ^ 32) < 2 ^ 32" by (simp add: nat_less_iff)
  ultimately show ?thesis
    using assms length_encode [OF assms] s32_inverse [of "wd e"]
    by (simp add: event_at_def record_ok_def u32_enc32 Let_def)
qed

text \<open>The name printed for an encoded record is its name.\<close>

lemma name_encode:
  assumes "record_ok (e, nm)" and "len e > 0"
  shows "cstr (drop (length pre + HEADER) (pre @ encode (e, nm) @ rest)) = nm"
proof -
  have nm: "nm \<noteq> []" "length nm < len e" "NUL \<notin> set nm" using assms by (auto simp: record_ok_def split: if_splits)
  then have "replicate (len e - length nm) NUL = NUL # replicate (len e - length nm - 1) NUL"
    by (metis Suc_diff_1 replicate_Suc zero_less_diff)
  then have "drop (length pre + HEADER) (pre @ encode (e, nm) @ rest)
      = nm @ NUL # (replicate (len e - length nm - 1) NUL @ rest)"
    by (simp add: encode_def HEADER_def)
  with nm show ?thesis by simp
qed

lemma decode_encode:
  assumes "\<forall>r\<in>set es. record_ok r"
  shows "decode (pre @ concat (map encode es) @ stale) (length pre + length (concat (map encode es))) (length pre)
    = Some (concat (map (\<lambda>(e, nm). displayEvent e nm) es))"
  using assms
proof (induction es arbitrary: pre)
  case Nil
  then show ?case by (simp add: decode.simps)
next
  case (Cons r es)
  obtain e nm where r: "r = (e, nm)" by (cases r)
  have ok: "record_ok (e, nm)" using Cons.prems r by simp
  let ?buf = "pre @ encode (e, nm) @ concat (map encode es) @ stale"
  let ?num = "length pre + length (encode (e, nm)) + length (concat (map encode es))"
  have "decode ?buf ?num (length pre + HEADER + len e) = Some (concat (map (\<lambda>(e, nm). displayEvent e nm) es))"
    using Cons.IH [of "pre @ encode (e, nm)"] Cons.prems length_encode [OF ok]
    by (simp add: add.assoc)
  moreover have "displayEvent e (cstr (drop (length pre + HEADER) ?buf)) = displayEvent e nm"
    using name_encode [OF ok, of pre "concat (map encode es) @ stale"]
    by (cases "0 < len e") (simp_all add: displayEvent_def del: drop_append)
  moreover have "length pre < ?num" using length_encode [OF ok] by (simp add: HEADER_def)
  ultimately show ?case
    using r event_at_encode [OF ok, of pre "concat (map encode es) @ stale"]
    by (simp add: decode.simps [of _ _ "length pre"] add.assoc)
qed

text \<open>
  C36. Decoding is the inverse of the kernel's encoding: for every sequence of well-formed records
  the loop of \<open>io/inotify\<close> stays inside the bytes that were read, visits every record exactly
  once and prints its fields and its name, whatever the buffer held behind them.
\<close>

theorem decode_roundtrip:
  assumes "\<forall>r\<in>set es. record_ok r"
  shows "decode (concat (map encode es) @ stale) (length (concat (map encode es))) 0
    = Some (concat (map (\<lambda>(e, nm). displayEvent e nm) es))"
  using decode_encode [OF assms, of "[]" stale] by simp

theorem decode_roundtrip_witness:
  "decode (encode (\<lparr>wd = 1, mask = 0x100, cookie = 0, len = 16\<rparr>, ''a.txt'')) 32 0
     = Some [Printf ''    wd =%2d; '' [FInt 1], Printf ''mask = '' [], Printf ''%20s'' [FStr ''IN_CREATE''],
         Printf '' name = %s'' [FStr ''a.txt''], Printf ''\<newline>'' []]"
  using decode_roundtrip [of "[(\<lparr>wd = 1, mask = 0x100, cookie = 0, len = 16\<rparr>, ''a.txt'')]" "[]"]
    length_encode [of "\<lparr>wd = 1, mask = 0x100, cookie = 0, len = 16\<rparr>" "''a.txt''"]
  by (simp add: record_ok_def displayEvent_def mask_table_def HEADER_def)

end
