(* ===== verification/Datagrams.thy ===== *)
theory Datagrams
  imports C_Prelude
begin

text \<open>
  The datagram echo demos: \<open>socket/internet_udp\<close> and \<open>socket/unix_domain_udp\<close>, a client and a
  server each. The calls are the record \<open>dgram_os\<close>; a socket address is its family with what
  identifies it. \<open>dnet_os\<close> is a network of queues by address. The two ends are composed by
  letting a server take a turn whenever a client waits in \<open>recvfrom\<close> for an empty queue.
\<close>

section \<open>The calls\<close>

datatype sockaddr = Inet string nat | Unix string

record 'k dgram_os =
  d_socket :: "('k, int) kcall"
  d_bind :: "int \<Rightarrow> sockaddr \<Rightarrow> ('k, int) kcall"
  d_sendto :: "int \<Rightarrow> char list \<Rightarrow> sockaddr \<Rightarrow> ('k, int) kcall"
  d_recvfrom :: "int \<Rightarrow> nat \<Rightarrow> ('k, char list \<times> sockaddr) kcall"
  d_close :: "int \<Rightarrow> ('k, int) kcall"
  d_remove :: "string \<Rightarrow> ('k, int) kcall"
  d_pton :: "string \<Rightarrow> string option"
  d_ntop :: "sockaddr \<Rightarrow> string option"
  d_pid :: nat

definition dgram_buffSize :: nat where "dgram_buffSize = 64"

text \<open>\<open>fatalError\<close> of the four files: the message, and the exit status 1.\<close>

definition dgram_fatalError :: "string \<Rightarrow> ('k, int) io" where
  "dgram_fatalError msg = do { _ \<leftarrow> printf ''%s\<newline>'' [FStr msg]; ret 1 }"

definition htons :: "int \<Rightarrow> nat" where
  "htons port = nat (port mod 65536)"

text \<open>What \<open>%.*s\<close> prints of a buffer.\<close>

definition show_prefix :: "char list \<Rightarrow> farg" where
  "show_prefix bs = FStr (cstr bs)"

section \<open>socket/internet\_udp\<close>

text \<open>
  The loop of \<open>client.c\<close> over the messages, with its loop variable; \<open>None\<close> when all were
  answered, otherwise the exit status.
\<close>

fun udp_client_loop :: "'k dgram_os \<Rightarrow> int \<Rightarrow> sockaddr \<Rightarrow> int \<Rightarrow> string list \<Rightarrow> ('k, int option) io" where
  "udp_client_loop os sfd svr i [] = ret None"
| "udp_client_loop os sfd svr i (msg # msgs) = do {
     sendSize \<leftarrow> sys (d_sendto os sfd (cstr msg) svr);
     if sendSize \<noteq> int (strlen msg) then do { e \<leftarrow> dgram_fatalError ''send error''; ret (Some e) }
     else do {
       r \<leftarrow> sysopt (d_recvfrom os sfd dgram_buffSize);
       case r of
         None \<Rightarrow> do { e \<leftarrow> dgram_fatalError ''recvSize == -1''; ret (Some e) }
       | Some (bs, _) \<Rightarrow> do {
           _ \<leftarrow> printf ''response %d: %.*s\<newline>'' [FInt (i - 1), FInt (int (length bs)), show_prefix bs];
           udp_client_loop os sfd svr (i + 1) msgs } } }"

definition udp_client_main :: "'k dgram_os \<Rightarrow> string list \<Rightarrow> ('k, int) io" where
  "udp_client_main os argv =
     (if length argv < 4 \<or> argv ! 1 = ''--help'' \<or> argv ! 1 = ''-h'' then do {
        _ \<leftarrow> printf ''usage: %s host port msg1 msg2 msg3...\<newline>'' [FStr (argv ! 0)];
        ret 0 }
      else do {
        let port = atoi (argv ! 2);
        if port \<le> 0 then do {
          _ \<leftarrow> printf ''port number(%s) is illegal\<newline>'' [FStr (argv ! 2)];
          ret 1 }
        else do {
          sfd \<leftarrow> sys (d_socket os);
          if sfd = -1 then dgram_fatalError ''sfd == -1''
          else do {
            let svr = Inet (case d_pton os (argv ! 1) of Some a \<Rightarrow> a | None \<Rightarrow> ''0.0.0.0'') (htons port);
            r \<leftarrow> udp_client_loop os sfd svr 3 (drop 3 argv);
            case r of
              Some e \<Rightarrow> ret e
            | None \<Rightarrow> do { _ \<leftarrow> sys (d_close os sfd); ret 0 } } } })"

text \<open>A turn of the loop of \<open>server.c\<close>: \<open>None\<close> to go on, or the exit status.\<close>

definition udp_server_turn :: "'k dgram_os \<Rightarrow> int \<Rightarrow> ('k, int option) io" where
  "udp_server_turn os sfd = do {
     r \<leftarrow> sysopt (d_recvfrom os sfd dgram_buffSize);
     case r of
       None \<Rightarrow> do { e \<leftarrow> dgram_fatalError ''recvSize == -1''; ret (Some e) }
     | Some (bs, clt) \<Rightarrow> do {
         _ \<leftarrow> (case d_ntop os clt of
               None \<Rightarrow> printf ''couldn't convet client address to string\<newline>'' []
             | Some p \<Rightarrow> printf ''server received %ld bytes(%.*s) from (%s:%u)\<newline>''
                 [FInt (int (length bs)), FInt (int (length bs)), show_prefix bs, FStr p,
                  FInt (case clt of Inet _ port \<Rightarrow> int port | Unix _ \<Rightarrow> 0)]);
         sendSize \<leftarrow> sys (d_sendto os sfd bs clt);
         if sendSize \<noteq> int (length bs) then do { e \<leftarrow> dgram_fatalError ''send error''; ret (Some e) }
         else ret None } }"

fun udp_server_loop :: "'k dgram_os \<Rightarrow> int \<Rightarrow> nat \<Rightarrow> ('k, int option) io" where
  "udp_server_loop os sfd 0 = ret None"
| "udp_server_loop os sfd (Suc fuel) = do {
     r \<leftarrow> udp_server_turn os sfd;
     case r of Some e \<Rightarrow> ret (Some e) | None \<Rightarrow> udp_server_loop os sfd fuel }"

definition udp_server_main :: "'k dgram_os \<Rightarrow> nat \<Rightarrow> string list \<Rightarrow> ('k, int option) io" where
  "udp_server_main os fuel argv =
     (if length argv < 2 \<or> argv ! 1 = ''--help'' \<or> argv ! 1 = ''-h'' then do {
        _ \<leftarrow> printf ''usage: %s port\<newline>'' [FStr (argv ! 0)];
        ret (Some 0) }
      else do {
        let port = atoi (argv ! 1);
        if port \<le> 0 then do {
          _ \<leftarrow> printf ''port number(%s) is illegal\<newline>'' [FStr (argv ! 1)];
          ret (Some 1) }
        else do {
          sfd \<leftarrow> sys (d_socket os);
          if sfd = -1 then do { e \<leftarrow> dgram_fatalError ''sfd == -1''; ret (Some e) }
          else do {
            r \<leftarrow> sys (d_bind os sfd (Inet ''0.0.0.0'' (htons port)));
            if r = -1 then do { e \<leftarrow> dgram_fatalError ''bind error''; ret (Some e) }
            else do {
              _ \<leftarrow> printf ''wait for new connect\<newline>'' [];
              udp_server_loop os sfd fuel } } } })"

section \<open>socket/unix\_domain\_udp\<close>

definition g_socketName :: string where
  "g_socketName = ''/tmp/domain_datagrams_socket''"

fun unix_client_loop :: "'k dgram_os \<Rightarrow> int \<Rightarrow> sockaddr \<Rightarrow> int \<Rightarrow> string list \<Rightarrow> ('k, int option) io" where
  "unix_client_loop os sfd svr i [] = ret None"
| "unix_client_loop os sfd svr i (msg # msgs) = do {
     transferLen \<leftarrow> sys (d_sendto os sfd (cstr msg) svr);
     if transferLen \<noteq> int (strlen msg) then do { e \<leftarrow> dgram_fatalError ''sendto error''; ret (Some e) }
     else do {
       r \<leftarrow> sysopt (d_recvfrom os sfd dgram_buffSize);
       case r of
         None \<Rightarrow> do { e \<leftarrow> dgram_fatalError ''recvfrom error''; ret (Some e) }
       | Some (bs, _) \<Rightarrow> do {
           _ \<leftarrow> printf ''response %d: %.*s\<newline>'' [FInt i, FInt (int (length bs)), show_prefix bs];
           unix_client_loop os sfd svr (i + 1) msgs } } }"

text \<open>The decimal digits of a number, as \<open>snprintf\<close> writes the process id.\<close>

fun decimal :: "nat \<Rightarrow> string" where
  "decimal n = (if n < 10 then [char_of (48 + n)] else decimal (n div 10) @ [char_of (48 + n mod 10)])"

declare decimal.simps [simp del]

definition unix_client_main :: "'k dgram_os \<Rightarrow> string list \<Rightarrow> ('k, int) io" where
  "unix_client_main os argv = do {
     sfd \<leftarrow> sys (d_socket os);
     if sfd = -1 then dgram_fatalError ''socket == -1''
     else do {
       let path = take 107 (''/tmp/ud_cl.'' @ decimal (d_pid os));
       _ \<leftarrow> printf ''cltAddr.sun_path is %s\<newline>'' [FStr path];
       r \<leftarrow> sys (d_bind os sfd (Unix path));
       if r = -1 then dgram_fatalError ''bind error''
       else do {
         r \<leftarrow> unix_client_loop os sfd (Unix g_socketName) 1 (drop 1 argv);
         case r of
           Some e \<Rightarrow> ret e
         | None \<Rightarrow> do {
             _ \<leftarrow> sys (d_remove os path);
             _ \<leftarrow> sys (d_close os sfd);
             ret 0 } } } }"

text \<open>
  What the server keeps from turn to turn: \<open>socketSize\<close>, which \<open>recvfrom\<close> reads as the room for an
  address and sets to the length of the sender's (two bytes of family, the path, a null byte), and
  the path in \<open>cltAddr\<close>. A longer address is cut to the room there is, and the bytes behind it
  stay as they were.
\<close>

record unix_srv =
  socketSize :: nat
  sun_path :: "char list"

definition un_addr :: "sockaddr \<Rightarrow> char list" where
  "un_addr a = (case a of Unix path \<Rightarrow> path @ [NUL] | Inet _ _ \<Rightarrow> [])"

definition take_addr :: "sockaddr \<Rightarrow> unix_srv \<Rightarrow> unix_srv" where
  "take_addr from v = (let bs = take (socketSize v - 2) (un_addr from) in
     \<lparr>socketSize = 2 + length (un_addr from), sun_path = bs @ drop (length bs) (sun_path v)\<rparr>)"

text \<open>The address \<open>sendto\<close> is given.\<close>

definition give_addr :: "unix_srv \<Rightarrow> sockaddr" where
  "give_addr v = Unix (cstr (take (socketSize v - 2) (sun_path v)))"

definition unix_server_turn :: "'k dgram_os \<Rightarrow> int \<Rightarrow> unix_srv \<Rightarrow> ('k, int option \<times> unix_srv) io" where
  "unix_server_turn os sfd v = do {
     r \<leftarrow> sysopt (d_recvfrom os sfd dgram_buffSize);
     case r of
       None \<Rightarrow> do { e \<leftarrow> dgram_fatalError ''recvSiz == -1''; ret (Some e, v) }
     | Some (bs, from) \<Rightarrow> do {
         let v = take_addr from v;
         _ \<leftarrow> printf ''server received %d bytes(%.*s) from %s\<newline>''
                [FInt (int (length bs)), FInt (int (length bs)), show_prefix bs, FStr (cstr (sun_path v))];
         sent \<leftarrow> sys (d_sendto os sfd bs (give_addr v));
         if sent \<noteq> int (length bs) then do { e \<leftarrow> dgram_fatalError ''sendto had error''; ret (Some e, v) }
         else ret (None, v) } }"

fun unix_server_loop :: "'k dgram_os \<Rightarrow> int \<Rightarrow> nat \<Rightarrow> unix_srv \<Rightarrow> ('k, int option) io" where
  "unix_server_loop os sfd 0 v = ret None"
| "unix_server_loop os sfd (Suc fuel) v = do {
     (r, v) \<leftarrow> unix_server_turn os sfd v;
     case r of Some e \<Rightarrow> ret (Some e) | None \<Rightarrow> unix_server_loop os sfd fuel v }"

text \<open>\<open>cltAddr\<close> is not initialised: \<open>mem\<close> are the bytes of its path. \<open>struct sockaddr_un\<close> has 110 bytes.\<close>

definition unix_server_main :: "'k dgram_os \<Rightarrow> nat \<Rightarrow> char list \<Rightarrow> ('k, int option) io" where
  "unix_server_main os fuel mem = do {
     r \<leftarrow> sys (d_remove os g_socketName);
     e \<leftarrow> get_errno;
     if r = -1 \<and> e \<noteq> ENOENT then do { e \<leftarrow> dgram_fatalError ''remove /tmp/unix_sock error''; ret (Some e) }
     else do {
       sfd \<leftarrow> sys (d_socket os);
       if sfd = -1 then do { e \<leftarrow> dgram_fatalError ''socket sfd == -1''; ret (Some e) }
       else do {
         r \<leftarrow> sys (d_bind os sfd (Unix g_socketName));
         if r = -1 then do { e \<leftarrow> dgram_fatalError ''bind error''; ret (Some e) }
         else do {
           _ \<leftarrow> printf ''wait for new connection\<newline>'' [];
           unix_server_loop os sfd fuel \<lparr>socketSize = 110, sun_path = mem\<rparr> } } } }"

section \<open>A network of queues\<close>

text \<open>
  The datagrams waiting at each address, with their senders; the address of each descriptor;
  what the server has printed and, for the Unix server, what it keeps. All Internet addresses are on one host, so the port decides.
\<close>

record dnet =
  boxes :: "sockaddr \<Rightarrow> (char list \<times> sockaddr) list"
  bound :: "int \<Rightarrow> sockaddr option"
  next_fd :: nat
  srv_out :: "outev list"
  srv_un :: unix_srv

fun norm :: "sockaddr \<Rightarrow> sockaddr" where
  "norm (Inet h p) = Inet [] p"
| "norm (Unix path) = Unix path"

definition dnet_sendto :: "int \<Rightarrow> char list \<Rightarrow> sockaddr \<Rightarrow> (dnet, int) kcall" where
  "dnet_sendto fd bs to k = (case bound k fd of
      None \<Rightarrow> (Inl EBADF, k)
    | Some from \<Rightarrow> (Inr (int (length bs)), k\<lparr>boxes := (boxes k)(norm to := boxes k (norm to) @ [(bs, from)])\<rparr>))"

text \<open>A datagram longer than the buffer loses its end.\<close>

definition dnet_recvfrom :: "int \<Rightarrow> nat \<Rightarrow> (dnet, char list \<times> sockaddr) kcall" where
  "dnet_recvfrom fd n k = (case bound k fd of
      None \<Rightarrow> (Inl EBADF, k)
    | Some a \<Rightarrow> (case boxes k (norm a) of
        [] \<Rightarrow> (Inl EAGAIN, k)
      | (bs, from) # rest \<Rightarrow> (Inr (take n bs, from), k\<lparr>boxes := (boxes k)(norm a := rest)\<rparr>)))"

definition dnet_os :: "dnet dgram_os" where
  "dnet_os = \<lparr>
     d_socket = (\<lambda>k. (Inr (int (next_fd k)),
        k\<lparr>bound := (bound k)(int (next_fd k) := Some (Inet ''127.0.0.1'' (40000 + next_fd k))), next_fd := Suc (next_fd k)\<rparr>)),
     d_bind = (\<lambda>fd a k. (Inr 0, k\<lparr>bound := (bound k)(fd := Some a)\<rparr>)),
     d_sendto = dnet_sendto, d_recvfrom = dnet_recvfrom,
     d_close = (\<lambda>fd k. (Inr 0, k\<lparr>bound := (bound k)(fd := None)\<rparr>)),
     d_remove = (\<lambda>path k. (Inr 0, k)),
     d_pton = Some, d_ntop = (\<lambda>a. case a of Inet h p \<Rightarrow> Some h | Unix _ \<Rightarrow> None), d_pid = 77\<rparr>"

text \<open>A client waiting for an answer lets the server on descriptor \<open>sfd\<close> take a turn first.\<close>

definition server_acts :: "(dnet dgram_os \<Rightarrow> int \<Rightarrow> (dnet, int option) io) \<Rightarrow> int \<Rightarrow> dnet \<Rightarrow> dnet" where
  "server_acts turn sfd k =
     (let s = snd (run_state (turn dnet_os sfd) \<lparr>kern = k, errno = 0, outs = srv_out k\<rparr>) in
      (kern s)\<lparr>srv_out := outs s\<rparr>)"

definition with_server :: "(dnet dgram_os \<Rightarrow> int \<Rightarrow> (dnet, int option) io) \<Rightarrow> int \<Rightarrow> dnet dgram_os" where
  "with_server turn sfd = dnet_os\<lparr>d_recvfrom := (\<lambda>fd n k. dnet_recvfrom fd n (server_acts turn sfd k))\<rparr>"

text \<open>A turn of the Unix server, with what it keeps.\<close>

definition unix_turn :: "dnet dgram_os \<Rightarrow> int \<Rightarrow> (dnet, int option) io" where
  "unix_turn os sfd = State (\<lambda>s. case run_state (unix_server_turn os sfd (srv_un (kern s))) s of
     ((r, v), s') \<Rightarrow> (r, s'\<lparr>kern := (kern s')\<lparr>srv_un := v\<rparr>\<rparr>))"

text \<open>Client and server have sockets with different addresses, and nothing is under way.\<close>

definition quiet :: "int \<Rightarrow> sockaddr \<Rightarrow> int \<Rightarrow> sockaddr \<Rightarrow> dnet \<Rightarrow> bool" where
  "quiet sfd svr cfd clt k \<longleftrightarrow> bound k sfd = Some svr \<and> bound k cfd = Some clt \<and> norm svr \<noteq> norm clt
     \<and> boxes k (norm svr) = [] \<and> boxes k (norm clt) = []"

text \<open>
  A server that echoes to the clients that \<open>P\<close> allows it: with one datagram in its queue a turn moves
  the first 64 bytes back to the sender, and the sender stays allowed.
\<close>

definition echoes :: "(unix_srv \<Rightarrow> sockaddr \<Rightarrow> bool) \<Rightarrow> (dnet dgram_os \<Rightarrow> int \<Rightarrow> (dnet, int option) io) \<Rightarrow> bool" where
  "echoes P turn \<longleftrightarrow> (\<forall>k sfd svr clt bs. P (srv_un k) clt \<longrightarrow>
     bound k sfd = Some svr \<longrightarrow> norm svr \<noteq> norm clt \<longrightarrow> boxes k (norm svr) = [(bs, clt)] \<longrightarrow>
     (\<exists>out v. server_acts turn sfd k = k\<lparr>boxes := (boxes k)(norm svr := [],
        norm clt := boxes k (norm clt) @ [(take 64 bs, svr)]), srv_un := v, srv_out := srv_out k @ out\<rparr> \<and> P v clt))"

lemma udp_server_echoes: "echoes (\<lambda>_ _. True) udp_server_turn"
proof -
  have "\<exists>out. server_acts udp_server_turn sfd k = k\<lparr>boxes := (boxes k)(norm svr := [],
        norm clt := boxes k (norm clt) @ [(take 64 bs, svr)]), srv_un := srv_un k, srv_out := srv_out k @ out\<rparr>"
    if "bound k sfd = Some svr" "norm svr \<noteq> norm clt" "boxes k (norm svr) = [(bs, clt)]" for k sfd svr clt bs
    using that by (cases k; cases clt) (auto simp: server_acts_def udp_server_turn_def io_simps dnet_os_def dnet_recvfrom_def
      dnet_sendto_def dgram_buffSize_def)
  then show ?thesis unfolding echoes_def by blast
qed

text \<open>
  A client the Unix server can answer: the room the server has for its address is as long as the
  address.
\<close>

definition fits :: "unix_srv \<Rightarrow> sockaddr \<Rightarrow> bool" where
  "fits v clt \<longleftrightarrow> (\<exists>path. clt = Unix path \<and> NUL \<notin> set path \<and> 3 + length path \<le> socketSize v)"

lemma fits_addr:
  assumes "fits v clt"
  shows "give_addr (take_addr clt v) = clt" "fits (take_addr clt v) clt"
  using assms by (auto simp: fits_def give_addr_def take_addr_def un_addr_def Let_def)

lemma unix_server_echoes: "echoes fits unix_turn"
proof -
  have "\<exists>out. server_acts unix_turn sfd k = k\<lparr>boxes := (boxes k)(norm svr := [],
        norm clt := boxes k (norm clt) @ [(take 64 bs, svr)]), srv_un := take_addr clt (srv_un k), srv_out := srv_out k @ out\<rparr>"
    if "fits (srv_un k) clt" "bound k sfd = Some svr" "norm svr \<noteq> norm clt" "boxes k (norm svr) = [(bs, clt)]"
    for k sfd svr clt bs
    using that fits_addr(1) [OF that(1)]
    by (auto simp: server_acts_def unix_turn_def unix_server_turn_def io_simps dnet_os_def dnet_recvfrom_def
      dnet_sendto_def dgram_buffSize_def Let_def)
  then show ?thesis unfolding echoes_def using fits_addr(2) by blast
qed

text \<open>
  A client whose address is longer than the one before is answered at another address: the first
  bytes of its own, then what was in the memory of \<open>cltAddr\<close>.
\<close>

lemma unix_server_cuts:
  assumes "socketSize v = 3 + length a" and "length a < length path" and "NUL \<notin> set path"
  shows "give_addr (take_addr (Unix path) v)
    = Unix (take (length a + 1) path @ cstr (take (length path - length a) (drop (length a + 1) (sun_path v))))"
proof -
  have n: "NUL \<notin> set (take (length a + 1) path)" using assms(3) by (meson in_set_takeD)
  have "cstr (take (length a + 1) path @ ys) = take (length a + 1) path @ cstr ys" for ys
    using n unfolding cstr_def by (intro takeWhile_append2) auto
  moreover have "length (take (length a + 1) path) = length a + 1" using assms(2) by simp
  ultimately show ?thesis using assms(1,2) by (simp add: give_addr_def take_addr_def un_addr_def Let_def)
qed

text \<open>One exchange: the datagram, the server's turn, the answer.\<close>

lemma exchange:
  assumes "echoes P turn" and "quiet sfd svr cfd clt k" and "P (srv_un k) clt"
  shows "\<exists>k1 k2. d_sendto (with_server turn sfd) cfd bs svr k = (Inr (int (length bs)), k1)
    \<and> d_recvfrom (with_server turn sfd) cfd dgram_buffSize k1 = (Inr (take 64 bs, svr), k2)
    \<and> quiet sfd svr cfd clt k2 \<and> P (srv_un k2) clt"
proof -
  let ?k1 = "k\<lparr>boxes := (boxes k)(norm svr := [(bs, clt)])\<rparr>"
  have "bound ?k1 sfd = Some svr" "norm svr \<noteq> norm clt" "boxes ?k1 (norm svr) = [(bs, clt)]" "P (srv_un ?k1) clt"
    using assms(2,3) by (auto simp: quiet_def)
  with assms(1) obtain out v where a: "server_acts turn sfd ?k1
      = ?k1\<lparr>boxes := (boxes ?k1)(norm svr := [], norm clt := boxes ?k1 (norm clt) @ [(take 64 bs, svr)]),
            srv_un := v, srv_out := srv_out ?k1 @ out\<rparr>" and v: "P v clt"
    unfolding echoes_def by blast
  have s: "d_sendto (with_server turn sfd) cfd bs svr k = (Inr (int (length bs)), ?k1)"
    using assms(2) by (simp add: with_server_def dnet_os_def dnet_sendto_def quiet_def)
  have "\<exists>k2. d_recvfrom (with_server turn sfd) cfd dgram_buffSize ?k1 = (Inr (take 64 bs, svr), k2)
      \<and> quiet sfd svr cfd clt k2 \<and> P (srv_un k2) clt"
    using assms(2) v
    by (auto simp: with_server_def a dnet_recvfrom_def quiet_def dgram_buffSize_def)
  with s show ?thesis by blast
qed

text \<open>What a client prints for its messages: numbered answers, each cut to 64 bytes.\<close>

fun responses :: "int \<Rightarrow> string list \<Rightarrow> outev list" where
  "responses n [] = []"
| "responses n (m # ms) = Printf ''response %d: %.*s\<newline>''
     [FInt n, FInt (int (min 64 (strlen m))), FStr (take 64 (cstr m))] # responses (n + 1) ms"

lemma cstr_take_cstr: "cstr (take n (cstr m)) = take n (cstr m)"
proof -
  have "NUL \<notin> set (cstr m)" unfolding cstr_def by (metis (full_types) set_takeWhileD)
  then have "NUL \<notin> set (take n (cstr m))" by (meson in_set_takeD)
  then show ?thesis by simp
qed

lemma udp_client_echo:
  "quiet sfd svr cfd clt (kern s) \<Longrightarrow>
     \<exists>s'. run_state (udp_client_loop (with_server udp_server_turn sfd) cfd svr i msgs) s = (None, s')
       \<and> outs s' = outs s @ responses (i - 1) msgs \<and> quiet sfd svr cfd clt (kern s')"
proof (induction msgs arbitrary: i s)
  case (Cons m ms)
  obtain k1 k2 where e: "d_sendto (with_server udp_server_turn sfd) cfd (cstr m) svr (kern s) = (Inr (int (length (cstr m))), k1)"
    "d_recvfrom (with_server udp_server_turn sfd) cfd dgram_buffSize k1 = (Inr (take 64 (cstr m), svr), k2)"
    "quiet sfd svr cfd clt k2"
    using exchange [OF udp_server_echoes Cons.prems] by blast
  let ?s = "s\<lparr>kern := k2, outs := outs s @ [Printf ''response %d: %.*s\<newline>''
     [FInt (i - 1), FInt (int (min 64 (strlen m))), FStr (take 64 (cstr m))]]\<rparr>"
  have "run_state (udp_client_loop (with_server udp_server_turn sfd) cfd svr i (m # ms)) s
      = run_state (udp_client_loop (with_server udp_server_turn sfd) cfd svr (i + 1) ms) ?s"
    using e by (simp add: io_simps strlen_def show_prefix_def cstr_take_cstr min.commute)
  with Cons.IH [of ?s "i + 1"] e(3) show ?case by (auto simp: algebra_simps)
qed simp

lemma unix_client_echo:
  "quiet sfd svr cfd clt (kern s) \<Longrightarrow> fits (srv_un (kern s)) clt \<Longrightarrow>
     \<exists>s'. run_state (unix_client_loop (with_server unix_turn sfd) cfd svr i msgs) s = (None, s')
       \<and> outs s' = outs s @ responses i msgs \<and> quiet sfd svr cfd clt (kern s')"
proof (induction msgs arbitrary: i s)
  case (Cons m ms)
  obtain k1 k2 where e: "d_sendto (with_server unix_turn sfd) cfd (cstr m) svr (kern s) = (Inr (int (length (cstr m))), k1)"
    "d_recvfrom (with_server unix_turn sfd) cfd dgram_buffSize k1 = (Inr (take 64 (cstr m), svr), k2)"
    "quiet sfd svr cfd clt k2" "fits (srv_un k2) clt"
    using exchange [OF unix_server_echoes Cons.prems] by blast
  let ?s = "s\<lparr>kern := k2, outs := outs s @ [Printf ''response %d: %.*s\<newline>''
     [FInt i, FInt (int (min 64 (strlen m))), FStr (take 64 (cstr m))]]\<rparr>"
  have "run_state (unix_client_loop (with_server unix_turn sfd) cfd svr i (m # ms)) s
      = run_state (unix_client_loop (with_server unix_turn sfd) cfd svr (i + 1) ms) ?s"
    using e by (simp add: io_simps strlen_def show_prefix_def cstr_take_cstr min.commute)
  with Cons.IH [of ?s "i + 1"] e(3,4) show ?case by auto
qed simp

text \<open>
  C37. Both datagram demos echo: a client whose server answers prints, in order, one answer for
  every message, the message itself or its first 64 bytes, and ends without an error; nothing is
  left in the queues. The Internet client starts with loop variable 3 and so numbers its first
  answer 2; the Unix client starts with 1. For the Unix demo the client's address is at most as
  long as the room the server has for it: that holds for the first client of a server, and
  afterwards for every client whose address is not longer than that of the datagram before.
\<close>

theorem datagram_echo:
  assumes "quiet sfd svr cfd clt (kern s)"
  shows "(\<exists>s'. run_state (udp_client_loop (with_server udp_server_turn sfd) cfd svr 3 msgs) s = (None, s')
      \<and> outs s' = outs s @ responses 2 msgs \<and> quiet sfd svr cfd clt (kern s'))
    \<and> (fits (srv_un (kern s)) clt \<longrightarrow>
      (\<exists>s'. run_state (unix_client_loop (with_server unix_turn sfd) cfd svr 1 msgs) s = (None, s')
      \<and> outs s' = outs s @ responses 1 msgs \<and> quiet sfd svr cfd clt (kern s')))"
  using udp_client_echo [OF assms, of 3 msgs] unix_client_echo [OF assms, of 1 msgs] by simp

definition two_sockets :: "sockaddr \<Rightarrow> sockaddr \<Rightarrow> dnet" where
  "two_sockets svr clt = \<lparr>boxes = (\<lambda>_. []), bound = [3 \<mapsto> svr, 4 \<mapsto> clt], next_fd = 5, srv_out = [],
     srv_un = \<lparr>socketSize = 110, sun_path = replicate 108 NUL\<rparr>\<rparr>"

theorem datagram_echo_witness:
  "(\<exists>s'. run_state (udp_client_loop (with_server udp_server_turn 3) 4 (Inet ''0.0.0.0'' 5000) 3 [''hi''])
        \<lparr>kern = two_sockets (Inet ''0.0.0.0'' 5000) (Inet ''127.0.0.1'' 40004), errno = 0, outs = []\<rparr> = (None, s')
      \<and> outs s' = [Printf ''response %d: %.*s\<newline>'' [FInt 2, FInt 2, FStr ''hi'']])
    \<and> (\<exists>s'. run_state (unix_client_loop (with_server unix_turn 3) 4 (Unix g_socketName) 1 [''hi''])
        \<lparr>kern = two_sockets (Unix g_socketName) (Unix ''/tmp/ud_cl.77''), errno = 0, outs = []\<rparr> = (None, s')
      \<and> outs s' = [Printf ''response %d: %.*s\<newline>'' [FInt 1, FInt 2, FStr ''hi'']])"
  using datagram_echo [of 3 "Inet ''0.0.0.0'' 5000" 4 "Inet ''127.0.0.1'' 40004"
      "\<lparr>kern = two_sockets (Inet ''0.0.0.0'' 5000) (Inet ''127.0.0.1'' 40004), errno = 0, outs = []\<rparr>" "[''hi'']"]
    datagram_echo [of 3 "Unix g_socketName" 4 "Unix ''/tmp/ud_cl.77''"
      "\<lparr>kern = two_sockets (Unix g_socketName) (Unix ''/tmp/ud_cl.77''), errno = 0, outs = []\<rparr>" "[''hi'']"]
  by (auto simp: two_sockets_def quiet_def strlen_def g_socketName_def fits_def)

end
