(* ===== verification/Streams.thy ===== *)
theory Streams
  imports Tcp_Echo
begin

text \<open>
  Programs that pass a byte stream on: the Unix stream sockets of \<open>socket/unix_domain_tcp\<close>, the
  FIFO of \<open>io/fifo\<close>, and the two HTTP clients of \<open>socket/http_client\<close>, which print the header of
  an answer. The calls are the record \<open>stream_os\<close> (the HTTP clients use \<open>sock_os\<close> of
  \<open>Tcp_Echo\<close>); the locale \<open>byte_pipe\<close> says what reading and writing a stream mean, for every
  division of the stream into chunks, and is interpreted on a pipe in memory.
\<close>

section \<open>Copying\<close>

record 'k stream_os =
  t_socket :: "('k, int) kcall"
  t_connect :: "int \<Rightarrow> string \<Rightarrow> ('k, int) kcall"
  t_bind :: "int \<Rightarrow> string \<Rightarrow> ('k, int) kcall"
  t_listen :: "int \<Rightarrow> int \<Rightarrow> ('k, int) kcall"
  t_accept :: "int \<Rightarrow> ('k, int) kcall"
  t_read :: "int \<Rightarrow> nat \<Rightarrow> ('k, char list) kcall"
  t_write :: "int \<Rightarrow> char list \<Rightarrow> ('k, int) kcall"
  t_close :: "int \<Rightarrow> ('k, int) kcall"
  t_remove :: "string \<Rightarrow> ('k, int) kcall"
  t_access :: "string \<Rightarrow> ('k, int) kcall"
  t_mkfifo :: "string \<Rightarrow> ('k, int) kcall"
  t_open :: "string \<Rightarrow> bool \<Rightarrow> ('k, int) kcall"

definition stream_buffSize :: nat where "stream_buffSize = 64"

definition stream_socketName :: string where
  "stream_socketName = ''/tmp/domain_stream_socket''"

definition stream_fatal :: "string \<Rightarrow> ('k, int) io" where
  "stream_fatal msg = do { _ \<leftarrow> printf ''%s\<newline>'' [FStr msg]; ret 1 }"

text \<open>
  The copy loop of client and server, from a reading to a writing call. \<open>Copied n\<close>: the loop is
  over, the last read returned \<open>n\<close>; \<open>ShortWrite\<close>: a write was not complete; \<open>None\<close>: out of fuel.
\<close>

datatype copied = Copied int | ShortWrite

fun copy_loop :: "(nat \<Rightarrow> ('k, char list) kcall) \<Rightarrow> (char list \<Rightarrow> ('k, int) kcall) \<Rightarrow> nat \<Rightarrow> ('k, copied option) io" where
  "copy_loop rd wr 0 = ret None"
| "copy_loop rd wr (Suc fuel) = do {
     (readSize, bs) \<leftarrow> sysbuf (rd stream_buffSize);
     if readSize > 0 then do {
       w \<leftarrow> sys (wr bs);
       if w \<noteq> readSize then ret (Some ShortWrite) else copy_loop rd wr fuel }
     else ret (Some (Copied readSize)) }"

text \<open>\<open>client.c\<close>: the exit status, \<open>None\<close> while it is copying.\<close>

definition stream_client_main :: "'k stream_os \<Rightarrow> nat \<Rightarrow> ('k, int option) io" where
  "stream_client_main os fuel = do {
     sfd \<leftarrow> sys (t_socket os);
     if sfd = -1 then map_state Some (stream_fatal ''socket == -1'')
     else do {
       r \<leftarrow> sys (t_connect os sfd stream_socketName);
       if r = -1 then map_state Some (stream_fatal ''connect error'')
       else do {
         c \<leftarrow> copy_loop (t_read os 0) (t_write os sfd) fuel;
         case c of
           None \<Rightarrow> ret None
         | Some ShortWrite \<Rightarrow> map_state Some (stream_fatal ''write error'')
         | Some (Copied n) \<Rightarrow>
             if n = -1 then map_state Some (stream_fatal ''readSize == -1'')
             else do { _ \<leftarrow> sys (t_close os sfd); ret (Some 0) } } } }"

text \<open>A turn of the loop of \<open>server.c\<close>: \<open>Some None\<close> to go on, \<open>Some (Some e)\<close> to exit with \<open>e\<close>.\<close>

definition stream_serve :: "'k stream_os \<Rightarrow> int \<Rightarrow> nat \<Rightarrow> ('k, int option option) io" where
  "stream_serve os sfd fuel = do {
     cfd \<leftarrow> sys (t_accept os sfd);
     if cfd = -1 then map_state (Some \<circ> Some) (stream_fatal ''accept return -1'')
     else do {
       _ \<leftarrow> printf ''accept new connetion, cfd = %d\<newline>'' [FInt cfd];
       c \<leftarrow> copy_loop (t_read os cfd) (t_write os 1) fuel;
       case c of
         None \<Rightarrow> ret None
       | Some ShortWrite \<Rightarrow> map_state (Some \<circ> Some) (stream_fatal ''write error'')
       | Some (Copied n) \<Rightarrow>
           if n = -1 then map_state (Some \<circ> Some) (stream_fatal ''read error'')
           else do {
             _ \<leftarrow> printf ''close cfd\<newline>'' [];
             r \<leftarrow> sys (t_close os cfd);
             if r = -1 then map_state (Some \<circ> Some) (stream_fatal ''close error'')
             else ret (Some None) } } }"

fun stream_serve_loop :: "'k stream_os \<Rightarrow> int \<Rightarrow> nat \<Rightarrow> nat \<Rightarrow> ('k, int option) io" where
  "stream_serve_loop os sfd fuel 0 = ret None"
| "stream_serve_loop os sfd fuel (Suc turns) = do {
     r \<leftarrow> stream_serve os sfd fuel;
     case r of None \<Rightarrow> ret None | Some (Some e) \<Rightarrow> ret (Some e)
     | Some None \<Rightarrow> stream_serve_loop os sfd fuel turns }"

definition stream_server_main :: "'k stream_os \<Rightarrow> nat \<Rightarrow> nat \<Rightarrow> ('k, int option) io" where
  "stream_server_main os fuel turns = do {
     r \<leftarrow> sys (t_remove os stream_socketName);
     e \<leftarrow> get_errno;
     if r = -1 \<and> e \<noteq> ENOENT then map_state Some (stream_fatal ''remove /tmp/unix_sock error'')
     else do {
       sfd \<leftarrow> sys (t_socket os);
       if sfd = -1 then map_state Some (stream_fatal ''socket sfd == -1'')
       else do {
         r \<leftarrow> sys (t_bind os sfd stream_socketName);
         if r = -1 then map_state Some (stream_fatal ''bind error'')
         else do {
           r \<leftarrow> sys (t_listen os sfd 5);
           if r = -1 then map_state Some (stream_fatal ''listen error'')
           else do {
             _ \<leftarrow> printf ''wait for new connection\<newline>'' [];
             stream_serve_loop os sfd fuel turns } } } } }"

section \<open>io/fifo\<close>

definition FIFO_NAME :: string where "FIFO_NAME = ''/tmp/fifo_test''"

text \<open>
  Opening, the same in both programs (lines 14 to 32 of the reader): the descriptor, or the exit
  status -1.
\<close>

definition fifo_open :: "'k stream_os \<Rightarrow> bool \<Rightarrow> ('k, int option) io" where
  "fifo_open os wr = do {
     a \<leftarrow> sys (t_access os FIFO_NAME);
     r \<leftarrow> (if a = -1 then sys (t_mkfifo os FIFO_NAME) else ret 0);
     if r = -1 then do {
       e \<leftarrow> get_errno;
       _ \<leftarrow> printf ''mkfifo failed, errno is %d\<newline>'' [FInt e];
       ret None }
     else do {
       _ \<leftarrow> printf ''before open %s\<newline>'' [FStr FIFO_NAME];
       fd \<leftarrow> sys (t_open os FIFO_NAME wr);
       _ \<leftarrow> printf ''after open %s\<newline>'' [FStr FIFO_NAME];
       if fd = -1 then do {
         e \<leftarrow> get_errno;
         _ \<leftarrow> printf ''open failed, errno is %d\<newline>'' [FInt e];
         ret None }
       else ret (Some fd) } }"

text \<open>The loop of the reader: it stops after an \<open>x\<close>, at the end of the stream or an error.\<close>

fun fifo_read_loop :: "(nat \<Rightarrow> ('k, char list) kcall) \<Rightarrow> nat \<Rightarrow> ('k, unit option) io" where
  "fifo_read_loop rd 0 = ret None"
| "fifo_read_loop rd (Suc fuel) = do {
     (readSize, bs) \<leftarrow> sysbuf (rd 1);
     if readSize \<noteq> 1 then do {
       _ \<leftarrow> printf ''error: read size is %zd\<newline>'' [FInt readSize];
       ret (Some ()) }
     else do {
       _ \<leftarrow> printf ''read: %c\<newline>'' [FChar (hd bs)];
       if hd bs = CHR ''x'' then ret (Some ()) else fifo_read_loop rd fuel } }"

definition fifo_reader_main :: "'k stream_os \<Rightarrow> nat \<Rightarrow> ('k, int option) io" where
  "fifo_reader_main os fuel = do {
     f \<leftarrow> fifo_open os False;
     case f of
       None \<Rightarrow> ret (Some (-1))
     | Some fd \<Rightarrow> do {
         r \<leftarrow> fifo_read_loop (t_read os fd) fuel;
         ret (map_option (\<lambda>_. 0) r) } }"

definition fifo_writer_main :: "'k stream_os \<Rightarrow> ('k, int) io" where
  "fifo_writer_main os = do {
     f \<leftarrow> fifo_open os True;
     case f of
       None \<Rightarrow> ret (-1)
     | Some fd \<Rightarrow> do {
         _ \<leftarrow> sys (t_write os fd ''abcdefghx'');
         ret 0 } }"

section \<open>socket/http\_client\<close>

definition http_request :: string where
  "http_request = ''HEAD / HTTP/1.1\<newline>Host: liudf.com\<newline>Accept-Encoding: identity\<newline>Transfer-Encoding: identity\<newline>\<newline>''"

definition CRLF2 :: string where
  "CRLF2 = [CHR 0x0D, NL, CHR 0x0D, NL]"

text \<open>
  The loop that reads and prints the header (lines 75 to 95 of both clients), with the turns left
  and the bytes of the buffer: \<open>i\<close> is the loop variable, a turn at the end of the stream is
  spent without a byte.
\<close>

fun header_loop :: "(nat \<Rightarrow> ('k, char list) kcall) \<Rightarrow> nat \<Rightarrow> nat \<Rightarrow> char list \<Rightarrow> ('k, unit) io" where
  "header_loop rd 0 i buffer = ret ()"
| "header_loop rd (Suc left) i buffer = do {
     (readSize, bs) \<leftarrow> sysbuf (rd 1);
     if readSize < 0 then ret ()
     else if readSize = 0 then header_loop rd left (i + 1) buffer
     else do {
       _ \<leftarrow> printf ''%c'' [FChar (hd bs)];
       let buffer = buffer[i := hd bs];
       if i \<ge> 3 \<and> take 4 (drop (i - 3) buffer) = CRLF2 then ret ()
       else header_loop rd left (i + 1) buffer } }"

text \<open>
  The loop of \<open>main.c\<close> over the addresses. A failing \<open>getnameinfo\<close> is not checked; its two
  uninitialised buffers are printed as empty strings.
\<close>

fun http_connect :: "'k sock_os \<Rightarrow> addrinfo list \<Rightarrow> ('k, int option) io" where
  "http_connect os [] = ret None"
| "http_connect os (rp # rest) = do {
     fd \<leftarrow> sys (so_socket os (ai_family rp) (ai_socktype rp) (ai_protocol rp));
     if fd = -1 then http_connect os rest
     else do {
       r \<leftarrow> sys (so_connect os fd (ai_addr rp));
       if r \<noteq> -1 then do {
         n \<leftarrow> sysopt (so_getnameinfo os (ai_addr rp));
         let (ip, port) = (case n of Some p \<Rightarrow> p | None \<Rightarrow> ([], []));
         _ \<leftarrow> printf ''resolved ip is %s, port is %s\<newline>'' [FStr ip, FStr port];
         ret (Some fd) }
       else do {
         _ \<leftarrow> printf ''connect failed\<newline>'' [];
         _ \<leftarrow> sys (so_close os fd);
         http_connect os rest } } }"

text \<open>The request and the header on a connected descriptor (lines 68 to 98 of \<open>main.c\<close>).\<close>

definition http_exchange :: "'k sock_os \<Rightarrow> int \<Rightarrow> string \<Rightarrow> ('k, int) io" where
  "http_exchange os fd err = do {
     w \<leftarrow> sys (so_write os fd http_request);
     if w \<noteq> int (length http_request) then do {
       _ \<leftarrow> printf err [];
       ret (-1) }
     else do {
       _ \<leftarrow> header_loop (so_read os fd) 1024 0 (replicate 1024 NUL);
       _ \<leftarrow> sys (so_close os fd);
       ret 0 } }"

definition http_main :: "'k sock_os \<Rightarrow> ('k, int) io" where
  "http_main os = do {
     _ \<leftarrow> printf ''%s'' [FStr http_request];
     result \<leftarrow> sysopt (so_getaddrinfo os (Some ''liudf.com'') ''80'');
     case result of
       None \<Rightarrow> do { _ \<leftarrow> printf ''get addr info error\<newline>'' []; ret (-1) }
     | Some addrs \<Rightarrow> do {
         r \<leftarrow> http_connect os addrs;
         case r of
           None \<Rightarrow> do { _ \<leftarrow> printf ''could not connect socket'' []; ret (-1) }
         | Some fd \<Rightarrow> http_exchange os fd ''write size != requestMsg length'' } }"

text \<open>
  \<open>old.c\<close>. \<open>inet_addr\<close> is a function of the text; \<open>gethostbyname\<close> reports its error number
  in \<open>h_errno\<close>, not in \<open>errno\<close>.
\<close>

definition herr_call :: "('k, 'a) kcall \<Rightarrow> ('k, int + 'a) io" where
  "herr_call f = State (\<lambda>s. case f (kern s) of (r, k) \<Rightarrow> (r, s\<lparr>kern := k\<rparr>))"

lemma run_herr_call [io_simps]:
  "run_state (herr_call f) s = (case f (kern s) of (r, k) \<Rightarrow> (r, s\<lparr>kern := k\<rparr>))"
  by (simp add: herr_call_def)

definition http_old_resolve :: "(string \<Rightarrow> string option) \<Rightarrow> (string \<Rightarrow> ('k, string) kcall) \<Rightarrow> (int \<Rightarrow> string)
    \<Rightarrow> string \<Rightarrow> ('k, string option) io" where
  "http_old_resolve inet_addr gethostbyname hstrerror host = (case inet_addr host of
      Some a \<Rightarrow> do { _ \<leftarrow> printf ''inet_addr ok\<newline>'' []; ret (Some a) }
    | None \<Rightarrow> do {
        ph \<leftarrow> herr_call (gethostbyname host);
        case ph of
          Inl h \<Rightarrow> do {
            e \<leftarrow> get_errno;
            _ \<leftarrow> printf ''gethostbyname return NULL, errno is %d, h_errno is %d(%s)\<newline>''
              [FInt e, FInt h, FStr (hstrerror h)];
            ret None }
        | Inr a \<Rightarrow> do { _ \<leftarrow> printf ''gethostbyname ok\<newline>'' []; ret (Some a) } })"

definition http_old_exchange :: "'k sock_os \<Rightarrow> int \<Rightarrow> ('k, int) io" where
  "http_old_exchange os fd = do {
     w \<leftarrow> sys (so_write os fd http_request);
     if w \<noteq> int (length http_request) then do {
       _ \<leftarrow> printf ''write size != msg length'' [];
       ret (-1) }
     else do {
       _ \<leftarrow> printf ''\<newline>'' [];
       _ \<leftarrow> header_loop (so_read os fd) 1024 0 (replicate 1024 NUL);
       _ \<leftarrow> sys (so_close os fd);
       ret 0 } }"

definition http_old_main :: "'k sock_os \<Rightarrow> (string \<Rightarrow> string option) \<Rightarrow> (string \<Rightarrow> ('k, string) kcall)
    \<Rightarrow> (int \<Rightarrow> string) \<Rightarrow> ('k, int) io" where
  "http_old_main os inet_addr gethostbyname hstrerror = do {
     _ \<leftarrow> printf ''%s'' [FStr http_request];
     a \<leftarrow> http_old_resolve inet_addr gethostbyname hstrerror ''liudf.com'';
     case a of
       None \<Rightarrow> ret (-1)
     | Some addr \<Rightarrow> do {
         fd \<leftarrow> sys (so_socket os 2 1 0);
         if fd \<le> 0 then do { _ \<leftarrow> printf ''socket return <= 0'' []; ret (-1) }
         else do {
           r \<leftarrow> sys (so_connect os fd addr);
           if r < 0 then do {
             e \<leftarrow> get_errno;
             _ \<leftarrow> printf ''connect return %d, errno is %d\<newline>'' [FInt r, FInt e];
             ret (-1) }
           else http_old_exchange os fd } } }"

section \<open>Streams of bytes\<close>

text \<open>
  Reading delivers a non-empty part of what is pending, at most as much as asked for, and nothing
  only when nothing is pending; writing takes everything. \<open>pending\<close> is what is still to be read,
  \<open>sent\<close> what has been written.
\<close>

locale byte_pipe =
  fixes rd :: "nat \<Rightarrow> ('k, char list) kcall" and wr :: "char list \<Rightarrow> ('k, int) kcall"
    and pending :: "'k \<Rightarrow> char list" and sent :: "'k \<Rightarrow> char list" and good :: "'k \<Rightarrow> bool"
  assumes read_some: "good k \<Longrightarrow> 0 < n \<Longrightarrow> \<exists>m k'. rd n k = (Inr (take m (pending k)), k') \<and> m \<le> n
      \<and> (pending k = [] \<or> 0 < m) \<and> pending k' = drop m (pending k) \<and> sent k' = sent k \<and> good k'"
    and write_all: "good k \<Longrightarrow> \<exists>k'. wr bs k = (Inr (int (length bs)), k')
      \<and> sent k' = sent k @ bs \<and> pending k' = pending k \<and> good k'"
begin

lemma copy_loop_copies:
  "good (kern s) \<Longrightarrow> length (pending (kern s)) < fuel \<Longrightarrow>
     \<exists>s'. run_state (copy_loop rd wr fuel) s = (Some (Copied 0), s') \<and> outs s' = outs s
       \<and> sent (kern s') = sent (kern s) @ pending (kern s) \<and> pending (kern s') = [] \<and> good (kern s')"
proof (induction fuel arbitrary: s)
  case (Suc fuel)
  obtain m k1 where r: "rd stream_buffSize (kern s) = (Inr (take m (pending (kern s))), k1)"
    and m: "pending (kern s) = [] \<or> 0 < m" and k1: "pending k1 = drop m (pending (kern s))" "sent k1 = sent (kern s)" "good k1"
    using read_some [OF Suc.prems(1), of stream_buffSize] by (auto simp: stream_buffSize_def)
  show ?case
  proof (cases "pending (kern s) = []")
    case True
    with r k1 show ?thesis by (simp add: io_simps)
  next
    case False
    let ?bs = "take m (pending (kern s))"
    have "?bs \<noteq> []" using False m by simp
    obtain k2 where w: "wr ?bs k1 = (Inr (int (length ?bs)), k2)" and k2: "sent k2 = sent k1 @ ?bs"
      "pending k2 = pending k1" "good k2" using write_all [OF k1(3), of ?bs] by blast
    have "run_state (copy_loop rd wr (Suc fuel)) s = run_state (copy_loop rd wr fuel) (s\<lparr>kern := k2\<rparr>)"
      using r w \<open>?bs \<noteq> []\<close> by (simp add: io_simps)
    moreover have "length (pending k2) < fuel" using Suc.prems(2) k2(2) k1(1) False m
      by (cases "pending (kern s)") auto
    ultimately show ?thesis using Suc.IH [of "s\<lparr>kern := k2\<rparr>"] k1 k2 by simp
  qed
qed simp

text \<open>
  What the header loop prints of a stream: all of it up to the blank line that ends the header,
  or as many bytes as it has turns.
\<close>

lemma read_byte:
  assumes "good k"
  obtains k' where "rd 1 k = (Inr (take 1 (pending k)), k')" "pending k' = drop 1 (pending k)" "good k'"
proof -
  obtain m k' where a: "rd 1 k = (Inr (take m (pending k)), k')" "m \<le> 1" "pending k = [] \<or> 0 < m"
    "pending k' = drop m (pending k)" "good k'" using read_some [OF assms, of 1] by auto
  then have "pending k = [] \<or> m = 1" by linarith
  with a have "rd 1 k = (Inr (take 1 (pending k)), k') \<and> pending k' = drop 1 (pending k)" by auto
  with a(5) that show thesis by blast
qed

lemma header_loop_eof:
  "good (kern s) \<Longrightarrow> pending (kern s) = [] \<Longrightarrow>
     outs (snd (run_state (header_loop rd left i buffer) s)) = outs s"
proof (induction left arbitrary: i s)
  case (Suc left)
  from read_byte [OF Suc.prems(1)] obtain k' where "rd 1 (kern s) = (Inr (take 1 (pending (kern s))), k')"
    "pending k' = drop 1 (pending (kern s))" "good k'" .
  with Suc.IH [of "s\<lparr>kern := k'\<rparr>" "i + 1"] Suc.prems(2) show ?case by (simp add: io_simps)
qed simp

end

fun upto_blank :: "char list \<Rightarrow> char list \<Rightarrow> char list" where
  "upto_blank seen [] = []"
| "upto_blank seen (c # cs) = c #
     (if 4 \<le> length (seen @ [c]) \<and> drop (length (seen @ [c]) - 4) (seen @ [c]) = CRLF2 then []
      else upto_blank (seen @ [c]) cs)"

context byte_pipe
begin

lemma header_loop_prints:
  "good (kern s) \<Longrightarrow> length buffer = i + left \<Longrightarrow> take i buffer = seen \<Longrightarrow>
     outs (snd (run_state (header_loop rd left i buffer) s))
       = outs s @ map (\<lambda>c. Printf ''%c'' [FChar c]) (upto_blank seen (take left (pending (kern s))))"
proof (induction left arbitrary: i buffer seen s)
  case (Suc left)
  from read_byte [OF Suc.prems(1)] obtain k' where r: "rd 1 (kern s) = (Inr (take 1 (pending (kern s))), k')"
    "pending k' = drop 1 (pending (kern s))" "good k'" .
  show ?case
  proof (cases "pending (kern s)")
    case Nil
    with r header_loop_eof [of "s\<lparr>kern := k'\<rparr>" left "i + 1" buffer] show ?thesis by (simp add: io_simps)
  next
    case (Cons c cs)
    let ?b = "buffer[i := c]"
    have i: "i < length buffer" using Suc.prems(2) by simp
    then have seen: "take (Suc i) ?b = seen @ [c]" and len: "length (seen @ [c]) = Suc i"
      using Suc.prems(3) by (auto simp: take_Suc_conv_app_nth)
    have cmp: "take 4 (drop (i - 3) ?b) = drop (Suc i - 4) (seen @ [c])" if "i \<ge> 3"
    proof -
      have "take 4 (drop (i - 3) ?b) = drop (i - 3) (take (4 + (i - 3)) ?b)" by (simp add: take_drop)
      also have "4 + (i - 3) = Suc i" using that by simp
      finally show ?thesis using seen that by simp
    qed
    have test: "(i \<ge> 3 \<and> take 4 (drop (i - 3) ?b) = CRLF2)
        = (4 \<le> length (seen @ [c]) \<and> drop (length (seen @ [c]) - 4) (seen @ [c]) = CRLF2)"
      using cmp unfolding len by auto
    let ?s = "s\<lparr>kern := k', outs := outs s @ [Printf ''%c'' [FChar c]]\<rparr>"
    have IH: "outs (snd (run_state (header_loop rd left (i + 1) ?b) ?s))
        = outs ?s @ map (\<lambda>c. Printf ''%c'' [FChar c]) (upto_blank (seen @ [c]) (take left (pending k')))"
      using Suc.IH [of ?s ?b "i + 1" "seen @ [c]"] r(3) Suc.prems(2) seen by simp
    have "run_state (header_loop rd (Suc left) i buffer) s =
        (if i \<ge> 3 \<and> take 4 (drop (i - 3) ?b) = CRLF2 then ((), ?s)
         else run_state (header_loop rd left (i + 1) ?b) ?s)"
      using r(1) Cons by (simp add: io_simps Let_def)
    then show ?thesis using test IH r(2) Cons by (simp del: upto_blank.simps add: upto_blank.simps(2) [of seen])
  qed
qed simp

end

section \<open>A pipe in memory\<close>

text \<open>What is still to be read, what was written, and the sizes of the next chunks.\<close>

record bpipe =
  inp :: "char list"
  outp :: "char list"
  chunks :: "nat list"

definition bp_read :: "nat \<Rightarrow> (bpipe, char list) kcall" where
  "bp_read n k = (let m = min n (case chunks k of [] \<Rightarrow> n | c # _ \<Rightarrow> Suc c) in
     (Inr (take m (inp k)), k\<lparr>inp := drop m (inp k), chunks := tl (chunks k)\<rparr>))"

definition bp_write :: "char list \<Rightarrow> (bpipe, int) kcall" where
  "bp_write bs k = (Inr (int (length bs)), k\<lparr>outp := outp k @ bs\<rparr>)"

interpretation bp: byte_pipe bp_read bp_write inp outp "\<lambda>_. True"
proof
  fix k :: bpipe and n :: nat
  assume n: "0 < n"
  define m where "m = min n (case chunks k of [] \<Rightarrow> n | c # _ \<Rightarrow> Suc c)"
  have "bp_read n k = (Inr (take m (inp k)), k\<lparr>inp := drop m (inp k), chunks := tl (chunks k)\<rparr>)"
    by (simp add: bp_read_def m_def Let_def)
  moreover have "m \<le> n" "0 < m" using n by (auto simp: m_def split: list.splits)
  ultimately show "\<exists>m k'. bp_read n k = (Inr (take m (inp k)), k') \<and> m \<le> n \<and> (inp k = [] \<or> 0 < m)
      \<and> inp k' = drop m (inp k) \<and> outp k' = outp k \<and> True" by auto
qed (simp add: bp_write_def)




text \<open>What the two clients do on a connected descriptor; closing may do what it wants.\<close>

lemma http_exchanges:
  assumes "byte_pipe (so_read os fd) (so_write os fd) pending sent good" and "good (kern s)"
  defines "hdr \<equiv> map (\<lambda>c. Printf ''%c'' [FChar c]) (upto_blank [] (take 1024 (pending (kern s))))"
  shows "fst (run_state (http_exchange os fd err) s) = 0" "outs (snd (run_state (http_exchange os fd err) s)) = outs s @ hdr"
    and "fst (run_state (http_old_exchange os fd) s) = 0"
      "outs (snd (run_state (http_old_exchange os fd) s)) = outs s @ Printf ''\<newline>'' [] # hdr"
proof -
  obtain k where k: "so_write os fd http_request (kern s) = (Inr (int (length http_request)), k)"
      "pending k = pending (kern s)" "good k"
    using byte_pipe.write_all [OF assms(1,2), of http_request] by blast
  have tail: "\<exists>u. run_state (do { _ \<leftarrow> header_loop (so_read os fd) 1024 0 (replicate 1024 NUL); _ \<leftarrow> sys (so_close os fd); ret 0 }) t
      = (0 :: int, u) \<and> outs u = outs t @ hdr" if "kern t = k" for t
  proof -
    obtain u where u: "run_state (header_loop (so_read os fd) 1024 0 (replicate 1024 NUL)) t = ((), u)"
      by (metis old.unit.exhaust surj_pair)
    have "outs u = outs t @ hdr"
      using byte_pipe.header_loop_prints [OF assms(1), of t "replicate 1024 NUL" 0 1024 "[]"] k that u
      by (simp add: hdr_def)
    moreover obtain x v where v: "run_state (sys (so_close os fd)) u = (x, v)" by force
    moreover have "outs v = outs u" using v by (auto simp: run_sys split: prod.splits sum.splits)
    ultimately show ?thesis using u by simp
  qed
  have "run_state (http_exchange os fd err) s = run_state (do { _ \<leftarrow> header_loop (so_read os fd) 1024 0 (replicate 1024 NUL);
      _ \<leftarrow> sys (so_close os fd); ret 0 }) (s\<lparr>kern := k\<rparr>)"
    using k(1) by (simp add: http_exchange_def run_sys [of "so_write os fd http_request"])
  with tail [of "s\<lparr>kern := k\<rparr>"]
  show "fst (run_state (http_exchange os fd err) s) = 0" "outs (snd (run_state (http_exchange os fd err) s)) = outs s @ hdr"
    by auto
  let ?t = "s\<lparr>kern := k, outs := outs s @ [Printf ''\<newline>'' []]\<rparr>"
  have "run_state (http_old_exchange os fd) s = run_state (do { _ \<leftarrow> header_loop (so_read os fd) 1024 0 (replicate 1024 NUL);
      _ \<leftarrow> sys (so_close os fd); ret 0 }) ?t"
    using k(1) by (simp add: http_old_exchange_def run_sys [of "so_write os fd http_request"] run_printf)
  with tail [of ?t]
  show "fst (run_state (http_old_exchange os fd) s) = 0"
      "outs (snd (run_state (http_old_exchange os fd) s)) = outs s @ Printf ''\<newline>'' [] # hdr"
    by auto
qed

text \<open>
  C39. On a connection the HTTP clients of \<open>main.c\<close> and \<open>old.c\<close> print exactly the header of the
  answer and exit with 0: the bytes of the stream up to and including the first blank line, within
  the first 1024 bytes, or all of them when there is none. A stream that ends early is printed to
  its end; the loop ends in every case.
\<close>

theorem http_clients_print_header:
  assumes "byte_pipe (so_read os fd) (so_write os fd) pending sent good" and "good (kern s)"
  shows "let hdr = map (\<lambda>c. Printf ''%c'' [FChar c]) (upto_blank [] (take 1024 (pending (kern s))));
      new = run_state (http_exchange os fd err) s; old = run_state (http_old_exchange os fd) s
    in fst new = 0 \<and> outs (snd new) = outs s @ hdr \<and> fst old = 0 \<and> outs (snd old) = outs s @ Printf ''\<newline>'' [] # hdr"
  using http_exchanges [OF assms] by (simp add: Let_def)

definition bp_sock :: "bpipe sock_os" where
  "bp_sock = \<lparr>so_getaddrinfo = (\<lambda>_ _ k. (Inl 2, k)), so_ignore_sigpipe = (\<lambda>k. (Inr 0, k)), so_socket = (\<lambda>_ _ _ k. (Inr 3, k)),
     so_reuseaddr = (\<lambda>_ k. (Inr 0, k)), so_connect = (\<lambda>_ _ k. (Inr 0, k)), so_bind = (\<lambda>_ _ k. (Inr 0, k)),
     so_listen = (\<lambda>_ _ k. (Inr 0, k)), so_getsockname = (\<lambda>_ k. (Inr [], k)), so_getnameinfo = (\<lambda>a k. (Inr (a, []), k)),
     so_accept = (\<lambda>_ k. (Inl EINVAL, k)), so_read = (\<lambda>_. bp_read), so_write = (\<lambda>_. bp_write), so_close = (\<lambda>_ k. (Inr 0, k))\<rparr>"

theorem http_clients_print_header_witness:
  "outs (snd (run_state (http_exchange bp_sock 3 [])
       \<lparr>kern = \<lparr>inp = ''A'' @ CRLF2 @ ''body'', outp = [], chunks = []\<rparr>, errno = 0, outs = []\<rparr>))
     = map (\<lambda>c. Printf ''%c'' [FChar c]) (''A'' @ CRLF2)"
proof -
  have "byte_pipe (so_read bp_sock 3) (so_write bp_sock 3) inp outp (\<lambda>_. True)"
    using bp.byte_pipe_axioms by (simp add: bp_sock_def)
  from http_clients_print_header [OF this, of
      "\<lparr>kern = \<lparr>inp = ''A'' @ CRLF2 @ ''body'', outp = [], chunks = []\<rparr>, errno = 0, outs = []\<rparr>" "[]"]
  show ?thesis by (simp add: CRLF2_def Let_def)
qed

text \<open>
  A connection that \<open>old.c\<close> cannot make leaves its socket open, and \<open>fd\<close> 0 is taken for an error.
\<close>

lemma http_old_leaks:
  "so_socket os 2 1 0 k = (Inr 3, k1) \<Longrightarrow> so_connect os 3 a k1 = (Inl e, k2) \<Longrightarrow>
     (let (r, s') = run_state (http_old_main os (\<lambda>_. Some a) g h) \<lparr>kern = k, errno = 0, outs = []\<rparr>
      in r = -1 \<and> kern s' = k2)"
  by (simp add: http_old_main_def http_old_resolve_def io_simps)

end
