(* ===== verification/Event_Loops.thy ===== *)
theory Event_Loops
  imports C_Prelude "HOL-Library.Sublist"
begin

unbundle bit_operations_syntax

text \<open>
  The programs that wait for several descriptors: \<open>io/select/main.c\<close>, \<open>io/poll/main.c\<close>,
  \<open>io/epoll/base/main.c\<close> and \<open>io/epoll/et-read/main.c\<close>. The calls are the record \<open>event_os\<close>.

  The locales \<open>level_reads\<close>, \<open>pipe_kernel\<close>, \<open>poll_kernel\<close> and \<open>epoll_kernel\<close> say what the programs rely on: a descriptor is reported while it
  has unread bytes or has hung up, reading takes bytes from the front, nothing else takes any. They are
  interpreted, and the properties stated, in \<open>Event_Kernel\<close>.
\<close>

section \<open>System calls and constants\<close>

record 'k event_os =
  v_open :: "string \<Rightarrow> ('k, int) kcall"
  v_lseek :: "int \<Rightarrow> int \<Rightarrow> ('k, int) kcall"
  v_remove :: "string \<Rightarrow> ('k, int) kcall"
  v_mkfifo :: "string \<Rightarrow> ('k, int) kcall"
  v_pipe :: "('k, int \<times> int) kcall"
  v_write :: "int \<Rightarrow> char list \<Rightarrow> ('k, int) kcall"
  v_read :: "int \<Rightarrow> nat \<Rightarrow> ('k, char list) kcall"
  v_close :: "int \<Rightarrow> ('k, int) kcall"
  v_select :: "int \<Rightarrow> int list \<Rightarrow> ('k, int list) kcall"
  v_poll :: "int list \<Rightarrow> int \<Rightarrow> ('k, 16 word list) kcall"
  v_epoll_create :: "('k, int) kcall"
  v_epoll_add :: "int \<Rightarrow> int \<Rightarrow> 32 word \<Rightarrow> ('k, int) kcall"
  v_epoll_wait :: "int \<Rightarrow> nat \<Rightarrow> int \<Rightarrow> ('k, (32 word \<times> int) list) kcall"

definition FD_SETSIZE :: int where "FD_SETSIZE = 1024"
definition POLLIN :: "16 word" where "POLLIN = 1"
definition POLLHUP :: "16 word" where "POLLHUP = 16"
definition EPOLLIN :: "32 word" where "EPOLLIN = 1"
definition EPOLLERR :: "32 word" where "EPOLLERR = 8"
definition EPOLLHUP :: "32 word" where "EPOLLHUP = 16"
definition EPOLLET :: "32 word" where "EPOLLET = push_bit 31 1"

section \<open>The programs\<close>

text \<open>
  The three lines all programs have for a ready descriptor. \<open>False\<close>: \<open>read\<close> returned -1 and the
  program stores a null byte at \<open>buffer[-1]\<close>, which is undefined.
\<close>

definition rd_show :: "'k event_os \<Rightarrow> int \<Rightarrow> nat \<Rightarrow> ('k, bool) io" where
  "rd_show os fd n = do {
     (readSize, bs) \<leftarrow> sysbuf (v_read os fd n);
     if readSize < 0 then ret False
     else do {
       _ \<leftarrow> printf ''read [%s] from fd: %d, size is %zd\<newline>'' [FStr (cstr bs), FInt fd, FInt readSize];
       ret True } }"

text \<open>Closing at the end of the programs; descriptors that were not obtained are -1.\<close>

definition close_pos :: "'k event_os \<Rightarrow> int \<Rightarrow> ('k, unit) io" where
  "close_pos os fd = (if fd > 0 then do { _ \<leftarrow> sys (v_close os fd); ret () } else ret ())"

definition open_pipe :: "'k event_os \<Rightarrow> ('k, int \<times> int) io" where
  "open_pipe os = do {
     p \<leftarrow> sysopt (v_pipe os);
     let fds = (case p of None \<Rightarrow> (-1, -1) | Some x \<Rightarrow> x);
     _ \<leftarrow> sys (v_write os (snd fds) ''abcd'');
     ret fds }"

subsection \<open>select\<close>

text \<open>
  The \<open>for\<close> loop over \<open>0 .. maxFd\<close>: the set \<open>select\<close> has left is a list here, and is asked for
  every number.
\<close>

fun select_scan :: "'k event_os \<Rightarrow> int list \<Rightarrow> int list \<Rightarrow> ('k, bool) io" where
  "select_scan os ready [] = ret True"
| "select_scan os ready (i # is) =
     (if i \<in> set ready then do {
        ok \<leftarrow> rd_show os i 1023;
        if ok then select_scan os ready is else ret False }
      else select_scan os ready is)"

text \<open>
  The body of the loop, up to the \<open>break\<close> of line 80, which every turn reaches: the new
  \<open>maxFd\<close> and \<open>timeoutCount\<close>, \<open>None\<close> where it is undefined (\<open>FD_SET\<close> outside of the set, or
  \<open>buffer[-1]\<close>).
\<close>

definition select_turn :: "'k event_os \<Rightarrow> bool \<Rightarrow> int \<Rightarrow> int \<Rightarrow> int \<Rightarrow> int \<Rightarrow> ('k, (int \<times> int) option) io" where
  "select_turn os watchNormalFile normalFd p0 maxFd timeoutCount = do {
     let watch = watchNormalFile \<and> normalFd > 0;
     let fds = [p0, 0] @ (if watch then [normalFd] else []);
     let maxFd = max (max maxFd p0) 0;
     let maxFd = (if watch then max maxFd normalFd else maxFd);
     if list_ex (\<lambda>fd. fd < 0 \<or> fd \<ge> FD_SETSIZE) fds then ret None
     else do {
     r \<leftarrow> sysopt (v_select os (maxFd + 1) fds);
     case r of
       None \<Rightarrow> do {
         e \<leftarrow> get_errno;
         _ \<leftarrow> printf ''select had error, return is %d, errno is %d\<newline>'' [FInt (-1), FInt e];
         ret (Some (maxFd, timeoutCount)) }
     | Some ready \<Rightarrow>
         if ready = [] then do {
           _ \<leftarrow> printf ''timeout...\<newline>'' [];
           ret (Some (maxFd, timeoutCount - 1)) }
         else do {
           ok \<leftarrow> select_scan os ready [0..maxFd];
           ret (if ok then Some (maxFd, timeoutCount) else None) } } }"

definition select_main :: "'k event_os \<Rightarrow> ('k, int option) io" where
  "select_main os = do {
     normalFd \<leftarrow> sys (v_open os ''test.txt'');
     e \<leftarrow> get_errno;
     _ \<leftarrow> printf ''open new file fd is %d, errno is %d\<newline>'' [FInt normalFd, FInt e];
     _ \<leftarrow> sys (v_write os normalFd ''1234'');
     _ \<leftarrow> sys (v_lseek os normalFd 0);
     (p0, p1) \<leftarrow> open_pipe os;
     r \<leftarrow> select_turn os True normalFd p0 0 5;
     case r of
       None \<Rightarrow> ret None
     | Some _ \<Rightarrow> do {
         _ \<leftarrow> (if normalFd > 0 then do {
             _ \<leftarrow> sys (v_close os normalFd);
             _ \<leftarrow> sys (v_remove os ''test.txt'');
             ret () } else ret ());
         _ \<leftarrow> close_pos os p0;
         _ \<leftarrow> close_pos os p1;
         ret (Some 0) } }"

subsection \<open>poll\<close>

fun poll_scan :: "'k event_os \<Rightarrow> (int \<times> 16 word) list \<Rightarrow> ('k, bool) io" where
  "poll_scan os [] = ret True"
| "poll_scan os ((fd, revents) # ps) =
     (if revents AND POLLIN \<noteq> 0 then do {
        ok \<leftarrow> rd_show os fd 1023;
        if ok then poll_scan os ps else ret False }
      else poll_scan os ps)"

text \<open>
  The loop: \<open>None\<close> when the fuel is used up, \<open>Some False\<close> where it is undefined. The value of
  \<open>poll\<close> is the number of entries with a report.
\<close>

fun poll_loop :: "'k event_os \<Rightarrow> int list \<Rightarrow> int \<Rightarrow> nat \<Rightarrow> ('k, bool option) io" where
  "poll_loop os fds timeoutCount 0 = ret None"
| "poll_loop os fds timeoutCount (Suc fuel) = do {
     r \<leftarrow> sysopt (v_poll os fds 5000);
     case r of
       None \<Rightarrow> do {
         e \<leftarrow> get_errno;
         _ \<leftarrow> printf ''poll had error, return is %d, errno is %d\<newline>'' [FInt (-1), FInt e];
         if timeoutCount \<le> 0 then ret (Some True) else poll_loop os fds timeoutCount fuel }
     | Some revs \<Rightarrow>
         if filter (\<lambda>v. v \<noteq> 0) revs = [] then do {
           _ \<leftarrow> printf ''timeout...\<newline>'' [];
           if timeoutCount - 1 \<le> 0 then ret (Some True) else poll_loop os fds (timeoutCount - 1) fuel }
         else do {
           ok \<leftarrow> poll_scan os (zip fds revs);
           if \<not> ok then ret (Some False)
           else if timeoutCount \<le> 0 then ret (Some True) else poll_loop os fds timeoutCount fuel } }"

definition poll_main :: "'k event_os \<Rightarrow> nat \<Rightarrow> ('k, int option option) io" where
  "poll_main os fuel = do {
     (p0, p1) \<leftarrow> open_pipe os;
     r \<leftarrow> poll_loop os [p0, 0] 5 fuel;
     case r of
       None \<Rightarrow> ret None
     | Some False \<Rightarrow> ret (Some None)
     | Some True \<Rightarrow> do {
         _ \<leftarrow> close_pos os p0;
         _ \<leftarrow> close_pos os p1;
         ret (Some (Some 0)) } }"

subsection \<open>epoll\<close>

text \<open>
  The \<open>for\<close> loop over the events: \<open>pipeFds[0]\<close> afterwards, \<open>None\<close> where it is undefined.
\<close>

fun epoll_scan :: "'k event_os \<Rightarrow> int \<Rightarrow> (32 word \<times> int) list \<Rightarrow> ('k, int option) io" where
  "epoll_scan os p0 [] = ret (Some p0)"
| "epoll_scan os p0 ((e, fd) # es) =
     (if e AND EPOLLIN \<noteq> 0 then do {
        ok \<leftarrow> rd_show os fd 1023;
        if ok then epoll_scan os p0 es else ret None }
      else if e AND (EPOLLHUP OR EPOLLERR) \<noteq> 0 then do {
        _ \<leftarrow> printf ''will close fd(%d), event is %d\<newline>'' [FInt fd, FInt (sint e)];
        _ \<leftarrow> sys (v_close os fd);
        epoll_scan os (if fd = p0 then -1 else p0) es }
      else epoll_scan os p0 es)"

text \<open>The loop, with \<open>pipeFds\<close> at the end.\<close>

fun epoll_loop :: "'k event_os \<Rightarrow> int \<Rightarrow> int \<Rightarrow> int \<Rightarrow> int \<Rightarrow> nat \<Rightarrow> ('k, (int \<times> int) option option) io" where
  "epoll_loop os epfd p0 p1 timeoutCount 0 = ret None"
| "epoll_loop os epfd p0 p1 timeoutCount (Suc fuel) = do {
     r \<leftarrow> sysopt (v_epoll_wait os epfd 10 3000);
     case r of
       None \<Rightarrow> do {
         e \<leftarrow> get_errno;
         _ \<leftarrow> printf ''epoll_wait had error, return is %d, errno is %d\<newline>'' [FInt (-1), FInt e];
         if e = EINTR then do {
           _ \<leftarrow> printf ''receive EINTR\<newline>'' [];
           epoll_loop os epfd p0 p1 timeoutCount fuel }
         else if timeoutCount \<le> 0 then ret (Some (Some (p0, p1)))
         else epoll_loop os epfd p0 p1 timeoutCount fuel }
     | Some evs \<Rightarrow>
         if evs = [] then do {
           _ \<leftarrow> printf ''timeout...\<newline>'' [];
           p1 \<leftarrow> (if timeoutCount - 1 = 2 then do {
               _ \<leftarrow> printf ''close pipeFds[1]...\<newline>'' [];
               _ \<leftarrow> sys (v_close os p1);
               ret (-1) } else ret p1);
           if timeoutCount - 1 \<le> 0 then ret (Some (Some (p0, p1)))
           else epoll_loop os epfd p0 p1 (timeoutCount - 1) fuel }
         else do {
           q \<leftarrow> epoll_scan os p0 evs;
           case q of
             None \<Rightarrow> ret (Some None)
           | Some p0 \<Rightarrow>
               if timeoutCount \<le> 0 then ret (Some (Some (p0, p1)))
               else epoll_loop os epfd p0 p1 timeoutCount fuel } }"

definition epoll_watch :: "'k event_os \<Rightarrow> int \<Rightarrow> int \<Rightarrow> 32 word \<Rightarrow> ('k, unit) io" where
  "epoll_watch os epfd fd events = do {
     r \<leftarrow> sys (v_epoll_add os epfd fd events);
     if r = -1 then printf ''epoll ctl return -1'' [] else ret () }"

definition epoll_setup :: "'k event_os \<Rightarrow> ('k, int \<times> int \<times> int) io" where
  "epoll_setup os = do {
     (p0, p1) \<leftarrow> open_pipe os;
     epfd \<leftarrow> sys (v_epoll_create os);
     _ \<leftarrow> (if epfd < 0 then printf ''epoll create return < 0'' [] else ret ());
     _ \<leftarrow> epoll_watch os epfd 0 EPOLLIN;
     _ \<leftarrow> epoll_watch os epfd p0 EPOLLIN;
     ret (p0, p1, epfd) }"

definition epoll_main :: "'k event_os \<Rightarrow> nat \<Rightarrow> ('k, int option option) io" where
  "epoll_main os fuel = do {
     (p0, p1, epfd) \<leftarrow> epoll_setup os;
     r \<leftarrow> epoll_loop os epfd p0 p1 3 fuel;
     case r of
       None \<Rightarrow> ret None
     | Some None \<Rightarrow> ret (Some None)
     | Some (Some (p0, p1)) \<Rightarrow> do {
         _ \<leftarrow> close_pos os p0;
         _ \<leftarrow> close_pos os p1;
         ret (Some (Some 0)) } }"

subsection \<open>epoll, edge-triggered\<close>

fun et_scan :: "'k event_os \<Rightarrow> (32 word \<times> int) list \<Rightarrow> ('k, bool) io" where
  "et_scan os [] = ret True"
| "et_scan os ((e, fd) # es) =
     (if e AND EPOLLIN \<noteq> 0 then do {
        ok \<leftarrow> rd_show os fd 1;
        if ok then et_scan os es else ret False }
      else if e AND (EPOLLHUP OR EPOLLERR) \<noteq> 0 then do {
        _ \<leftarrow> printf ''will close fd(%d), event is %d\<newline>'' [FInt fd, FInt (sint e)];
        _ \<leftarrow> sys (v_close os fd);
        et_scan os es }
      else et_scan os es)"

text \<open>The loop has no exit: its first turns; \<open>False\<close> where it is undefined.\<close>

fun et_loop :: "'k event_os \<Rightarrow> int \<Rightarrow> nat \<Rightarrow> ('k, bool) io" where
  "et_loop os epfd 0 = ret True"
| "et_loop os epfd (Suc turns) = do {
     r \<leftarrow> sysopt (v_epoll_wait os epfd 10 30000);
     case r of
       None \<Rightarrow> do {
         e \<leftarrow> get_errno;
         _ \<leftarrow> printf ''epoll_wait had error, return is %d, errno is %d\<newline>'' [FInt (-1), FInt e];
         _ \<leftarrow> (if e = EINTR then printf ''receive EINTR\<newline>'' [] else ret ());
         et_loop os epfd turns }
     | Some evs \<Rightarrow>
         if evs = [] then do {
           _ \<leftarrow> printf ''timeout...\<newline>'' [];
           et_loop os epfd turns }
         else do {
           _ \<leftarrow> printf ''epoll ret is %d\<newline>'' [FInt (int (length evs))];
           ok \<leftarrow> et_scan os evs;
           if ok then et_loop os epfd turns else ret False } }"

text \<open>\<open>Inl e\<close>: the program returned \<open>e\<close>; \<open>Inr ok\<close>: it is in its loop.\<close>

definition et_main :: "'k event_os \<Rightarrow> nat \<Rightarrow> ('k, int + bool) io" where
  "et_main os turns = do {
     _ \<leftarrow> sys (v_remove os ''event.fifo'');
     r \<leftarrow> sys (v_mkfifo os ''event.fifo'');
     if r = -1 then do { _ \<leftarrow> perror ''mkfifo return -1''; ret (Inl 1) }
     else do {
       fd \<leftarrow> sys (v_open os ''event.fifo'');
       epfd \<leftarrow> sys (v_epoll_create os);
       if epfd < 0 then do { _ \<leftarrow> perror ''epoll create return < 0''; ret (Inl 1) }
       else do {
         r \<leftarrow> sys (v_epoll_add os epfd fd (EPOLLIN OR EPOLLET));
         _ \<leftarrow> (if r = -1 then perror ''epoll ctl return -1'' else ret ());
         ok \<leftarrow> et_loop os epfd turns;
         ret (Inr ok) } } }"

section \<open>What has been shown\<close>

abbreviation read_fmt :: string where
  "read_fmt \<equiv> ''read [%s] from fd: %d, size is %zd\<newline>''"

text \<open>The strings and sizes shown for a descriptor.\<close>

definition shown1 :: "int \<Rightarrow> outev \<Rightarrow> (string \<times> int) list" where
  "shown1 fd e = (case e of
      Printf fmt [FStr s, FInt f, FInt n] \<Rightarrow> if fmt = read_fmt \<and> f = fd then [(s, n)] else []
    | _ \<Rightarrow> [])"

definition shown :: "int \<Rightarrow> outev list \<Rightarrow> (string \<times> int) list" where
  "shown fd es = concat (map (shown1 fd) es)"

text \<open>How a list of chunks is shown: each up to its first null byte, with its size.\<close>

definition as_shown :: "char list list \<Rightarrow> (string \<times> int) list" where
  "as_shown = map (\<lambda>c. (cstr c, int (length c)))"

lemma shown_simps [simp]:
  "shown fd [] = []"
  "shown fd (es @ es') = shown fd es @ shown fd es'"
  "shown fd (Printf read_fmt [FStr s, FInt f, FInt n] # es) = (if f = fd then (s, n) # shown fd es else shown fd es)"
  "fmt \<noteq> read_fmt \<Longrightarrow> shown fd (Printf fmt as # es) = shown fd es"
  by (auto simp: shown_def shown1_def split: list.splits farg.splits)

lemma as_shown_simps [simp]:
  "as_shown [] = []" "as_shown (c # cs) = (cstr c, int (length c)) # as_shown cs"
  "as_shown (cs @ cs') = as_shown cs @ as_shown cs'"
  by (simp_all add: as_shown_def)

section \<open>Level-triggered reports\<close>

lemma suffix_prefix_sublist: "suffix xs ys \<Longrightarrow> prefix ys zs \<Longrightarrow> sublist xs zs"
  by (metis append_assoc prefix_def sublist_def suffix_def)

text \<open>A time-out uses one turn and one of the time-outs that are left.\<close>

lemma timeout_fuel:
  fixes b b' fuel :: nat and c :: int
  assumes "b \<le> b'" and "0 < c" and "b' + nat c \<le> Suc fuel"
  shows "b + nat (c - 1) \<le> fuel"
proof -
  have "nat (c - 1) < nat c" using assms(2) by simp
  with assms show ?thesis by linarith
qed

text \<open>
  \<open>got k fd\<close> are the bytes the program has read from a descriptor, \<open>pend k fd\<close> those that have
  arrived and are unread. \<open>budget\<close> bounds what can still happen: unread and future bytes,
  interruptions, hang-ups. \<open>watched\<close> are the descriptors of the epoll instance; a descriptor in
  \<open>hung\<close> has no writer and no unread byte any more.
\<close>

locale level_reads =
  fixes os :: "'k event_os" and got pend :: "'k \<Rightarrow> int \<Rightarrow> char list" and budget :: "'k \<Rightarrow> nat"
    and watched hung :: "'k \<Rightarrow> int set"
  assumes hung_law: "fd \<in> hung k \<Longrightarrow> pend k fd = []"
    and read_law: "pend k fd \<noteq> [] \<Longrightarrow> 0 < n \<Longrightarrow> \<exists>bs k'. v_read os fd n k = (Inr bs, k')
      \<and> length bs \<le> n \<and> prefix bs (pend k fd) \<and> got k' = (got k)(fd := got k fd @ bs)
      \<and> prefix (drop (length bs) (pend k fd)) (pend k' fd)
      \<and> (\<forall>g. g \<noteq> fd \<longrightarrow> prefix (pend k g) (pend k' g))
      \<and> watched k' = watched k \<and> hung k \<subseteq> hung k' \<and> budget k' < budget k"
begin

text \<open>Nothing is read between two kernel states, but bytes may have arrived.\<close>

definition later :: "'k \<Rightarrow> 'k \<Rightarrow> bool" where
  "later k k' \<longleftrightarrow> got k' = got k \<and> (\<forall>fd. prefix (pend k fd) (pend k' fd)) \<and> budget k' \<le> budget k"

text \<open>
  The program has run from one state to another and has shown, for every descriptor, exactly the
  bytes it has taken from it, in order; and no byte has been lost.
\<close>

definition adv :: "'k proc \<Rightarrow> 'k proc \<Rightarrow> bool" where
  "adv s s' \<longleftrightarrow> (\<forall>fd. (\<exists>cs. shown fd (outs s') = shown fd (outs s) @ as_shown cs
        \<and> got (kern s') fd = got (kern s) fd @ concat cs)
      \<and> prefix (got (kern s) fd @ pend (kern s) fd) (got (kern s') fd @ pend (kern s') fd))
    \<and> budget (kern s') \<le> budget (kern s)"

lemma adv_refl [simp]: "adv s s"
  by (auto simp: adv_def intro: exI [of _ "[]"])

lemma adv_trans [trans]: "adv s t \<Longrightarrow> adv t u \<Longrightarrow> adv s u"
proof -
  assume 1: "adv s t" and 2: "adv t u"
  have "\<exists>cs. shown fd (outs u) = shown fd (outs s) @ as_shown cs
      \<and> got (kern u) fd = got (kern s) fd @ concat cs" for fd
  proof -
    from 1 obtain cs where c: "shown fd (outs t) = shown fd (outs s) @ as_shown cs"
      "got (kern t) fd = got (kern s) fd @ concat cs" unfolding adv_def by blast
    from 2 obtain ds where "shown fd (outs u) = shown fd (outs t) @ as_shown ds"
      "got (kern u) fd = got (kern t) fd @ concat ds" unfolding adv_def by blast
    with c show ?thesis by (intro exI [of _ "cs @ ds"]) simp
  qed
  with 1 2 show "adv s u" unfolding adv_def by (meson prefix_order.trans order_trans)
qed

lemma adv_later: "later (kern s) (kern s') \<Longrightarrow> (\<And>fd. shown fd (outs s') = shown fd (outs s)) \<Longrightarrow> adv s s'"
  unfolding adv_def later_def by (auto intro: exI [of _ "[]"])

lemma adv_got: "adv s s' \<Longrightarrow> prefix (got (kern s) fd) (got (kern s') fd)"
  unfolding adv_def by (metis prefixI)

lemma adv_budget: "adv s s' \<Longrightarrow> budget (kern s') \<le> budget (kern s)"
  by (simp add: adv_def)

text \<open>A ready descriptor is read and shown; the others keep their bytes.\<close>

lemma rd_show_ready:
  assumes "pend (kern s) fd \<noteq> []" and "0 < n"
  shows "\<exists>s'. run_state (rd_show os fd n) s = (True, s') \<and> adv s s' \<and> budget (kern s') < budget (kern s)
    \<and> watched (kern s') = watched (kern s) \<and> hung (kern s) \<subseteq> hung (kern s')
    \<and> (\<forall>g. g \<noteq> fd \<longrightarrow> prefix (pend (kern s) g) (pend (kern s') g))"
proof -
  from read_law [OF assms] obtain bs k' where r: "v_read os fd n (kern s) = (Inr bs, k')"
    and p: "prefix bs (pend (kern s) fd)" and g: "got k' = (got (kern s))(fd := got (kern s) fd @ bs)"
    and p': "prefix (drop (length bs) (pend (kern s) fd)) (pend k' fd)"
    and o: "\<forall>g. g \<noteq> fd \<longrightarrow> prefix (pend (kern s) g) (pend k' g)"
    and b: "watched k' = watched (kern s)" "hung (kern s) \<subseteq> hung k'" "budget k' < budget (kern s)" by blast
  let ?s = "s\<lparr>kern := k', outs := outs s @ [Printf read_fmt [FStr (cstr bs), FInt fd, FInt (int (length bs))]]\<rparr>"
  have run: "run_state (rd_show os fd n) s = (True, ?s)" using r by (simp add: rd_show_def io_simps)
  have "\<exists>cs. shown f (outs ?s) = shown f (outs s) @ as_shown cs \<and> got k' f = got (kern s) f @ concat cs" for f
    using g by (intro exI [of _ "if f = fd then [bs] else []"]) simp
  moreover have "prefix (got (kern s) f @ pend (kern s) f) (got k' f @ pend k' f)" for f
    using g p p' o by (auto simp: prefix_def)
  ultimately have "adv s ?s" using b by (simp add: adv_def)
  with run b o show ?thesis by force
qed

end

subsection \<open>The pipe\<close>

text \<open>\<open>writer k w\<close>: the read end of the pipe with the write end \<open>w\<close>.\<close>

locale pipe_kernel = level_reads +
  fixes writer :: "'a \<Rightarrow> int \<Rightarrow> int option"
  assumes pipe_law: "\<exists>r w k'. v_pipe os k = (Inr (r, w), k') \<and> 0 < r \<and> 0 < w \<and> r \<noteq> w \<and> writer k' w = Some r
        \<and> got k' = (got k)(r := []) \<and> (\<forall>fd. fd \<noteq> r \<longrightarrow> prefix (pend k fd) (pend k' fd))
        \<and> watched k' = watched k \<and> budget k' \<le> budget k"
    and write_law: "writer k w = Some r \<Longrightarrow> \<exists>k'. v_write os w bs k = (Inr (int (length bs)), k') \<and> got k' = got k
        \<and> suffix bs (pend k' r) \<and> (\<forall>fd. fd \<noteq> r \<longrightarrow> prefix (pend k fd) (pend k' fd))
        \<and> watched k' = watched k \<and> budget k' \<le> budget k + length bs"
    and close_got: "got (snd (v_close os fd k)) = got k"
begin

lemma open_pipe_run:
  "\<exists>p0 p1 s'. run_state (open_pipe os) s = ((p0, p1), s') \<and> 0 < p0 \<and> 0 < p1 \<and> p0 \<noteq> p1 \<and> outs s' = outs s
    \<and> got (kern s') = (got (kern s))(p0 := []) \<and> suffix ''abcd'' (pend (kern s') p0)
    \<and> prefix (pend (kern s) 0) (pend (kern s') 0)
    \<and> watched (kern s') = watched (kern s) \<and> budget (kern s') \<le> budget (kern s) + 4"
proof -
  obtain r w k where p: "v_pipe os (kern s) = (Inr (r, w), k)" "0 < r" "0 < w" "r \<noteq> w" "writer k w = Some r"
      "got k = (got (kern s))(r := [])" "\<forall>fd. fd \<noteq> r \<longrightarrow> prefix (pend (kern s) fd) (pend k fd)"
      "watched k = watched (kern s)" "budget k \<le> budget (kern s)"
    using pipe_law [of "kern s"] by blast
  obtain k' where w: "v_write os w ''abcd'' k = (Inr (int (length ''abcd'')), k')" "got k' = got k"
      "suffix ''abcd'' (pend k' r)" "\<forall>fd. fd \<noteq> r \<longrightarrow> prefix (pend k fd) (pend k' fd)"
      "watched k' = watched k" "budget k' \<le> budget k + length ''abcd''"
    using write_law [OF p(5), of "''abcd''"] by blast
  have "prefix (pend (kern s) 0) (pend k' 0)"
    using p(2,7) w(4) by (metis less_irrefl prefix_order.trans)
  moreover have "run_state (open_pipe os) s = ((r, w), s\<lparr>kern := k'\<rparr>)"
    using p(1) w(1) by (simp add: open_pipe_def io_simps Let_def)
  ultimately show ?thesis using p w by (intro exI [of _ r] exI [of _ w] exI [of _ "s\<lparr>kern := k'\<rparr>"]) simp
qed

lemma close_pos_run:
  "\<exists>s'. run_state (close_pos os fd) s = ((), s') \<and> outs s' = outs s \<and> got (kern s') = got (kern s)"
  using close_got [of fd "kern s"]
  by (auto simp: close_pos_def io_simps split: prod.splits sum.splits)

text \<open>
  What a run from after \<open>open_pipe\<close> to a state with nothing unread on a descriptor has shown of
  that descriptor, the closing at the end included.
\<close>

lemma shown_all:
  assumes "adv s t" and "pend (kern t) fd = []" and "outs u = outs t" and "got (kern u) = got (kern t)"
  shows "\<exists>cs. shown fd (outs u) = shown fd (outs s) @ as_shown cs \<and> got (kern u) fd = got (kern s) fd @ concat cs
    \<and> prefix (pend (kern s) fd) (concat cs)"
proof -
  from assms(1) obtain cs where "shown fd (outs t) = shown fd (outs s) @ as_shown cs"
      "got (kern t) fd = got (kern s) fd @ concat cs" unfolding adv_def by blast
  moreover have "prefix (got (kern s) fd @ pend (kern s) fd) (got (kern t) fd @ pend (kern t) fd)"
    using assms(1) by (simp add: adv_def)
  ultimately show ?thesis using assms(2-4) by auto
qed

end

subsection \<open>poll\<close>

text \<open>
  A descriptor is reported while it has unread bytes, and for ever once it has hung up: as
  readable, when a \<open>read\<close> returns no byte, or as hung up only. A pipe with an open write end has
  not hung up.
\<close>

locale poll_kernel = pipe_kernel +
  assumes poll_law: "case v_poll os fds t k of
      (Inl e, k') \<Rightarrow> got k' = got k \<and> (\<forall>fd. prefix (pend k fd) (pend k' fd)) \<and> budget k' < budget k
        \<and> hung k \<subseteq> hung k' \<and> writer k' = writer k
    | (Inr revs, k') \<Rightarrow> got k' = got k \<and> (\<forall>fd. prefix (pend k fd) (pend k' fd)) \<and> budget k' \<le> budget k
        \<and> hung k \<subseteq> hung k' \<and> writer k' = writer k \<and> length revs = length fds
        \<and> (\<forall>i < length fds. (pend k' (fds ! i) \<noteq> [] \<longrightarrow> revs ! i AND POLLIN \<noteq> 0)
              \<and> (revs ! i = 0 \<longleftrightarrow> pend k' (fds ! i) = [] \<and> fds ! i \<notin> hung k'))"
    and eof_law: "fd \<in> hung k \<Longrightarrow> \<exists>k'. v_read os fd n k = (Inr [], k') \<and> got k' = got k
        \<and> (\<forall>g. prefix (pend k g) (pend k' g)) \<and> hung k \<subseteq> hung k' \<and> budget k' \<le> budget k"
    and read_writer: "writer (snd (v_read os fd n k)) = writer k"
    and pipe_hung: "v_pipe os k = (Inr (r, w), k') \<Longrightarrow> hung k \<subseteq> insert r (hung k')"
    and write_hung: "writer k w = Some r \<Longrightarrow> v_write os w bs k = (q, k') \<Longrightarrow>
        hung k \<subseteq> insert r (hung k') \<and> writer k' = writer k"
    and writer_open: "writer k w = Some r \<Longrightarrow> r \<notin> hung k"
begin

text \<open>What a turn keeps: the progress of \<open>adv\<close>, the hang-ups, the ends of the pipes.\<close>

definition goes_on :: "'a proc \<Rightarrow> 'a proc \<Rightarrow> bool" where
  "goes_on s s' \<longleftrightarrow> adv s s' \<and> hung (kern s) \<subseteq> hung (kern s') \<and> writer (kern s') = writer (kern s)"

lemma goes_on_refl [simp]: "goes_on s s"
  by (simp add: goes_on_def)

lemma goes_on_trans [trans]: "goes_on s t \<Longrightarrow> goes_on t u \<Longrightarrow> goes_on s u"
  using adv_trans [of s t u] by (auto simp: goes_on_def)

lemma goes_on_adv: "goes_on s t \<Longrightarrow> adv s t"
  by (simp add: goes_on_def)

lemma rd_show_eof:
  assumes "fd \<in> hung (kern s)"
  shows "\<exists>s'. run_state (rd_show os fd n) s = (True, s') \<and> goes_on s s'
    \<and> (\<forall>g. prefix (pend (kern s) g) (pend (kern s') g))"
proof -
  obtain k' where r: "v_read os fd n (kern s) = (Inr [], k')" "got k' = got (kern s)"
      "\<forall>g. prefix (pend (kern s) g) (pend k' g)" "hung (kern s) \<subseteq> hung k'" "budget k' \<le> budget (kern s)"
    using eof_law [OF assms, of n] by blast
  let ?s = "s\<lparr>kern := k', outs := outs s @ [Printf read_fmt [FStr [], FInt fd, FInt 0]]\<rparr>"
  have "\<exists>cs. shown f (outs ?s) = shown f (outs s) @ as_shown cs \<and> got k' f = got (kern s) f @ concat cs" for f
    using r(2) by (intro exI [of _ "if f = fd then [[]] else []"]) (simp add: cstr_def)
  then have "adv s ?s" using r(2,3,5) by (simp add: adv_def)
  moreover have "writer k' = writer (kern s)" using read_writer [of fd n "kern s"] r(1) by simp
  ultimately show ?thesis using r
    by (intro exI [of _ ?s]) (simp add: rd_show_def io_simps goes_on_def cstr_def)
qed

lemma rd_show_data:
  assumes "pend (kern s) fd \<noteq> []"
  shows "\<exists>s'. run_state (rd_show os fd 1023) s = (True, s') \<and> goes_on s s' \<and> budget (kern s') < budget (kern s)
    \<and> (\<forall>g. g \<noteq> fd \<longrightarrow> prefix (pend (kern s) g) (pend (kern s') g))"
proof -
  obtain s' where s': "run_state (rd_show os fd 1023) s = (True, s')" "adv s s'" "budget (kern s') < budget (kern s)"
      "hung (kern s) \<subseteq> hung (kern s')" "\<forall>g. g \<noteq> fd \<longrightarrow> prefix (pend (kern s) g) (pend (kern s') g)"
    using rd_show_ready [OF assms, of 1023] by auto
  have "kern s' = snd (v_read os fd 1023 (kern s))"
    using s'(1) by (auto simp: rd_show_def io_simps split: prod.splits sum.splits if_splits)
  then have "writer (kern s') = writer (kern s)" by (simp add: read_writer)
  with s' show ?thesis by (auto simp: goes_on_def)
qed

lemma poll_scan_ready:
  assumes "distinct (map fst ps)"
    and "\<And>fd v. (fd, v) \<in> set ps \<Longrightarrow> v AND POLLIN \<noteq> 0 \<Longrightarrow> pend (kern s) fd \<noteq> [] \<or> fd \<in> hung (kern s)"
  shows "\<exists>s'. run_state (poll_scan os ps) s = (True, s') \<and> goes_on s s'
    \<and> ((\<exists>(fd, v) \<in> set ps. v AND POLLIN \<noteq> 0 \<and> pend (kern s) fd \<noteq> []) \<longrightarrow> budget (kern s') < budget (kern s))"
  using assms
proof (induction ps arbitrary: s)
  case Nil
  show ?case by (simp add: io_simps)
next
  case (Cons p ps)
  obtain fd v where p: "p = (fd, v)" by force
  show ?case
  proof (cases "v AND POLLIN = 0")
    case True
    then show ?thesis using Cons.IH [of s] Cons.prems p by auto
  next
    case False
    then have ready: "pend (kern s) fd \<noteq> [] \<or> fd \<in> hung (kern s)" using Cons.prems(2) [of fd v] p by simp
    have "\<exists>u. run_state (rd_show os fd 1023) s = (True, u) \<and> goes_on s u
        \<and> (pend (kern s) fd \<noteq> [] \<longrightarrow> budget (kern u) < budget (kern s))
        \<and> (\<forall>g. g \<noteq> fd \<longrightarrow> prefix (pend (kern s) g) (pend (kern u) g))"
    proof (cases "pend (kern s) fd = []")
      case True
      then show ?thesis using ready rd_show_eof [of fd s 1023] by blast
    qed (use rd_show_data [of s fd] in blast)
    then obtain u where u: "run_state (rd_show os fd 1023) s = (True, u)" "goes_on s u"
        "pend (kern s) fd \<noteq> [] \<longrightarrow> budget (kern u) < budget (kern s)"
        "\<And>g. g \<noteq> fd \<Longrightarrow> prefix (pend (kern s) g) (pend (kern u) g)" by blast
    have keep: "pend (kern u) g \<noteq> []" if "(g, w) \<in> set ps" "pend (kern s) g \<noteq> []" for g w
    proof -
      have "g \<noteq> fd" using Cons.prems(1) that(1) p by force
      with u(4) [OF this] that(2) show ?thesis by (auto simp: prefix_def)
    qed
    have "pend (kern u) g \<noteq> [] \<or> g \<in> hung (kern u)" if "(g, w) \<in> set ps" "w AND POLLIN \<noteq> 0" for g w
      using keep [OF that(1)] Cons.prems(2) [of g w] that u(2) by (auto simp: goes_on_def)
    with Cons.IH [of u] Cons.prems(1) obtain s' where s': "run_state (poll_scan os ps) u = (True, s')" "goes_on u s'"
        "(\<exists>(fd, v) \<in> set ps. v AND POLLIN \<noteq> 0 \<and> pend (kern u) fd \<noteq> []) \<longrightarrow> budget (kern s') < budget (kern u)"
      by auto
    have b: "budget (kern s') \<le> budget (kern u)" "budget (kern u) \<le> budget (kern s)"
      using adv_budget goes_on_adv u(2) s'(2) by blast+
    have "budget (kern s') < budget (kern s)"
      if "\<exists>(fd, v) \<in> set (p # ps). v AND POLLIN \<noteq> 0 \<and> pend (kern s) fd \<noteq> []"
      using that u(3) s'(3) b keep p by fastforce
    with s'(1,2) u(1) p False goes_on_trans [OF u(2) s'(2)] show ?thesis by (auto simp: io_simps)
  qed
qed

text \<open>One turn that is not a time-out: what it does to the state, and to the budget.\<close>

lemma poll_turn:
  assumes "distinct fds" and "v_poll os fds 5000 (kern s) = (Inr revs, k')" and "filter (\<lambda>v. v \<noteq> 0) revs \<noteq> []"
  shows "\<exists>u. run_state (poll_scan os (zip fds revs)) (s\<lparr>kern := k'\<rparr>) = (True, u) \<and> goes_on s u
    \<and> (budget (kern u) < budget (kern s) \<or> (\<exists>fd \<in> set fds. fd \<in> hung (kern u)))"
proof -
  let ?s = "s\<lparr>kern := k'\<rparr>"
  note law = poll_law [where fds = fds and t = 5000 and k = "kern s", unfolded assms(2)]
  have a: "goes_on s ?s" using law adv_later [of s ?s] by (auto simp: goes_on_def later_def)
  have ready: "pend k' fd \<noteq> [] \<or> fd \<in> hung k'" if "(fd, v) \<in> set (zip fds revs)" "v AND POLLIN \<noteq> 0" for fd v
  proof -
    from that(1) obtain i where "i < length fds" "fd = fds ! i" "v = revs ! i" by (auto simp: in_set_zip)
    with law that(2) show ?thesis by (cases "v = 0") auto
  qed
  have "distinct (map fst (zip fds revs))" using law assms(1) by simp
  with poll_scan_ready [of "zip fds revs" ?s] ready obtain u where
    u: "run_state (poll_scan os (zip fds revs)) ?s = (True, u)" "goes_on ?s u"
      "(\<exists>(fd, v) \<in> set (zip fds revs). v AND POLLIN \<noteq> 0 \<and> pend k' fd \<noteq> []) \<longrightarrow> budget (kern u) < budget k'"
    by auto
  from assms(3) obtain i where i: "i < length fds" "revs ! i \<noteq> 0"
    using law by (auto simp: filter_empty_conv in_set_conv_nth)
  have "budget (kern u) < budget (kern s) \<or> (\<exists>fd \<in> set fds. fd \<in> hung (kern u))"
  proof (cases "fds ! i \<in> hung k'")
    case True
    then show ?thesis using i(1) u(2) by (auto simp: goes_on_def)
  next
    case False
    then have "pend k' (fds ! i) \<noteq> []" "revs ! i AND POLLIN \<noteq> 0" using law i by auto
    moreover have "(fds ! i, revs ! i) \<in> set (zip fds revs)" using i(1) law by (auto simp: in_set_zip)
    ultimately have "budget (kern u) < budget k'" using u(3) by blast
    with law show ?thesis by auto
  qed
  with u(1) goes_on_trans [OF a u(2)] show ?thesis by blast
qed

text \<open>Once a descriptor has hung up, the loop runs for ever: it is reported at once in every turn.\<close>

lemma poll_loop_spins:
  assumes "distinct fds" and "fd \<in> set fds" and "fd \<in> hung (kern s)" and "0 < c"
  shows "\<exists>s'. run_state (poll_loop os fds c fuel) s = (None, s') \<and> goes_on s s'"
  using assms(3)
proof (induction fuel arbitrary: s)
  case 0
  then show ?case by (simp add: io_simps)
next
  case (Suc fuel)
  obtain r k' where v: "v_poll os fds 5000 (kern s) = (r, k')" by force
  note law = poll_law [where fds = fds and t = 5000 and k = "kern s", unfolded v]
  show ?case
  proof (cases r)
    case (Inl e)
    let ?s = "s\<lparr>kern := k', errno := e, outs := outs s @ [Printf ''poll had error, return is %d, errno is %d\<newline>'' [FInt (-1), FInt e]]\<rparr>"
    have a: "goes_on s ?s" using law Inl adv_later [of s ?s] by (auto simp: goes_on_def later_def)
    then have "fd \<in> hung (kern ?s)" using Suc.prems by (auto simp: goes_on_def)
    from Suc.IH [OF this] obtain s' where "run_state (poll_loop os fds c fuel) ?s = (None, s')" "goes_on ?s s'" by blast
    with goes_on_trans [OF a] v Inl assms(4) show ?thesis by (auto simp: io_simps)
  next
    case (Inr revs)
    obtain i where "i < length fds" "fds ! i = fd" using assms(2) by (auto simp: in_set_conv_nth)
    then have "i < length revs" "revs ! i \<noteq> 0" using law Inr Suc.prems by auto
    then have ne: "filter (\<lambda>v. v \<noteq> 0) revs \<noteq> []" by (auto simp: filter_empty_conv intro: nth_mem)
    obtain u where u: "run_state (poll_scan os (zip fds revs)) (s\<lparr>kern := k'\<rparr>) = (True, u)" "goes_on s u"
      using poll_turn [OF assms(1) v [unfolded Inr] ne] by blast
    then have "fd \<in> hung (kern u)" using Suc.prems by (auto simp: goes_on_def)
    from Suc.IH [OF this] obtain s' where "run_state (poll_loop os fds c fuel) u = (None, s')" "goes_on u s'" by blast
    with goes_on_trans [OF u(2)] u(1) v Inr ne assms(4) show ?thesis by (auto simp: io_simps)
  qed
qed

text \<open>
  With a turn for every unit of budget and every time-out the loop ends, has shown all it took and
  has left nothing unread, unless a descriptor has hung up.
\<close>

lemma poll_loop_ends:
  assumes "distinct fds" and "0 < c" and "budget (kern s) + nat c \<le> fuel"
  shows "\<exists>r s'. run_state (poll_loop os fds c fuel) s = (r, s') \<and> goes_on s s'
    \<and> (r = Some True \<and> (\<forall>fd \<in> set fds. pend (kern s') fd = []) \<or> r = None \<and> (\<exists>fd \<in> set fds. fd \<in> hung (kern s')))"
  using assms(2,3)
proof (induction fuel arbitrary: s c)
  case 0
  then show ?case by simp
next
  case (Suc fuel)
  obtain r k' where v: "v_poll os fds 5000 (kern s) = (r, k')" by force
  note law = poll_law [where fds = fds and t = 5000 and k = "kern s", unfolded v]
  show ?case
  proof (cases r)
    case (Inl e)
    let ?s = "s\<lparr>kern := k', errno := e, outs := outs s @ [Printf ''poll had error, return is %d, errno is %d\<newline>'' [FInt (-1), FInt e]]\<rparr>"
    have a: "goes_on s ?s" using law Inl adv_later [of s ?s] by (auto simp: goes_on_def later_def)
    have "budget (kern ?s) + nat c \<le> fuel" using Suc.prems law Inl by simp
    from Suc.IH [OF Suc.prems(1) this] goes_on_trans [OF a] v Inl Suc.prems(1) show ?thesis by (auto simp: io_simps)
  next
    case (Inr revs)
    show ?thesis
    proof (cases "filter (\<lambda>v. v \<noteq> 0) revs = []")
      case True
      let ?s = "s\<lparr>kern := k', outs := outs s @ [Printf ''timeout...\<newline>'' []]\<rparr>"
      have a: "goes_on s ?s" using law Inr adv_later [of s ?s] by (auto simp: goes_on_def later_def)
      have none: "\<forall>fd \<in> set fds. pend k' fd = []"
        using law Inr True by (fastforce simp: filter_empty_conv in_set_conv_nth)
      show ?thesis
      proof (cases "c - 1 \<le> 0")
        case c: True
        have "run_state (poll_loop os fds c (Suc fuel)) s = (Some True, ?s)" using v Inr True c by (simp add: io_simps)
        then show ?thesis using a none by (intro exI [of _ "Some True"] exI [of _ ?s]) simp
      next
        case False
        have "budget (kern ?s) + nat (c - 1) \<le> fuel"
          using timeout_fuel [OF _ Suc.prems] law Inr by simp
        moreover have "run_state (poll_loop os fds c (Suc fuel)) s = run_state (poll_loop os fds (c - 1) fuel) ?s"
          using v Inr True False by (simp add: io_simps)
        ultimately show ?thesis using Suc.IH [of "c - 1" ?s] False goes_on_trans [OF a] by fastforce
      qed
    next
      case False
      obtain u where u: "run_state (poll_scan os (zip fds revs)) (s\<lparr>kern := k'\<rparr>) = (True, u)" "goes_on s u"
          "budget (kern u) < budget (kern s) \<or> (\<exists>fd \<in> set fds. fd \<in> hung (kern u))"
        using poll_turn [OF assms(1) v [unfolded Inr] False] by blast
      have next_turn: "run_state (poll_loop os fds c (Suc fuel)) s = run_state (poll_loop os fds c fuel) u"
        using u(1) v Inr False Suc.prems(1) by (simp add: io_simps)
      show ?thesis
      proof (cases "\<exists>fd \<in> set fds. fd \<in> hung (kern u)")
        case True
        then obtain fd where fd: "fd \<in> set fds" "fd \<in> hung (kern u)" by blast
        obtain s' where "run_state (poll_loop os fds c fuel) u = (None, s')" "goes_on u s'"
          using poll_loop_spins [OF assms(1) fd Suc.prems(1)] by blast
        with next_turn fd goes_on_trans [OF u(2)] show ?thesis by (auto simp: goes_on_def)
      next
        case none: False
        with u(3) have "budget (kern u) + nat c \<le> fuel" using Suc.prems by auto
        with Suc.IH [OF Suc.prems(1) this] goes_on_trans [OF u(2)] next_turn show ?thesis by fastforce
      qed
    qed
  qed
qed

lemma open_pipe_open:
  assumes "run_state (open_pipe os) s = ((p0, p1), t)"
  shows "writer (kern t) p1 = Some p0 \<and> hung (kern s) \<subseteq> insert p0 (hung (kern t))"
proof -
  obtain r w k where p: "v_pipe os (kern s) = (Inr (r, w), k)" "writer k w = Some r"
    using pipe_law [of "kern s"] by blast
  obtain q k' where w: "v_write os w ''abcd'' k = (q, k')" by force
  have "p0 = r" "p1 = w" "kern t = k'"
    using assms p(1) w by (auto simp: open_pipe_def io_simps Let_def split: sum.splits)
  with pipe_hung [OF p(1)] write_hung [OF p(2) w] p(2) show ?thesis by auto
qed

lemma poll_main_shows:
  assumes "budget (kern s) + 9 \<le> fuel"
  shows "\<exists>r s' p0 cs ds. run_state (poll_main os fuel) s = (r, s')
    \<and> shown p0 (outs s') = shown p0 (outs s) @ as_shown cs \<and> got (kern s') p0 = concat cs
    \<and> p0 \<noteq> 0 \<and> shown 0 (outs s') = shown 0 (outs s) @ as_shown ds
    \<and> got (kern s') 0 = got (kern s) 0 @ concat ds \<and> prefix (pend (kern s) 0) (concat ds)
    \<and> (r = Some (Some 0) \<and> 0 \<notin> hung (kern s) \<and> sublist ''abcd'' (concat cs) \<or> r = None \<and> 0 \<in> hung (kern s'))"
proof -
  obtain p0 p1 t where t: "run_state (open_pipe os) s = ((p0, p1), t)" "0 < p0" "0 < p1" "outs t = outs s"
      "got (kern t) = (got (kern s))(p0 := [])" "suffix ''abcd'' (pend (kern t) p0)"
      "prefix (pend (kern s) 0) (pend (kern t) 0)" "budget (kern t) \<le> budget (kern s) + 4"
    using open_pipe_run [of s] by blast
  have keep: "writer (kern t) p1 = Some p0 \<and> (0 \<in> hung (kern s) \<longrightarrow> 0 \<in> hung (kern t))"
    using open_pipe_open [OF t(1)] t(2) by auto
  have "budget (kern t) + nat 5 \<le> fuel" using t(8) assms by simp
  from poll_loop_ends [OF _ _ this, of "[p0, 0]"] t(2) obtain r u where
    u: "run_state (poll_loop os [p0, 0] 5 fuel) t = (r, u)" "goes_on t u"
      "r = Some True \<and> pend (kern u) p0 = [] \<and> pend (kern u) 0 = [] \<or> r = None \<and> (p0 \<in> hung (kern u) \<or> 0 \<in> hung (kern u))"
    by auto
  have p0: "p0 \<notin> hung (kern u)" using writer_open [of "kern u" p1 p0] keep u(2) by (auto simp: goes_on_def)
  have spin: "r = None" if "0 \<in> hung (kern s)"
    using poll_loop_spins [of "[p0, 0]" 0 t 5 fuel] that keep t(2) u(1) by auto
  have z: "pend (kern u) 0 = []" using u(3) p0 hung_law [of 0 "kern u"] by auto
  obtain w q where w: "run_state (poll_main os fuel) s = (q, w)" "outs w = outs u" "got (kern w) = got (kern u)"
      "r = None \<longrightarrow> q = None \<and> w = u" "r = Some True \<longrightarrow> q = Some (Some 0)"
  proof (cases "r = None")
    case True
    then show ?thesis using that [of None u] t(1) u(1) by (simp add: poll_main_def)
  next
    case False
    obtain v x where "run_state (close_pos os p0) u = ((), v)" "outs v = outs u" "got (kern v) = got (kern u)"
        "run_state (close_pos os p1) v = ((), x)" "outs x = outs v" "got (kern x) = got (kern v)"
      using close_pos_run [of p0 u] close_pos_run [of p1] by metis
    then show ?thesis using that [of "Some (Some 0)" x] t(1) u(1,3) False by (simp add: poll_main_def)
  qed
  from u(2) have a: "adv t u" by (rule goes_on_adv)
  obtain ds where ds: "shown 0 (outs w) = shown 0 (outs t) @ as_shown ds"
      "got (kern w) 0 = got (kern t) 0 @ concat ds" "prefix (pend (kern t) 0) (concat ds)"
    using shown_all [OF a z w(2,3)] by auto
  have "\<exists>cs. shown p0 (outs w) = shown p0 (outs t) @ as_shown cs \<and> got (kern w) p0 = concat cs
      \<and> (r = Some True \<longrightarrow> sublist ''abcd'' (concat cs))"
  proof (cases "r = None")
    case True
    from a obtain cs where "shown p0 (outs u) = shown p0 (outs t) @ as_shown cs" "got (kern u) p0 = got (kern t) p0 @ concat cs"
      unfolding adv_def by blast
    then show ?thesis using True w(2,3) t(5) by auto
  next
    case False
    then have "pend (kern u) p0 = []" using u(3) by blast
    from shown_all [OF a this w(2,3)] t(5) suffix_prefix_sublist [OF t(6)] show ?thesis by auto
  qed
  then obtain cs where cs: "shown p0 (outs w) = shown p0 (outs t) @ as_shown cs" "got (kern w) p0 = concat cs"
      "r = Some True \<longrightarrow> sublist ''abcd'' (concat cs)" by blast
  show ?thesis using w cs ds t(2,4,5,7) u(3) p0 spin
    by (intro exI [of _ q] exI [of _ w] exI [of _ p0] exI [of _ cs] exI [of _ ds]) (auto intro: prefix_order.trans)
qed

end

subsection \<open>epoll\<close>

text \<open>
  A hung-up descriptor is reported without \<open>EPOLLIN\<close> until it is closed.
\<close>

locale epoll_kernel = pipe_kernel +
  assumes wait_law: "0 < n \<Longrightarrow> case v_epoll_wait os epfd n t k of
      (Inl e, k') \<Rightarrow> got k' = got k \<and> (\<forall>fd. prefix (pend k fd) (pend k' fd)) \<and> watched k' = watched k
        \<and> budget k' < budget k
    | (Inr evs, k') \<Rightarrow> got k' = got k \<and> (\<forall>fd. prefix (pend k fd) (pend k' fd)) \<and> watched k' = watched k
        \<and> budget k' \<le> budget k \<and> distinct (map snd evs) \<and> snd ` set evs \<subseteq> watched k
        \<and> (\<forall>(e, fd) \<in> set evs. if e AND EPOLLIN \<noteq> 0 then pend k' fd \<noteq> []
              else fd \<in> hung k' \<and> e AND (EPOLLHUP OR EPOLLERR) \<noteq> 0)
        \<and> (evs = [] \<longrightarrow> (\<forall>fd \<in> watched k. pend k' fd = []))"
    and close_law: "\<exists>r k'. v_close os fd k = (r, k') \<and> got k' = got k \<and> (\<forall>g. prefix (pend k g) (pend k' g))
        \<and> watched k' = watched k - {fd} \<and> hung k \<subseteq> hung k'
        \<and> budget k' \<le> budget k \<and> (fd \<in> watched k \<longrightarrow> budget k' < budget k)"
    and create_law: "\<exists>fd k'. v_epoll_create os k = (Inr fd, k') \<and> 0 \<le> fd \<and> got k' = got k
        \<and> (\<forall>g. prefix (pend k g) (pend k' g)) \<and> watched k' = watched k \<and> budget k' \<le> budget k"
    and add_law: "\<exists>k'. v_epoll_add os epfd fd ev k = (Inr 0, k') \<and> got k' = got k
        \<and> (\<forall>g. prefix (pend k g) (pend k' g)) \<and> watched k' = insert fd (watched k) \<and> budget k' \<le> Suc (budget k)"
begin

lemma close_adv:
  "\<exists>s' r. run_state (sys (v_close os fd)) s = (r, s') \<and> adv s s' \<and> outs s' = outs s
    \<and> got (kern s') = got (kern s)
    \<and> (\<forall>g. prefix (pend (kern s) g) (pend (kern s') g)) \<and> hung (kern s) \<subseteq> hung (kern s')
    \<and> watched (kern s') = watched (kern s) - {fd} \<and> (fd \<in> watched (kern s) \<longrightarrow> budget (kern s') < budget (kern s))"
proof -
  obtain r k' where c: "v_close os fd (kern s) = (r, k')" "got k' = got (kern s)"
      "\<forall>g. prefix (pend (kern s) g) (pend k' g)" "watched k' = watched (kern s) - {fd}" "hung (kern s) \<subseteq> hung k'"
      "budget k' \<le> budget (kern s)" "fd \<in> watched (kern s) \<longrightarrow> budget k' < budget (kern s)"
    using close_law [of fd "kern s"] by blast
  define s' where "s' = (case r of Inl e \<Rightarrow> s\<lparr>kern := k', errno := e\<rparr> | Inr v \<Rightarrow> s\<lparr>kern := k'\<rparr>)"
  have s': "kern s' = k'" "outs s' = outs s" by (simp_all add: s'_def split: sum.split)
  have "adv s s'" by (rule adv_later) (use c s' in \<open>simp_all add: later_def\<close>)
  moreover have "\<exists>x. run_state (sys (v_close os fd)) s = (x, s')"
    using c(1) by (simp add: s'_def io_simps split: sum.split)
  ultimately show ?thesis using c s' by (metis (no_types, opaque_lifting))
qed

text \<open>
  What the program does to a watched descriptor it closes: it has shown all that had arrived.
\<close>

definition drained :: "'a proc \<Rightarrow> 'a proc \<Rightarrow> bool" where
  "drained s s' \<longleftrightarrow> (\<forall>fd \<in> watched (kern s) - watched (kern s').
     prefix (got (kern s) fd @ pend (kern s) fd) (got (kern s') fd))"

definition good :: "int \<Rightarrow> int \<Rightarrow> 'a proc \<Rightarrow> bool" where
  "good p0 q s \<longleftrightarrow> p0 \<noteq> -1 \<and> -1 \<notin> watched (kern s) \<and> (q = p0 \<or> q = -1) \<and> (q = -1 \<longleftrightarrow> p0 \<notin> watched (kern s))"

definition ready :: "'a \<Rightarrow> 32 word \<times> int \<Rightarrow> bool" where
  "ready k ev \<longleftrightarrow> (if fst ev AND EPOLLIN \<noteq> 0 then pend k (snd ev) \<noteq> []
     else snd ev \<in> hung k \<and> fst ev AND (EPOLLHUP OR EPOLLERR) \<noteq> 0)"

lemma drained_trans:
  assumes "adv s t" "drained s t" "adv t u" "drained t u"
  shows "drained s u"
  unfolding drained_def
proof
  fix fd
  assume fd: "fd \<in> watched (kern s) - watched (kern u)"
  show "prefix (got (kern s) fd @ pend (kern s) fd) (got (kern u) fd)"
  proof (cases "fd \<in> watched (kern t)")
    case True
    have "prefix (got (kern s) fd @ pend (kern s) fd) (got (kern t) fd @ pend (kern t) fd)"
      using assms(1) by (simp add: adv_def)
    also have "prefix (got (kern t) fd @ pend (kern t) fd) (got (kern u) fd)"
      using assms(4) True fd by (simp add: drained_def)
    finally show ?thesis .
  next
    case False
    then have "prefix (got (kern s) fd @ pend (kern s) fd) (got (kern t) fd)"
      using assms(2) fd by (simp add: drained_def)
    also note adv_got [OF assms(3), of fd]
    finally show ?thesis .
  qed
qed

lemma good_same: "good p0 p s \<Longrightarrow> watched (kern t) = watched (kern s) \<Longrightarrow> good p0 p t"
  unfolding good_def by metis

lemma drained_same: "watched (kern t) = watched (kern s) \<Longrightarrow> drained s t"
  by (simp add: drained_def)

text \<open>One event is handled: some budget is used, the other reports stay true.\<close>

lemma epoll_event:
  assumes "ready (kern s) (e, fd)" and "fd \<in> watched (kern s)" and "good p0 p s"
  shows "\<exists>u q. (\<forall>es. run_state (epoll_scan os p ((e, fd) # es)) s = run_state (epoll_scan os q es) u)
    \<and> adv s u \<and> drained s u \<and> good p0 q u \<and> budget (kern u) < budget (kern s)
    \<and> watched (kern s) - {fd} \<subseteq> watched (kern u) \<and> watched (kern u) \<subseteq> watched (kern s)
    \<and> (\<forall>ev. snd ev \<noteq> fd \<longrightarrow> ready (kern s) ev \<longrightarrow> ready (kern u) ev)"
proof (cases "e AND EPOLLIN = 0")
  case False
  with assms(1) have "pend (kern s) fd \<noteq> []" by (simp add: ready_def)
  with rd_show_ready [of s fd 1023] obtain u where
    u: "run_state (rd_show os fd 1023) s = (True, u)" "adv s u" "budget (kern u) < budget (kern s)"
      "watched (kern u) = watched (kern s)" "hung (kern s) \<subseteq> hung (kern u)"
      "\<And>g. g \<noteq> fd \<Longrightarrow> prefix (pend (kern s) g) (pend (kern u) g)" by auto
  have "ready (kern u) ev" if "snd ev \<noteq> fd" "ready (kern s) ev" for ev
    using that u(5) u(6) [OF that(1)] by (auto simp: ready_def prefix_def split: if_splits)
  moreover have "good p0 p u" by (rule good_same [OF assms(3) u(4)])
  ultimately show ?thesis using u False by (intro exI [of _ u] exI [of _ p]) (auto simp: drained_def)
next
  case True
  with assms(1) have hup: "fd \<in> hung (kern s)" "e AND (EPOLLHUP OR EPOLLERR) \<noteq> 0" by (simp_all add: ready_def)
  let ?t = "s\<lparr>outs := outs s @ [Printf ''will close fd(%d), event is %d\<newline>'' [FInt fd, FInt (sint e)]]\<rparr>"
  have t: "adv s ?t" by (rule adv_later) (simp_all add: later_def)
  from close_adv [of fd ?t] obtain r u where u: "run_state (sys (v_close os fd)) ?t = (r, u)" "adv ?t u"
      "got (kern u) = got (kern s)" "\<And>g. prefix (pend (kern s) g) (pend (kern u) g)" "hung (kern s) \<subseteq> hung (kern u)"
      "watched (kern u) = watched (kern s) - {fd}" "budget (kern u) < budget (kern s)" using assms(2) by auto
  have "ready (kern u) ev" if "ready (kern s) ev" for ev
    using that u(5) u(4) [of "snd ev"] by (auto simp: ready_def prefix_def split: if_splits)
  moreover have "good p0 (if fd = p then -1 else p) u" using assms(2,3) u(6) by (auto simp: good_def split: if_splits)
  moreover have "drained s u" using u(3,6) hung_law [OF hup(1)] by (auto simp: drained_def)
  moreover have "run_state (epoll_scan os p ((e, fd) # es)) s = run_state (epoll_scan os (if fd = p then -1 else p) es) u" for es
    using u(1) True hup(2) by (simp add: run_printf)
  ultimately show ?thesis using u adv_trans [OF t u(2)]
    by (intro exI [of _ u] exI [of _ "if fd = p then -1 else p"]) auto
qed

lemma epoll_scan_ready:
  assumes "distinct (map snd evs)" and "snd ` set evs \<subseteq> watched (kern s)"
    and "\<And>ev. ev \<in> set evs \<Longrightarrow> ready (kern s) ev" and "good p0 p s"
  shows "\<exists>s' q. run_state (epoll_scan os p evs) s = (Some q, s') \<and> adv s s' \<and> drained s s' \<and> good p0 q s'
    \<and> (evs \<noteq> [] \<longrightarrow> budget (kern s') < budget (kern s)) \<and> watched (kern s') \<subseteq> watched (kern s)"
  using assms
proof (induction evs arbitrary: s p)
  case Nil
  then show ?case by (auto simp: io_simps drained_def)
next
  case (Cons ev evs)
  obtain e fd where ev: "ev = (e, fd)" by force
  have 1: "ready (kern s) (e, fd)" "fd \<in> watched (kern s)" using Cons.prems(2,3) ev by auto
  obtain u q where run: "run_state (epoll_scan os p (ev # evs)) s = run_state (epoll_scan os q evs) u"
    and u: "adv s u" "drained s u" "good p0 q u" "budget (kern u) < budget (kern s)"
      "watched (kern s) - {fd} \<subseteq> watched (kern u)" "watched (kern u) \<subseteq> watched (kern s)"
    and others: "\<And>ev. snd ev \<noteq> fd \<Longrightarrow> ready (kern s) ev \<Longrightarrow> ready (kern u) ev"
    using epoll_event [OF 1 Cons.prems(4)] unfolding ev by blast
  have fresh: "snd ev' \<noteq> fd" if "ev' \<in> set evs" for ev' using Cons.prems(1) that ev by auto
  have evs: "distinct (map snd evs)" "snd ` set evs \<subseteq> watched (kern u)"
    using Cons.prems(1,2) u(5) fresh by fastforce+
  have rd: "ready (kern u) ev'" if "ev' \<in> set evs" for ev' using Cons.prems(3) others fresh that by simp
  from Cons.IH [OF evs rd u(3)] obtain s' q' where
    s': "run_state (epoll_scan os q evs) u = (Some q', s')" "adv u s'" "drained u s'" "good p0 q' s'"
      "watched (kern s') \<subseteq> watched (kern u)" by blast
  have "budget (kern s') < budget (kern s)" using adv_budget [OF s'(2)] u(4) by simp
  with run s' u(6) adv_trans [OF u(1) s'(2)] drained_trans [OF u(1,2) s'(2,3)] show ?case by auto
qed

text \<open>
  The loop ends, has shown all it took, and of every descriptor it watched at the start all that
  was unread then: what is closed on the way is drained, the rest is empty at the last time-out.
\<close>

lemma epoll_loop_ends:
  assumes "0 < c" and "c \<le> 3" and "budget (kern s) + nat c \<le> fuel" and "good p0 p s" and "p1 \<notin> watched (kern s)"
  shows "\<exists>s' q. run_state (epoll_loop os epfd p p1 c fuel) s = (Some (Some (q, if c = 3 then -1 else p1)), s')
    \<and> adv s s' \<and> drained s s' \<and> good p0 q s' \<and> (\<forall>fd \<in> watched (kern s'). pend (kern s') fd = [])"
  using assms
proof (induction fuel arbitrary: s c p p1)
  case 0
  then show ?case by simp
next
  case (Suc fuel)
  let ?P = "\<lambda>q s'. adv s s' \<and> drained s s' \<and> good p0 q s' \<and> (\<forall>fd \<in> watched (kern s'). pend (kern s') fd = [])"
  obtain r k' where v: "v_epoll_wait os epfd 10 3000 (kern s) = (r, k')" by force
  have "0 < (10 :: nat)" by simp
  note law = wait_law [OF this, where epfd = epfd and t = 3000 and k = "kern s", unfolded v]
  have go: "\<exists>s' q. run_state (epoll_loop os epfd p' q1 c' fuel) u = (Some (Some (q, if c' = 3 then -1 else q1)), s') \<and> ?P q s'"
    if u: "adv s u" "drained s u" "good p0 p' u" "0 < c'" "c' \<le> 3" "budget (kern u) + nat c' \<le> fuel"
      "q1 \<notin> watched (kern u)" for u p' q1 c'
  proof -
    from Suc.IH [OF u(4-6,3,7)] obtain s' q where
      s': "run_state (epoll_loop os epfd p' q1 c' fuel) u = (Some (Some (q, if c' = 3 then -1 else q1)), s')"
        "adv u s'" "drained u s'" "good p0 q s'" "\<forall>fd \<in> watched (kern s'). pend (kern s') fd = []" by blast
    with adv_trans [OF u(1) s'(2)] drained_trans [OF u(1,2) s'(2,3)] show ?thesis by blast
  qed
  show ?case
  proof (cases r)
    case (Inl e)
    let ?s = "s\<lparr>kern := k', errno := e, outs := outs s @ [Printf ''epoll_wait had error, return is %d, errno is %d\<newline>'' [FInt (-1), FInt e]]\<rparr>"
    let ?t = "?s\<lparr>outs := outs ?s @ [Printf ''receive EINTR\<newline>'' []]\<rparr>"
    have "adv s ?s" "adv s ?t" by (rule adv_later; use law Inl in \<open>simp add: later_def\<close>)+
    moreover have w: "watched k' = watched (kern s)" "budget k' + nat c \<le> fuel" using law Inl Suc.prems(3) by auto
    ultimately show ?thesis
      using go [of ?s p c p1] go [of ?t p c p1] Suc.prems v Inl
      by (cases "e = EINTR") (simp_all add: io_simps good_same [of p0 p s] drained_same)
  next
    case (Inr evs)
    have k': "later (kern s) k'" "watched k' = watched (kern s)" using law Inr by (auto simp: later_def)
    show ?thesis
    proof (cases "evs = []")
      case False
      let ?s = "s\<lparr>kern := k'\<rparr>"
      have a: "adv s ?s" "drained s ?s" by (rule adv_later drained_same; use k' in auto)+
      have evs: "distinct (map snd evs)" "snd ` set evs \<subseteq> watched (kern ?s)" "good p0 p ?s"
        using law Inr k' good_same [OF Suc.prems(4), of ?s] by auto
      have rd: "ready (kern ?s) ev" if "ev \<in> set evs" for ev using law Inr that by (auto simp: ready_def)
      from epoll_scan_ready [OF evs(1,2) rd evs(3)] False
      obtain u q where u: "run_state (epoll_scan os p evs) ?s = (Some q, u)" "adv ?s u" "drained ?s u" "good p0 q u"
          "budget (kern u) < budget k'" "watched (kern u) \<subseteq> watched k'" by auto
      have "budget (kern u) + nat c \<le> fuel" using u(5) k'(1) Suc.prems(3) by (simp add: later_def)
      moreover have "p1 \<notin> watched (kern u)" using u(6) k'(2) Suc.prems(5) by auto
      moreover note adv_trans [OF a(1) u(2)] drained_trans [OF a u(2,3)]
      ultimately show ?thesis using go [of u q c p1] u(1,4) Suc.prems(1,2) v Inr False by (simp add: io_simps)
    next
      case True
      let ?s = "s\<lparr>kern := k', outs := outs s @ [Printf ''timeout...\<newline>'' []]\<rparr>"
      have a: "adv s ?s" "drained s ?s" "good p0 p ?s"
        by (rule adv_later drained_same; use k' in simp)+ (use good_same [OF Suc.prems(4), of ?s] k' in simp)
      have none: "\<forall>fd \<in> watched k'. pend k' fd = []" using law Inr True k' by auto
      have fuel: "budget b + nat (c - 1) \<le> fuel" if "budget b \<le> budget k'" for b
        using timeout_fuel [OF _ Suc.prems(1,3), of "budget b"] that k'(1) by (simp add: later_def)
      consider "c = 3" | "c = 2" | "c = 1" using Suc.prems(1,2) by linarith
      then show ?thesis
      proof cases
        case 1
        let ?t = "?s\<lparr>outs := outs ?s @ [Printf ''close pipeFds[1]...\<newline>'' []]\<rparr>"
        have t: "adv s ?t" by (rule adv_later) (use k' in auto)
        obtain x u where u: "run_state (sys (v_close os p1)) ?t = (x, u)" "adv ?t u"
            "watched (kern u) = watched k' - {p1}"
          using close_adv [of p1 ?t] by auto
        have w: "watched (kern u) = watched (kern s)" using u(3) k'(2) Suc.prems(5) by simp
        then have "good p0 p u" "drained s u" using good_same [OF Suc.prems(4)] drained_same by simp_all
        moreover have "budget (kern u) + nat 2 \<le> fuel" using fuel [of "kern u"] adv_budget [OF u(2)] 1 by simp
        moreover have "-1 \<notin> watched (kern u)" using Suc.prems(4) w by (simp add: good_def)
        ultimately have "\<exists>s' q. run_state (epoll_loop os epfd p (-1) 2 fuel) u = (Some (Some (q, -1)), s') \<and> ?P q s'"
          using go [of u p 2 "-1"] adv_trans [OF t u(2)] by simp
        with v Inr True 1 u(1) show ?thesis by (auto simp: io_simps simp del: run_sys)
      next
        case 2
        then show ?thesis using go [of ?s p 1 p1] a fuel [of k'] Suc.prems(5) k'(2) v Inr True
          by (simp add: io_simps)
      next
        case 3
        then show ?thesis using a none v Inr True by (auto simp: io_simps)
      qed
    qed
  qed
qed

lemma epoll_watch_run:
  "\<exists>s'. run_state (epoll_watch os epfd fd ev) s = ((), s') \<and> outs s' = outs s \<and> got (kern s') = got (kern s)
    \<and> (\<forall>g. prefix (pend (kern s) g) (pend (kern s') g)) \<and> watched (kern s') = insert fd (watched (kern s))
    \<and> budget (kern s') \<le> Suc (budget (kern s))"
proof -
  obtain k' where "v_epoll_add os epfd fd ev (kern s) = (Inr 0, k')" "got k' = got (kern s)"
      "\<forall>g. prefix (pend (kern s) g) (pend k' g)" "watched k' = insert fd (watched (kern s))" "budget k' \<le> Suc (budget (kern s))"
    using add_law [of epfd fd ev "kern s"] by blast
  then show ?thesis by (intro exI [of _ "s\<lparr>kern := k'\<rparr>"]) (simp add: epoll_watch_def io_simps)
qed

lemma epoll_setup_run:
  "\<exists>p0 p1 epfd s'. run_state (epoll_setup os) s = ((p0, p1, epfd), s')
    \<and> 0 < p0 \<and> 0 < p1 \<and> p0 \<noteq> p1 \<and> outs s' = outs s
    \<and> got (kern s') = (got (kern s))(p0 := []) \<and> sublist ''abcd'' (pend (kern s') p0)
    \<and> prefix (pend (kern s) 0) (pend (kern s') 0)
    \<and> watched (kern s') = {0, p0} \<union> watched (kern s) \<and> budget (kern s') \<le> budget (kern s) + 6"
proof -
  obtain p0 p1 t where t: "run_state (open_pipe os) s = ((p0, p1), t)" "0 < p0" "0 < p1" "p0 \<noteq> p1" "outs t = outs s"
      "got (kern t) = (got (kern s))(p0 := [])" "suffix ''abcd'' (pend (kern t) p0)"
      "prefix (pend (kern s) 0) (pend (kern t) 0)" "watched (kern t) = watched (kern s)"
      "budget (kern t) \<le> budget (kern s) + 4"
    using open_pipe_run [of s] by blast
  obtain epfd k where e: "v_epoll_create os (kern t) = (Inr epfd, k)" "0 \<le> epfd" "got k = got (kern t)"
      "\<forall>g. prefix (pend (kern t) g) (pend k g)" "watched k = watched (kern t)" "budget k \<le> budget (kern t)"
    using create_law [of "kern t"] by blast
  obtain u where u: "run_state (epoll_watch os epfd 0 EPOLLIN) (t\<lparr>kern := k\<rparr>) = ((), u)" "outs u = outs t"
      "got (kern u) = got k" "\<forall>g. prefix (pend k g) (pend (kern u) g)" "watched (kern u) = insert 0 (watched k)"
      "budget (kern u) \<le> Suc (budget k)"
    using epoll_watch_run [of epfd 0 EPOLLIN "t\<lparr>kern := k\<rparr>"] by auto
  obtain v where v: "run_state (epoll_watch os epfd p0 EPOLLIN) u = ((), v)" "outs v = outs u"
      "got (kern v) = got (kern u)" "\<forall>g. prefix (pend (kern u) g) (pend (kern v) g)"
      "watched (kern v) = insert p0 (watched (kern u))" "budget (kern v) \<le> Suc (budget (kern u))"
    using epoll_watch_run [of epfd p0 EPOLLIN u] by auto
  have pr: "prefix (pend (kern t) g) (pend (kern v) g)" for g using e(4) u(4) v(4) by (meson prefix_order.trans)
  have "sublist ''abcd'' (pend (kern v) p0)" by (rule suffix_prefix_sublist [OF t(7) pr])
  moreover have "prefix (pend (kern s) 0) (pend (kern v) 0)" using t(8) pr by (rule prefix_order.trans)
  moreover have "run_state (epoll_setup os) s = ((p0, p1, epfd), v)"
    using t(1) e(1,2) u(1) v(1) by (simp add: epoll_setup_def run_sys)
  moreover have "watched (kern v) = {0, p0} \<union> watched (kern s)" "budget (kern v) \<le> budget (kern s) + 6"
    "outs v = outs s" "got (kern v) = (got (kern s))(p0 := [])"
    using t(5,6,9,10) e(3,5,6) u(2,3,5,6) v(2,3,5,6) by auto
  ultimately show ?thesis using t(2-4) by blast
qed

lemma epoll_main_shows:
  assumes "budget (kern s) + 9 \<le> fuel" and "watched (kern s) = {}"
  shows "\<exists>s' p0 cs ds. run_state (epoll_main os fuel) s = (Some (Some 0), s')
    \<and> shown p0 (outs s') = shown p0 (outs s) @ as_shown cs
    \<and> got (kern s') p0 = concat cs \<and> sublist ''abcd'' (concat cs)
    \<and> p0 \<noteq> 0 \<and> shown 0 (outs s') = shown 0 (outs s) @ as_shown ds
    \<and> got (kern s') 0 = got (kern s) 0 @ concat ds \<and> prefix (pend (kern s) 0) (concat ds)"
proof -
  obtain p0 p1 epfd t where t: "run_state (epoll_setup os) s = ((p0, p1, epfd), t)" "0 < p0" "0 < p1" "p0 \<noteq> p1"
      "outs t = outs s" "got (kern t) = (got (kern s))(p0 := [])" "sublist ''abcd'' (pend (kern t) p0)"
      "prefix (pend (kern s) 0) (pend (kern t) 0)" "watched (kern t) = {0, p0}" "budget (kern t) \<le> budget (kern s) + 6"
    using epoll_setup_run [of s] assms(2) by auto
  have 1: "budget (kern t) + nat 3 \<le> fuel" "good p0 p0 t" "p1 \<notin> watched (kern t)"
    using t assms(1) by (auto simp: good_def)
  from epoll_loop_ends [OF _ _ this, of epfd] obtain u q where
    u: "run_state (epoll_loop os epfd p0 p1 3 fuel) t = (Some (Some (q, -1)), u)" "adv t u" "drained t u"
      "\<forall>fd \<in> watched (kern u). pend (kern u) fd = []" by auto
  obtain w where w: "run_state (close_pos os q) u = ((), w)" "outs w = outs u" "got (kern w) = got (kern u)"
    using close_pos_run [of q u] by auto
  have "run_state (close_pos os (-1)) w = ((), w)" by (simp add: close_pos_def)
  then have run: "run_state (epoll_main os fuel) s = (Some (Some 0), w)"
    using t(1) u(1) w(1) by (simp add: epoll_main_def)
  have all: "\<exists>cs. shown fd (outs w) = shown fd (outs t) @ as_shown cs
      \<and> got (kern w) fd = got (kern t) fd @ concat cs \<and> prefix (pend (kern t) fd) (concat cs)"
    if "fd \<in> watched (kern t)" for fd
  proof -
    have "prefix (got (kern t) fd @ pend (kern t) fd) (got (kern u) fd)"
    proof (cases "fd \<in> watched (kern u)")
      case True
      moreover have "prefix (got (kern t) fd @ pend (kern t) fd) (got (kern u) fd @ pend (kern u) fd)"
        using u(2) by (simp add: adv_def)
      ultimately show ?thesis using u(4) by simp
    next
      case False
      with u(3) that show ?thesis by (simp add: drained_def)
    qed
    moreover obtain cs where "shown fd (outs u) = shown fd (outs t) @ as_shown cs"
        "got (kern u) fd = got (kern t) fd @ concat cs" using u(2) unfolding adv_def by blast
    ultimately show ?thesis using w(2,3) by auto
  qed
  obtain cs where cs: "shown p0 (outs w) = shown p0 (outs t) @ as_shown cs"
      "got (kern w) p0 = got (kern t) p0 @ concat cs" "prefix (pend (kern t) p0) (concat cs)"
    using all [of p0] t(9) by auto
  obtain ds where ds: "shown 0 (outs w) = shown 0 (outs t) @ as_shown ds"
      "got (kern w) 0 = got (kern t) 0 @ concat ds" "prefix (pend (kern t) 0) (concat ds)"
    using all [of 0] t(9) by auto
  have "sublist ''abcd'' (concat cs)" using sublist_order.order_trans [OF t(7) prefix_imp_sublist [OF cs(3)]] .
  with run cs ds t show ?thesis
    by (intro exI [of _ w] exI [of _ p0] exI [of _ cs] exI [of _ ds]) (auto intro: prefix_order.trans)
qed

end

end
