(* ===== verification/Event_Kernel.thy ===== *)
theory Event_Kernel
  imports Event_Loops
begin

unbundle bit_operations_syntax

text \<open>
  A kernel in memory for the programs of \<open>Event_Loops\<close>: descriptors with unread bytes, pipes, a
  file, and a script of what happens while a program waits. The locales of \<open>Event_Loops\<close> are
  interpreted on it. \<open>edge_os\<close> is a kernel that reports edges. Then the properties of the four
  programs.
\<close>

section \<open>The kernel\<close>

text \<open>During a wait, bytes arrive on the standard input, or a signal comes, or nothing happens.\<close>

datatype tick = Typed string | Interrupt

record evk =
  ek_fds :: "int list"
  ek_buf :: "int \<Rightarrow> string"
  ek_got :: "int \<Rightarrow> string"
  ek_peer :: "int \<Rightarrow> int option"
  ek_hup :: "int list"
  ek_reg :: "int list"
  ek_next :: nat
  ek_script :: "tick list"
  ek_file :: string
  ek_ffd :: int

definition ev_pend :: "evk \<Rightarrow> int \<Rightarrow> string" where
  "ev_pend k fd = (if fd \<in> set (ek_fds k) then ek_buf k fd else [])"

definition ev_hung :: "evk \<Rightarrow> int set" where
  "ev_hung k = {fd. fd \<in> set (ek_hup k) \<and> ev_pend k fd = []}"

definition ev_writer :: "evk \<Rightarrow> int \<Rightarrow> int option" where
  "ev_writer k w = (case ek_peer k w of Some r \<Rightarrow> if r \<in> set (ek_fds k) \<and> r \<notin> set (ek_hup k) then Some r else None | None \<Rightarrow> None)"

fun tick_cost :: "tick \<Rightarrow> nat" where
  "tick_cost (Typed bs) = length bs"
| "tick_cost Interrupt = 1"

definition ev_budget :: "evk \<Rightarrow> nat" where
  "ev_budget k = (\<Sum>fd \<in> set (ek_fds k). length (ek_buf k fd)) + sum_list (map tick_cost (ek_script k))
     + card (set (ek_reg k))"

definition ev_read :: "int \<Rightarrow> nat \<Rightarrow> (evk, char list) kcall" where
  "ev_read fd n k =
     (if ev_pend k fd \<noteq> [] then
        (Inr (take n (ek_buf k fd)),
         k\<lparr>ek_buf := (ek_buf k)(fd := drop n (ek_buf k fd)),
           ek_got := (ek_got k)(fd := ek_got k fd @ take n (ek_buf k fd))\<rparr>)
      else if fd \<in> set (ek_hup k) \<or> fd = ek_ffd k then (Inr [], k)
      else (Inl EAGAIN, k))"

definition ev_write :: "int \<Rightarrow> char list \<Rightarrow> (evk, int) kcall" where
  "ev_write w bs k = (case ev_writer k w of
      Some r \<Rightarrow> (Inr (int (length bs)), k\<lparr>ek_buf := (ek_buf k)(r := ek_buf k r @ bs)\<rparr>)
    | None \<Rightarrow> if w = ek_ffd k then (Inr (int (length bs)), k\<lparr>ek_file := ek_file k @ bs\<rparr>)
        else (Inl EBADF, k))"

definition ev_pipe :: "(evk, int \<times> int) kcall" where
  "ev_pipe k = (let r = int (ek_next k) + 3; w = int (ek_next k) + 4 in
     (Inr (r, w), k\<lparr>ek_next := ek_next k + 2, ek_fds := r # ek_fds k, ek_buf := (ek_buf k)(r := []),
       ek_got := (ek_got k)(r := []), ek_peer := (ek_peer k)(w \<mapsto> r), ek_hup := removeAll r (ek_hup k)\<rparr>))"

definition ev_close :: "int \<Rightarrow> (evk, int) kcall" where
  "ev_close fd k = (Inr 0, k\<lparr>ek_reg := removeAll fd (ek_reg k), ek_peer := (ek_peer k)(fd := None),
     ek_hup := (case ek_peer k fd of Some r \<Rightarrow> r # ek_hup k | None \<Rightarrow> ek_hup k)\<rparr>)"

text \<open>A wait: whether it is interrupted, and the state after it.\<close>

definition ev_tick :: "evk \<Rightarrow> bool \<times> evk" where
  "ev_tick k = (case ek_script k of
      [] \<Rightarrow> (False, k)
    | Interrupt # ts \<Rightarrow> (True, k\<lparr>ek_script := ts\<rparr>)
    | Typed bs # ts \<Rightarrow> (False, k\<lparr>ek_script := ts,
        ek_buf := (if 0 \<in> set (ek_hup k) then ek_buf k else (ek_buf k)(0 := ek_buf k 0 @ bs))\<rparr>))"

definition ev_poll :: "int list \<Rightarrow> int \<Rightarrow> (evk, 16 word list) kcall" where
  "ev_poll fds t k = (case ev_tick k of
      (True, k') \<Rightarrow> (Inl EINTR, k')
    | (False, k') \<Rightarrow> (Inr (map (\<lambda>fd. if ev_pend k' fd \<noteq> [] then POLLIN else if fd \<in> set (ek_hup k') then POLLHUP else 0) fds), k'))"

definition ev_report :: "evk \<Rightarrow> int \<Rightarrow> (32 word \<times> int) list" where
  "ev_report k fd = (if ev_pend k fd \<noteq> [] then [(EPOLLIN, fd)]
     else if fd \<in> set (ek_hup k) then [(EPOLLHUP, fd)] else [])"

definition ev_epoll_wait :: "int \<Rightarrow> nat \<Rightarrow> int \<Rightarrow> (evk, (32 word \<times> int) list) kcall" where
  "ev_epoll_wait epfd n t k = (case ev_tick k of
      (True, k') \<Rightarrow> (Inl EINTR, k')
    | (False, k') \<Rightarrow> (Inr (take n (concat (map (ev_report k') (remdups (ek_reg k'))))), k'))"

definition ev_select :: "int \<Rightarrow> int list \<Rightarrow> (evk, int list) kcall" where
  "ev_select n fds k = (case ev_tick k of
      (True, k') \<Rightarrow> (Inl EINTR, k')
    | (False, k') \<Rightarrow> (Inr (filter (\<lambda>fd. fd < n \<and> (ev_pend k' fd \<noteq> [] \<or> fd = ek_ffd k')) fds), k'))"

definition ev_os :: "evk event_os" where
  "ev_os = \<lparr>
     v_open = (\<lambda>path k. let fd = int (ek_next k) + 3 in
       (Inr fd, k\<lparr>ek_next := ek_next k + 1, ek_fds := fd # ek_fds k, ek_buf := (ek_buf k)(fd := []),
          ek_file := [], ek_ffd := fd\<rparr>)),
     v_lseek = (\<lambda>fd off k. (Inr off, k\<lparr>ek_buf := (ek_buf k)(fd := drop (nat off) (ek_file k))\<rparr>)),
     v_remove = (\<lambda>path k. (Inr 0, k)), v_mkfifo = (\<lambda>path k. (Inr 0, k)),
     v_pipe = ev_pipe, v_write = ev_write, v_read = ev_read, v_close = ev_close,
     v_select = ev_select, v_poll = ev_poll,
     v_epoll_create = (\<lambda>k. (Inr (int (ek_next k) + 3), k\<lparr>ek_next := ek_next k + 1\<rparr>)),
     v_epoll_add = (\<lambda>epfd fd ev k. (Inr 0, k\<lparr>ek_reg := fd # ek_reg k\<rparr>)),
     v_epoll_wait = ev_epoll_wait\<rparr>"

lemma ev_os_simps [simp]:
  "v_read ev_os = ev_read" "v_write ev_os = ev_write" "v_pipe ev_os = ev_pipe" "v_close ev_os = ev_close"
  "v_poll ev_os = ev_poll" "v_epoll_wait ev_os = ev_epoll_wait" "v_select ev_os = ev_select"
  "v_epoll_create ev_os = (\<lambda>k. (Inr (int (ek_next k) + 3), k\<lparr>ek_next := ek_next k + 1\<rparr>))"
  "v_epoll_add ev_os = (\<lambda>epfd fd ev k. (Inr 0, k\<lparr>ek_reg := fd # ek_reg k\<rparr>))"
  by (simp_all add: ev_os_def)

text \<open>Fewer unread bytes on one descriptor, or more on one.\<close>

lemma sum_less:
  fixes f g :: "int \<Rightarrow> nat"
  assumes "finite A" and "a \<in> A" and "g a < f a" and "\<And>x. x \<noteq> a \<Longrightarrow> g x \<le> f x"
  shows "sum g A < sum f A"
proof (rule sum_strict_mono_ex1)
  show "\<forall>x \<in> A. g x \<le> f x" using assms(3,4) by (metis less_imp_le)
qed (use assms in auto)

lemma ev_read_budget:
  assumes "ev_pend k fd \<noteq> []" and "0 < n"
  shows "ev_budget (snd (ev_read fd n k)) < ev_budget k"
  using assms sum_less [of "set (ek_fds k)" fd
      "\<lambda>x. length (((ek_buf k)(fd := drop n (ek_buf k fd))) x)" "\<lambda>x. length (ek_buf k x)"]
  by (auto simp: ev_read_def ev_budget_def ev_pend_def split: if_splits)

lemma sum_grow:
  "finite A \<Longrightarrow> (\<Sum>x \<in> A. length ((f(a := f a @ bs)) x)) \<le> (\<Sum>x \<in> A. length (f x)) + length bs"
  for f :: "int \<Rightarrow> string"
proof (cases "a \<in> A")
  case False
  then have "(\<Sum>x \<in> A. length ((f(a := f a @ bs)) x)) = (\<Sum>x \<in> A. length (f x))"
    by (intro sum.cong) auto
  then show ?thesis by simp
qed (simp add: sum.remove [of A a])

lemma ev_tick_props:
  assumes "ev_tick k = (b, k')"
  shows "ek_got k' = ek_got k" "prefix (ev_pend k fd) (ev_pend k' fd)" "ek_reg k' = ek_reg k"
    "ek_hup k' = ek_hup k" "ev_budget k' \<le> ev_budget k" "b \<Longrightarrow> ev_budget k' < ev_budget k"
  using assms sum_grow [of "set (ek_fds k)" "ek_buf k" 0]
  by (auto simp: ev_tick_def ev_pend_def ev_budget_def split: list.splits tick.splits if_splits)

interpretation ev: level_reads ev_os ek_got ev_pend ev_budget "\<lambda>k. set (ek_reg k)" ev_hung
proof
  fix k fd
  show "fd \<in> ev_hung k \<Longrightarrow> ev_pend k fd = []" by (simp add: ev_hung_def)
next
  fix k fd and n :: nat
  assume p: "ev_pend k fd \<noteq> []" and n: "0 < n"
  let ?k = "snd (ev_read fd n k)" and ?bs = "take n (ek_buf k fd)"
  have r: "v_read ev_os fd n k = (Inr ?bs, ?k)" using p by (simp add: ev_read_def)
  have "ev_budget ?k < ev_budget k" by (rule ev_read_budget [OF p n])
  moreover have "ev_hung k \<subseteq> ev_hung ?k" using p by (auto simp: ev_hung_def ev_read_def ev_pend_def)
  ultimately show "\<exists>bs k'. v_read ev_os fd n k = (Inr bs, k')
      \<and> length bs \<le> n \<and> prefix bs (ev_pend k fd) \<and> ek_got k' = (ek_got k)(fd := ek_got k fd @ bs)
      \<and> prefix (drop (length bs) (ev_pend k fd)) (ev_pend k' fd)
      \<and> (\<forall>g. g \<noteq> fd \<longrightarrow> prefix (ev_pend k g) (ev_pend k' g))
      \<and> set (ek_reg k') = set (ek_reg k) \<and> ev_hung k \<subseteq> ev_hung k' \<and> ev_budget k' < ev_budget k"
    using p by (intro exI [of _ ?bs] exI [of _ ?k], intro conjI r)
      (auto simp: ev_read_def ev_pend_def take_is_prefix min_def split: if_splits)
qed

interpretation ev: pipe_kernel ev_os ek_got ev_pend ev_budget "\<lambda>k. set (ek_reg k)" ev_hung ev_writer
proof
  fix k
  let ?r = "int (ek_next k) + 3" and ?w = "int (ek_next k) + 4" and ?k = "snd (ev_pipe k)"
  have "(\<Sum>fd \<in> set (ek_fds ?k). length (ek_buf ?k fd)) \<le> (\<Sum>fd \<in> set (ek_fds k). length (ek_buf k fd))"
  proof -
    have "(\<Sum>fd \<in> set (ek_fds ?k). length (ek_buf ?k fd)) = (\<Sum>fd \<in> set (ek_fds k) - {?r}. length (ek_buf k fd))"
      by (rule sum.mono_neutral_cong_right) (auto simp: ev_pipe_def Let_def)
    also have "\<dots> \<le> (\<Sum>fd \<in> set (ek_fds k). length (ek_buf k fd))" by (rule sum_mono2) auto
    finally show ?thesis .
  qed
  then have "ev_budget ?k \<le> ev_budget k" by (simp add: ev_budget_def ev_pipe_def Let_def)
  then show "\<exists>r w k'. v_pipe ev_os k = (Inr (r, w), k') \<and> 0 < r \<and> 0 < w \<and> r \<noteq> w \<and> ev_writer k' w = Some r
        \<and> ek_got k' = (ek_got k)(r := []) \<and> (\<forall>fd. fd \<noteq> r \<longrightarrow> prefix (ev_pend k fd) (ev_pend k' fd))
        \<and> set (ek_reg k') = set (ek_reg k) \<and> ev_budget k' \<le> ev_budget k"
    by (intro exI [of _ ?r] exI [of _ ?w] exI [of _ ?k])
      (simp add: ev_pipe_def Let_def ev_writer_def ev_pend_def)
next
  fix k w r bs
  assume "ev_writer k w = Some r"
  then show "\<exists>k'. v_write ev_os w bs k = (Inr (int (length bs)), k') \<and> ek_got k' = ek_got k
        \<and> suffix bs (ev_pend k' r) \<and> (\<forall>fd. fd \<noteq> r \<longrightarrow> prefix (ev_pend k fd) (ev_pend k' fd))
        \<and> set (ek_reg k') = set (ek_reg k) \<and> ev_budget k' \<le> ev_budget k + length bs"
    using sum_grow [of "set (ek_fds k)" "ek_buf k" r bs]
    by (auto simp: ev_write_def ev_pend_def ev_budget_def ev_writer_def suffix_def split: option.splits if_splits)
qed (simp add: ev_close_def)

lemma ev_writer_cong:
  "ek_peer k' = ek_peer k \<Longrightarrow> ek_fds k' = ek_fds k \<Longrightarrow> ek_hup k' = ek_hup k \<Longrightarrow> ev_writer k' = ev_writer k"
  by (intro ext) (simp add: ev_writer_def split: option.split)

lemma ev_tick_hung:
  assumes "ev_tick k = (b, k')"
  shows "ev_hung k \<subseteq> ev_hung k'" "ev_writer k' = ev_writer k"
  using assms by (auto simp: ev_tick_def ev_hung_def ev_pend_def intro!: ev_writer_cong
      split: list.splits tick.splits if_splits)

interpretation ev: poll_kernel ev_os ek_got ev_pend ev_budget "\<lambda>k. set (ek_reg k)" ev_hung ev_writer
proof
  fix fds t k
  obtain b k' where t: "ev_tick k = (b, k')" by force
  show "case v_poll ev_os fds t k of
      (Inl e, k') \<Rightarrow> ek_got k' = ek_got k \<and> (\<forall>fd. prefix (ev_pend k fd) (ev_pend k' fd)) \<and> ev_budget k' < ev_budget k
        \<and> ev_hung k \<subseteq> ev_hung k' \<and> ev_writer k' = ev_writer k
    | (Inr revs, k') \<Rightarrow> ek_got k' = ek_got k \<and> (\<forall>fd. prefix (ev_pend k fd) (ev_pend k' fd)) \<and> ev_budget k' \<le> ev_budget k
        \<and> ev_hung k \<subseteq> ev_hung k' \<and> ev_writer k' = ev_writer k \<and> length revs = length fds
        \<and> (\<forall>i < length fds. (ev_pend k' (fds ! i) \<noteq> [] \<longrightarrow> revs ! i AND POLLIN \<noteq> 0)
              \<and> (revs ! i = 0 \<longleftrightarrow> ev_pend k' (fds ! i) = [] \<and> fds ! i \<notin> ev_hung k'))"
    using ev_tick_props [OF t] ev_tick_hung [OF t] t
    by (cases b) (simp_all add: ev_poll_def POLLIN_def POLLHUP_def ev_hung_def)
next
  fix k w r bs q k'
  assume "ev_writer k w = Some r" and "v_write ev_os w bs k = (q, k')"
  then have "k' = k\<lparr>ek_buf := (ek_buf k)(r := ek_buf k r @ bs)\<rparr>" by (simp add: ev_write_def)
  then show "ev_hung k \<subseteq> insert r (ev_hung k') \<and> ev_writer k' = ev_writer k"
    by (auto simp: ev_hung_def ev_pend_def intro!: ev_writer_cong)
next
  fix fd n k
  show "ev_writer (snd (v_read ev_os fd n k)) = ev_writer k" by (rule ev_writer_cong) (simp_all add: ev_read_def)
qed (auto simp: ev_hung_def ev_read_def ev_pipe_def ev_writer_def ev_pend_def Let_def split: option.splits if_splits)

lemma ev_report_cases:
  "(e, g) \<in> set (ev_report k fd) \<longleftrightarrow> g = fd \<and> (ev_pend k fd \<noteq> [] \<and> e = EPOLLIN
     \<or> ev_pend k fd = [] \<and> fd \<in> set (ek_hup k) \<and> e = EPOLLHUP)"
  by (auto simp: ev_report_def)

lemma ev_reports_distinct:
  "distinct fds \<Longrightarrow> distinct (map snd (concat (map (ev_report k) fds)))"
proof (induction fds)
  case (Cons fd fds)
  then have "fd \<notin> snd ` set (concat (map (ev_report k) fds))" by (auto simp: ev_report_cases)
  with Cons show ?case by (auto simp: ev_report_def)
qed simp

interpretation ev: epoll_kernel ev_os ek_got ev_pend ev_budget "\<lambda>k. set (ek_reg k)" ev_hung ev_writer
proof
  fix n epfd t k
  assume n: "0 < (n :: nat)"
  obtain b k' where t: "ev_tick k = (b, k')" by force
  let ?evs = "concat (map (ev_report k') (remdups (ek_reg k')))"
  have "\<forall>ev \<in> set (take n ?evs). snd ev \<in> set (ek_reg k') \<and> (if fst ev AND EPOLLIN \<noteq> 0 then ev_pend k' (snd ev) \<noteq> []
      else snd ev \<in> ev_hung k' \<and> fst ev AND (EPOLLHUP OR EPOLLERR) \<noteq> 0)"
    by (auto simp: ev_report_cases ev_hung_def EPOLLIN_def EPOLLHUP_def EPOLLERR_def dest!: in_set_takeD)
  moreover have "distinct (map snd (take n ?evs))"
    using ev_reports_distinct [of "remdups (ek_reg k')" k'] by (simp add: take_map [symmetric] del: map_concat)
  moreover have "\<forall>fd \<in> set (ek_reg k'). ev_pend k' fd = []" if "take n ?evs = []"
    using that n by (auto simp: ev_report_def split: if_splits)
  ultimately show "case v_epoll_wait ev_os epfd n t k of
      (Inl e, k') \<Rightarrow> ek_got k' = ek_got k \<and> (\<forall>fd. prefix (ev_pend k fd) (ev_pend k' fd)) \<and> set (ek_reg k') = set (ek_reg k)
        \<and> ev_budget k' < ev_budget k
    | (Inr evs, k') \<Rightarrow> ek_got k' = ek_got k \<and> (\<forall>fd. prefix (ev_pend k fd) (ev_pend k' fd)) \<and> set (ek_reg k') = set (ek_reg k)
        \<and> ev_budget k' \<le> ev_budget k \<and> distinct (map snd evs) \<and> snd ` set evs \<subseteq> set (ek_reg k)
        \<and> (\<forall>(e, fd) \<in> set evs. if e AND EPOLLIN \<noteq> 0 then ev_pend k' fd \<noteq> []
              else fd \<in> ev_hung k' \<and> e AND (EPOLLHUP OR EPOLLERR) \<noteq> 0)
        \<and> (evs = [] \<longrightarrow> (\<forall>fd \<in> set (ek_reg k). ev_pend k' fd = []))"
    using ev_tick_props [OF t] t by (cases b) (auto simp: ev_epoll_wait_def simp del: take_eq_Nil)
next
  fix fd and k :: evk
  have "card (set (ek_reg k) - {fd}) < card (set (ek_reg k))" if "fd \<in> set (ek_reg k)"
    by (rule card_Diff1_less) (use that in auto)
  moreover have "card (set (ek_reg k) - {fd}) \<le> card (set (ek_reg k))" by (rule card_Diff1_le)
  ultimately show "\<exists>r k'. v_close ev_os fd k = (r, k') \<and> ek_got k' = ek_got k \<and> (\<forall>g. prefix (ev_pend k g) (ev_pend k' g))
        \<and> set (ek_reg k') = set (ek_reg k) - {fd} \<and> ev_hung k \<subseteq> ev_hung k'
        \<and> ev_budget k' \<le> ev_budget k \<and> (fd \<in> set (ek_reg k) \<longrightarrow> ev_budget k' < ev_budget k)"
    by (auto simp: ev_close_def ev_pend_def ev_hung_def ev_budget_def split: option.splits)
qed (auto simp: ev_pend_def ev_budget_def card_insert_if)

section \<open>Edge-triggered reports\<close>

text \<open>
  A FIFO that is reported once for every arrival: \<open>et_arrivals\<close> are the writes that will happen,
  one during each wait.
\<close>

record etk =
  et_buf :: string
  et_arrivals :: "string list"

definition edge_wait :: "int \<Rightarrow> nat \<Rightarrow> int \<Rightarrow> (etk, (32 word \<times> int) list) kcall" where
  "edge_wait epfd n t k = (case et_arrivals k of
      [] \<Rightarrow> (Inr [], k)
    | bs # as \<Rightarrow> (Inr [(EPOLLIN, 3)], k\<lparr>et_buf := et_buf k @ bs, et_arrivals := as\<rparr>))"

definition edge_os :: "etk event_os" where
  "edge_os = \<lparr>
     v_open = (\<lambda>path k. (Inr 3, k)), v_lseek = (\<lambda>fd off k. (Inl EINVAL, k)),
     v_remove = (\<lambda>path k. (Inl ENOENT, k)), v_mkfifo = (\<lambda>path k. (Inr 0, k)),
     v_pipe = (\<lambda>k. (Inl EINVAL, k)), v_write = (\<lambda>fd bs k. (Inr (int (length bs)), k\<lparr>et_buf := et_buf k @ bs\<rparr>)),
     v_read = (\<lambda>fd n k. if et_buf k = [] then (Inl EAGAIN, k)
        else (Inr (take n (et_buf k)), k\<lparr>et_buf := drop n (et_buf k)\<rparr>)),
     v_close = (\<lambda>fd k. (Inr 0, k)), v_select = (\<lambda>n fds k. (Inr [], k)), v_poll = (\<lambda>fds t k. (Inl EINVAL, k)),
     v_epoll_create = (\<lambda>k. (Inr 4, k)), v_epoll_add = (\<lambda>epfd fd ev k. (Inr 0, k)),
     v_epoll_wait = edge_wait\<rparr>"

lemma et_loop_idle:
  "et_arrivals (kern s) = [] \<Longrightarrow>
    \<exists>s'. run_state (et_loop edge_os epfd m) s = (True, s') \<and> kern s' = kern s \<and> shown fd (outs s') = shown fd (outs s)"
proof (induction m arbitrary: s)
  case 0
  then show ?case by simp
next
  case (Suc m)
  let ?s = "s\<lparr>outs := outs s @ [Printf ''timeout...\<newline>'' []]\<rparr>"
  have "run_state (et_loop edge_os epfd (Suc m)) s = run_state (et_loop edge_os epfd m) ?s"
    using Suc.prems by (simp add: io_simps edge_os_def edge_wait_def)
  then show ?case using Suc.IH [of ?s] Suc.prems by simp
qed

lemma et_loop_edges:
  assumes "\<forall>bs \<in> set (et_arrivals (kern s)). bs \<noteq> []"
  shows "\<exists>s'. run_state (et_loop edge_os epfd (length (et_arrivals (kern s)) + m)) s = (True, s')
    \<and> et_buf (kern s') = drop (length (et_arrivals (kern s))) (et_buf (kern s) @ concat (et_arrivals (kern s)))
    \<and> shown 3 (outs s') = shown 3 (outs s) @ as_shown (map (\<lambda>c. [c])
        (take (length (et_arrivals (kern s))) (et_buf (kern s) @ concat (et_arrivals (kern s)))))"
  using assms
proof (induction "et_arrivals (kern s)" arbitrary: s)
  case Nil
  then show ?case using et_loop_idle [of s epfd m 3] by auto
next
  case (Cons bs as)
  from Cons.hyps(2) [symmetric] Cons.prems have "bs \<noteq> []" by simp
  then obtain c rest where c: "et_buf (kern s) @ bs = c # rest" by (cases "et_buf (kern s) @ bs") auto
  let ?s = "s\<lparr>kern := (kern s)\<lparr>et_arrivals := as, et_buf := rest\<rparr>,
     outs := outs s @ [Printf ''epoll ret is %d\<newline>'' [FInt 1], Printf read_fmt [FStr (cstr [c]), FInt 3, FInt 1]]\<rparr>"
  have "run_state (et_loop edge_os epfd (Suc (length as) + m)) s = run_state (et_loop edge_os epfd (length as + m)) ?s"
    using Cons.hyps(2) [symmetric] c by (simp add: io_simps edge_os_def edge_wait_def rd_show_def EPOLLIN_def)
  moreover obtain s' where "run_state (et_loop edge_os epfd (length as + m)) ?s = (True, s')"
      "et_buf (kern s') = drop (length as) (rest @ concat as)"
      "shown 3 (outs s') = shown 3 (outs ?s) @ as_shown (map (\<lambda>c. [c]) (take (length as) (rest @ concat as)))"
    using Cons.hyps(1) [of ?s] Cons.hyps(2) [symmetric] Cons.prems by auto
  moreover have "et_buf (kern s) @ concat (et_arrivals (kern s)) = c # rest @ concat as"
      "length (et_arrivals (kern s)) = Suc (length as)"
    using c Cons.hyps(2) [symmetric] by simp_all
  ultimately show ?case by (simp del: et_loop.simps take_append drop_append)
qed

section \<open>Properties\<close>

text \<open>
  C13. \<open>io/poll\<close> on every kernel whose reports are level-triggered, hang-ups included. At any
  time it has shown, in order and with the right sizes, exactly the bytes it has read, and after a
  turn per unread or future byte and interruption and nine more these include all that was on the
  standard input at the start. It has then ended with status 0 after its five time-outs and has
  shown its own message from the pipe, unless the standard input is at its end or hung up: then it
  is still running, and it never ends when the input was at its end from the start.
\<close>

theorem poll_main_echoes:
  assumes "poll_kernel os got pend budget watched hung writer" and "budget (kern s) + 9 \<le> fuel"
  shows "\<exists>r s' p0 cs ds. run_state (poll_main os fuel) s = (r, s')
    \<and> shown p0 (outs s') = shown p0 (outs s) @ as_shown cs \<and> got (kern s') p0 = concat cs
    \<and> p0 \<noteq> 0 \<and> shown 0 (outs s') = shown 0 (outs s) @ as_shown ds
    \<and> got (kern s') 0 = got (kern s) 0 @ concat ds \<and> prefix (pend (kern s) 0) (concat ds)
    \<and> (r = Some (Some 0) \<and> 0 \<notin> hung (kern s) \<and> sublist ''abcd'' (concat cs) \<or> r = None \<and> 0 \<in> hung (kern s'))"
  using assms by (rule poll_kernel.poll_main_shows)

definition demo_kernel :: evk where
  "demo_kernel = \<lparr>ek_fds = [0], ek_buf = (\<lambda>_. [])(0 := ''x''), ek_got = (\<lambda>_. []), ek_peer = (\<lambda>_. None), ek_hup = [],
     ek_reg = [], ek_next = 0, ek_script = [Typed ''hi'', Interrupt], ek_file = [], ek_ffd = -1\<rparr>"

theorem poll_main_echoes_witness:
  "(\<exists>r s' ds. run_state (poll_main ev_os 20) \<lparr>kern = demo_kernel, errno = 0, outs = []\<rparr> = (r, s')
      \<and> shown 0 (outs s') = as_shown ds \<and> prefix ''x'' (concat ds))
    \<and> fst (run_state (poll_main ev_os 20) \<lparr>kern = demo_kernel\<lparr>ek_buf := (\<lambda>_. []), ek_hup := [0]\<rparr>, errno = 0, outs = []\<rparr>) = None"
proof
  show "\<exists>r s' ds. run_state (poll_main ev_os 20) \<lparr>kern = demo_kernel, errno = 0, outs = []\<rparr> = (r, s')
      \<and> shown 0 (outs s') = as_shown ds \<and> prefix ''x'' (concat ds)"
    using poll_main_echoes [OF ev.poll_kernel_axioms, of "\<lparr>kern = demo_kernel, errno = 0, outs = []\<rparr>" 20]
    by (auto simp: demo_kernel_def ev_budget_def ev_pend_def)
  show "fst (run_state (poll_main ev_os 20)
      \<lparr>kern = demo_kernel\<lparr>ek_buf := (\<lambda>_. []), ek_hup := [0]\<rparr>, errno = 0, outs = []\<rparr>) = None"
    using poll_main_echoes [OF ev.poll_kernel_axioms,
        of "\<lparr>kern = demo_kernel\<lparr>ek_buf := (\<lambda>_. []), ek_hup := [0]\<rparr>, errno = 0, outs = []\<rparr>" 20]
    by (auto simp: demo_kernel_def ev_budget_def ev_hung_def ev_pend_def)
qed



text \<open>
  When the standard input is at its end, the loop of \<open>io/poll\<close> never ends: the descriptor is
  reported for ever, as readable or as hung up, so \<open>poll\<close> never times out and \<open>timeoutCount\<close> stays.
\<close>

lemma poll_spins_at_eof:
  assumes "\<And>k. \<exists>k'. v_poll os [p0, 0] 5000 k = (Inr [0, v], k')" and "v \<noteq> 0"
    and "\<And>k. \<exists>k'. v_read os 0 1023 k = (Inr [], k')"
  shows "fst (run_state (poll_loop os [p0, 0] 5 fuel) s) = None"
proof (induction fuel arbitrary: s)
  case (Suc fuel)
  obtain k where k: "v_poll os [p0, 0] 5000 (kern s) = (Inr [0, v], k)" using assms(1) by blast
  obtain k' where k': "v_read os 0 1023 k = (Inr [], k')" using assms(3) by blast
  have "\<exists>t. run_state (poll_scan os [(p0, 0), (0, v)]) (s\<lparr>kern := k\<rparr>) = (True, t)"
    using k' by (cases "v AND POLLIN = 0") (simp_all add: io_simps rd_show_def)
  then show ?case using k assms(2) Suc.IH by (auto simp: io_simps)
qed simp

text \<open>
  \<open>io/select\<close> waits once. Its file is always ready, so every descriptor with unread bytes is
  read once, in the order of the numbers, and the program ends: whatever more than 1023 bytes the
  standard input had stays unread, and its five time-outs are never used. When the wait is
  interrupted, the program ends without having read anything.
\<close>

lemma select_main_once:
  "let (r, s') = run_state (select_main ev_os)
       \<lparr>kern = demo_kernel\<lparr>ek_buf := (\<lambda>_. [])(0 := inp), ek_script := ts\<rparr>, errno = e, outs = []\<rparr>;
     all = inp @ (case ts of Typed bs # _ \<Rightarrow> bs | _ \<Rightarrow> []);
     interrupted = (case ts of Interrupt # _ \<Rightarrow> True | _ \<Rightarrow> False)
   in r = Some 0 \<and> ek_buf (kern s') 0 = (if interrupted then inp else drop 1023 all)
    \<and> outs s' = Printf ''open new file fd is %d, errno is %d\<newline>'' [FInt 3, FInt e] #
       (if interrupted then [Printf ''select had error, return is %d, errno is %d\<newline>'' [FInt (-1), FInt EINTR]]
        else (if all = [] then [] else [Printf read_fmt [FStr (cstr (take 1023 all)), FInt 0, FInt (int (length (take 1023 all)))]])
          @ [Printf read_fmt [FStr ''1234'', FInt 3, FInt 4], Printf read_fmt [FStr ''abcd'', FInt 4, FInt 4]])"
proof -
  note defs = select_main_def select_turn_def open_pipe_def close_pos_def rd_show_def FD_SETSIZE_def ev_select_def
    ev_tick_def ev_read_def ev_write_def ev_writer_def ev_pipe_def ev_close_def ev_pend_def demo_kernel_def
  show ?thesis
  proof (cases ts)
    case Nil
    then show ?thesis by (cases "inp = []") (simp_all add: io_simps defs ev_os_def Let_def upto.simps cstr_def)
  next
    case (Cons x ts')
    then show ?thesis
      by (cases x; cases "inp = []") (auto simp: io_simps defs ev_os_def Let_def upto.simps cstr_def)
  qed
qed

text \<open>
  Edge-triggered, one byte at a time: \<open>io/epoll/et-read\<close> reads one byte for every write to the
  FIFO and no more. After \<open>n\<close> writes it has shown the first \<open>n\<close> bytes of all that was written, and
  the rest stays in the FIFO, however often the wait times out afterwards.
\<close>

lemma et_reads_one_per_edge:
  assumes "\<forall>bs \<in> set writes. bs \<noteq> []"
  shows "\<exists>s'. run_state (et_main edge_os (length writes + m)) \<lparr>kern = \<lparr>et_buf = [], et_arrivals = writes\<rparr>, errno = 0, outs = []\<rparr>
      = (Inr True, s')
    \<and> et_buf (kern s') = drop (length writes) (concat writes)
    \<and> shown 3 (outs s') = map (\<lambda>c. (cstr [c], 1)) (take (length writes) (concat writes))"
proof -
  let ?s = "\<lparr>kern = \<lparr>et_buf = [], et_arrivals = writes\<rparr>, errno = ENOENT, outs = []\<rparr>"
  have "as_shown (map (\<lambda>c. [c]) xs) = map (\<lambda>c. (cstr [c], 1)) xs" for xs by (simp add: as_shown_def)
  then obtain s' where s': "run_state (et_loop edge_os 4 (length writes + m)) ?s = (True, s')"
    "et_buf (kern s') = drop (length writes) (concat writes)"
    "shown 3 (outs s') = map (\<lambda>c. (cstr [c], 1)) (take (length writes) (concat writes))"
    using et_loop_edges [of ?s 4 m] assms by auto
  have "run_state (et_main edge_os (length writes + m)) \<lparr>kern = \<lparr>et_buf = [], et_arrivals = writes\<rparr>, errno = 0, outs = []\<rparr>
      = (Inr True, s')"
    using s'(1) unfolding et_main_def by (simp add: io_simps edge_os_def)
  with s'(2,3) show ?thesis by blast
qed

end
