(* ===== verification/Sleep.thy ===== *)
theory Sleep
  imports C_Prelude
begin

text \<open>
  \<open>time/sleep/main.c\<close>: the conversions of \<open>struct timespec\<close> and the eight ways \<open>mySleep\<close>
  sleeps. The calls are the record \<open>clock_os\<close>; \<open>clk_os\<close> is a clock in nanoseconds with a
  granularity, to which it rounds every interval and deadline up, and with the signals that will
  arrive; on it the sleeping times are proved.

  Milliseconds are \<open>unsigned long long\<close>, natural numbers below \<open>2 ^ 64\<close> with the conversions
  to narrower types written out. The \<open>double\<close> expressions \<open>n / 1000000. + 0.5\<close> are exact here:
  \<open>n\<close> is a difference of nanoseconds below \<open>10 ^ 9\<close>, so the value is an integer or at least
  \<open>10 ^ -6\<close> away from one, far more than the rounding error of a \<open>double\<close>.
\<close>

section \<open>Conversions\<close>

record timespec =
  tv_sec :: int
  tv_nsec :: int

datatype SleepType = SleepType_sleep | SleepType_usleep | SleepType_nanosleep | SleepType_select
  | SleepType_poll | SleepType_epoll | SleepType_posixClock_abs | SleepType_posixClock_relative
  | SleepType_invalid

text \<open>\<open>sleepType2String\<close>; \<open>None\<close> where the function ends without a return.\<close>

fun sleepType2String :: "SleepType \<Rightarrow> string option" where
  "sleepType2String SleepType_sleep = Some ''sleep''"
| "sleepType2String SleepType_usleep = Some ''usleep''"
| "sleepType2String SleepType_nanosleep = Some ''nanosleep''"
| "sleepType2String SleepType_select = Some ''select''"
| "sleepType2String SleepType_poll = Some ''poll''"
| "sleepType2String SleepType_epoll = Some ''epoll''"
| "sleepType2String SleepType_posixClock_abs = Some ''posixClock_abs''"
| "sleepType2String SleepType_posixClock_relative = Some ''posixClock_relative''"
| "sleepType2String SleepType_invalid = None"

definition U64 :: int where "U64 = 2 ^ 64"

text \<open>
  \<open>(uint64)(n / 1000000. + 0.5)\<close>: the fraction is cut off towards zero; for a value of -1 or
  less the conversion is undefined (\<open>None\<close>).
\<close>

definition ns_to_ms :: "int \<Rightarrow> int option" where
  "ns_to_ms n = (if n + 500000 \<le> -1000000 then None
     else if n + 500000 < 0 then Some 0 else Some ((n + 500000) div 1000000))"

definition timespec2ms :: "timespec \<Rightarrow> int option" where
  "timespec2ms t = map_option (\<lambda>m. ((tv_sec t mod U64) * 1000 + m) mod U64) (ns_to_ms (tv_nsec t))"

definition timeInterval :: "timespec \<Rightarrow> timespec \<Rightarrow> int option" where
  "timeInterval tp1 tp2 = map_option (\<lambda>m. (((tv_sec tp2 - tv_sec tp1) mod U64) * 1000 + m) mod U64)
     (ns_to_ms (tv_nsec tp2 - tv_nsec tp1))"

text \<open>A time in nanoseconds, and when a \<open>timespec\<close> is normalised.\<close>

definition ns :: "timespec \<Rightarrow> int" where
  "ns t = tv_sec t * 1000000000 + tv_nsec t"

definition valid_ts :: "timespec \<Rightarrow> bool" where
  "valid_ts t \<longleftrightarrow> 0 \<le> tv_sec t \<and> 0 \<le> tv_nsec t \<and> tv_nsec t < 1000000000"

text \<open>Within the range of real clocks the unsigned arithmetic does not wrap.\<close>

lemma ms_small:
  "0 \<le> x \<Longrightarrow> x < 2 ^ 50 \<Longrightarrow> 0 \<le> m \<Longrightarrow> m \<le> 1000 \<Longrightarrow> ((x mod U64) * 1000 + m) mod U64 = x * 1000 + m"
  for x m :: int
  by (simp add: U64_def)

lemma round_ms:
  "(n + 500000) div 1000000 * 1000000 \<le> n + 500000"
  "n + 500000 < (n + 500000) div 1000000 * 1000000 + 1000000" for n :: int
  by linarith+

lemma timespec2ms_rounds:
  assumes "valid_ts t" and "tv_sec t < 2 ^ 50"
  shows "\<exists>m. timespec2ms t = Some m \<and> \<bar>2 * (m * 1000000 - ns t)\<bar> \<le> 1000000"
proof -
  let ?q = "(tv_nsec t + 500000) div 1000000"
  have "0 \<le> ?q" "?q \<le> 1000" using assms(1) by (auto simp: valid_ts_def)
  moreover have "ns_to_ms (tv_nsec t) = Some ?q" using assms(1) by (simp add: ns_to_ms_def valid_ts_def)
  ultimately have "timespec2ms t = Some (tv_sec t * 1000 + ?q)"
    using ms_small [of "tv_sec t" ?q] assms by (simp add: timespec2ms_def valid_ts_def)
  with round_ms [of "tv_nsec t"] show ?thesis by (simp add: ns_def abs_le_iff algebra_simps)
qed

text \<open>The three cases of \<open>timeInterval\<close>, by the difference of the nanoseconds.\<close>

lemma timeInterval_cases:
  assumes "0 \<le> tv_sec t2 - tv_sec t1" and "tv_sec t2 - tv_sec t1 < 2 ^ 50"
    and "d = tv_nsec t2 - tv_nsec t1" and "d < 1000000000"
  shows "timeInterval t1 t2 = (if d \<le> -1500000 then None
    else Some ((tv_sec t2 - tv_sec t1) * 1000 + (if d < -500000 then 0 else (d + 500000) div 1000000)))"
proof -
  have "0 \<le> (d + 500000) div 1000000" "(d + 500000) div 1000000 \<le> 1000" if "\<not> d < -500000"
    using that assms(4) by simp_all
  then show ?thesis
    using ms_small [OF assms(1,2), of 0] ms_small [OF assms(1,2), of "(d + 500000) div 1000000"] assms(3)
    by (auto simp: timeInterval_def ns_to_ms_def)
qed

text \<open>
  C34. \<open>timespec2ms\<close> rounds a valid time to the nearest millisecond. \<open>timeInterval\<close> of two valid
  times in order does the same while the nanoseconds grow, is up to 1.5 ms too large when they
  shrink by less than 1.5 ms, and is undefined when they shrink by more, that is in most cases in
  which the interval runs past a full second.
\<close>

theorem time_conversions:
  assumes "valid_ts t1" and "valid_ts t2" and "ns t1 \<le> ns t2" and "tv_sec t2 < 2 ^ 50"
  shows "(\<exists>m. timespec2ms t2 = Some m \<and> \<bar>2 * (m * 1000000 - ns t2)\<bar> \<le> 1000000)
    \<and> (case timeInterval t1 t2 of
         None \<Rightarrow> tv_nsec t2 + 1500000 \<le> tv_nsec t1
       | Some m \<Rightarrow> tv_nsec t1 < tv_nsec t2 + 1500000
           \<and> -500000 \<le> m * 1000000 - (ns t2 - ns t1)
           \<and> m * 1000000 - (ns t2 - ns t1) \<le> (if tv_nsec t1 \<le> tv_nsec t2 then 500000 else 1500000))"
proof -
  define d where "d = tv_nsec t2 - tv_nsec t1"
  have s: "0 \<le> tv_sec t2 - tv_sec t1" "tv_sec t2 - tv_sec t1 < 2 ^ 50" "d < 1000000000"
    using assms by (auto simp: valid_ts_def ns_def d_def)
  have diff: "ns t2 - ns t1 = (tv_sec t2 - tv_sec t1) * 1000000000 + d" by (simp add: ns_def d_def algebra_simps)
  have "tv_nsec t2 = tv_nsec t1 + d" by (simp add: d_def)
  show ?thesis
    using timespec2ms_rounds [OF assms(2,4)] round_ms [of d]
    unfolding timeInterval_cases [OF s(1,2) d_def s(3)] diff
    by (auto simp: \<open>tv_nsec t2 = tv_nsec t1 + d\<close> algebra_simps)
qed

theorem time_conversions_witness:
  "timeInterval \<lparr>tv_sec = 0, tv_nsec = 900000000\<rparr> \<lparr>tv_sec = 2, tv_nsec = 0\<rparr> = None
     \<and> (\<exists>m. timespec2ms \<lparr>tv_sec = 2, tv_nsec = 0\<rparr> = Some m \<and> \<bar>2 * (m * 1000000 - 2000000000)\<bar> \<le> 1000000)"
  using time_conversions [of "\<lparr>tv_sec = 0, tv_nsec = 900000000\<rparr>" "\<lparr>tv_sec = 2, tv_nsec = 0\<rparr>"]
  by (simp add: valid_ts_def ns_def timeInterval_def ns_to_ms_def)

section \<open>mySleep\<close>

text \<open>
  The calls. \<open>nanosleep\<close> returns an error number, if any, and the remaining time;
  \<open>clock_nanosleep\<close> (with \<open>True\<close> for \<open>TIMER_ABSTIME\<close>) returns its error directly.
\<close>

record 'k clock_os =
  c_now :: "'k \<Rightarrow> timespec \<times> 'k"
  c_sleep :: "nat \<Rightarrow> 'k \<Rightarrow> nat \<times> 'k"
  c_usleep :: "nat \<Rightarrow> ('k, int) kcall"
  c_nanosleep :: "timespec \<Rightarrow> 'k \<Rightarrow> (int option \<times> timespec) \<times> 'k"
  c_select :: "int \<Rightarrow> int \<Rightarrow> ('k, int) kcall"
  c_poll :: "int \<Rightarrow> ('k, int) kcall"
  c_epoll_create :: "('k, int) kcall"
  c_epoll_wait :: "int \<Rightarrow> int \<Rightarrow> ('k, int) kcall"
  c_clock_nanosleep :: "bool \<Rightarrow> timespec \<Rightarrow> 'k \<Rightarrow> (int \<times> timespec) \<times> 'k"
  c_strerror :: "int \<Rightarrow> string"

definition on_kern :: "('k \<Rightarrow> 'a \<times> 'k) \<Rightarrow> ('k, 'a) io" where
  "on_kern f = State (\<lambda>s. case f (kern s) of (a, k) \<Rightarrow> (a, s\<lparr>kern := k\<rparr>))"

lemma run_on_kern [io_simps]:
  "run_state (on_kern f) s = (case f (kern s) of (a, k) \<Rightarrow> (a, s\<lparr>kern := k\<rparr>))"
  by (simp add: on_kern_def)

text \<open>Conversions to \<open>unsigned\<close> and \<open>int\<close>, and an undefined conversion printed as \<open>FStr\<close>.\<close>

definition to_uint :: "nat \<Rightarrow> nat" where
  "to_uint n = n mod 2 ^ 32"

definition to_int :: "nat \<Rightarrow> int" where
  "to_int n = (let m = int (to_uint n) in if m < 2 ^ 31 then m else m - 2 ^ 32)"

definition show_ms :: "int option \<Rightarrow> farg" where
  "show_ms m = (case m of Some v \<Rightarrow> FInt v | None \<Rightarrow> FStr ''undefined'')"

text \<open>
  The loops around the interruptible calls, each with a fuel for the number of calls: \<open>None\<close>
  when it was interrupted that often.
\<close>

fun sleep_loop :: "'k clock_os \<Rightarrow> nat \<Rightarrow> nat \<Rightarrow> ('k, int option) io" where
  "sleep_loop os 0 secs = ret None"
| "sleep_loop os (Suc fuel) secs = do {
     r \<leftarrow> on_kern (c_sleep os secs);
     if r > 0 then do {
       e \<leftarrow> get_errno;
       _ \<leftarrow> printf ''ret = %d, errno = %d(%s)\<newline>'' [FInt (int r), FInt e, FStr (c_strerror os e)];
       _ \<leftarrow> printf ''remained time: %d s\<newline>'' [FInt (int r)];
       sleep_loop os fuel secs }
     else ret (Some 0) }"

fun nanosleep_loop :: "'k clock_os \<Rightarrow> nat \<Rightarrow> timespec \<Rightarrow> ('k, int option) io" where
  "nanosleep_loop os 0 req = ret None"
| "nanosleep_loop os (Suc fuel) req = do {
     (r, rem) \<leftarrow> on_kern (c_nanosleep os req);
     case r of
       None \<Rightarrow> ret (Some 0)
     | Some e \<Rightarrow> do {
         _ \<leftarrow> set_errno e;
         if e = EINTR then do {
           _ \<leftarrow> printf ''ret = %d, errno = %d(%s)\<newline>'' [FInt (-1), FInt e, FStr (c_strerror os e)];
           _ \<leftarrow> printf ''remained time: %llu ms\<newline>'' [show_ms (timespec2ms rem)];
           _ \<leftarrow> set_errno 0;
           nanosleep_loop os fuel rem }
         else ret (Some (-1)) } }"

fun clock_abs_loop :: "'k clock_os \<Rightarrow> nat \<Rightarrow> timespec \<Rightarrow> ('k, int option) io" where
  "clock_abs_loop os 0 req = ret None"
| "clock_abs_loop os (Suc fuel) req = do {
     (r, rem) \<leftarrow> on_kern (c_clock_nanosleep os True req);
     if r = EINTR then do {
       _ \<leftarrow> printf ''ret = %d, errno = %s\<newline>'' [FInt r, FStr (c_strerror os r)];
       clock_abs_loop os fuel req }
     else ret (Some r) }"

fun clock_rel_loop :: "'k clock_os \<Rightarrow> nat \<Rightarrow> timespec \<Rightarrow> ('k, int option) io" where
  "clock_rel_loop os 0 req = ret None"
| "clock_rel_loop os (Suc fuel) req = do {
     (r, rem) \<leftarrow> on_kern (c_clock_nanosleep os False req);
     if r = EINTR then do {
       _ \<leftarrow> printf ''ret = %d(%s), remain %llu ms\<newline>'' [FInt r, FStr (c_strerror os r), show_ms (timespec2ms rem)];
       clock_rel_loop os fuel rem }
     else ret (Some r) }"

text \<open>The request of a relative sleep, and the deadline of an absolute one (lines 128 to 136).\<close>

definition request :: "nat \<Rightarrow> timespec" where
  "request ms = \<lparr>tv_sec = int (ms div 1000), tv_nsec = int (ms mod 1000) * 1000000\<rparr>"

definition deadline :: "timespec \<Rightarrow> nat \<Rightarrow> timespec" where
  "deadline t ms =
     (let sec = tv_sec t + int (ms div 1000); nsec = tv_nsec t + int (ms mod 1000) * 1000000 in
      if nsec \<ge> 1000000000 then \<lparr>tv_sec = sec + 1, tv_nsec = nsec - 1000000000\<rparr>
      else \<lparr>tv_sec = sec, tv_nsec = nsec\<rparr>)"

text \<open>The \<open>switch\<close> of \<open>mySleep\<close>.\<close>

fun sleep_by :: "'k clock_os \<Rightarrow> nat \<Rightarrow> nat \<Rightarrow> SleepType \<Rightarrow> ('k, int option) io" where
  "sleep_by os fuel ms SleepType_sleep = sleep_loop os fuel (to_uint (ms div 1000))"
| "sleep_by os fuel ms SleepType_usleep = do { r \<leftarrow> sys (c_usleep os (to_uint (ms * 1000))); ret (Some r) }"
| "sleep_by os fuel ms SleepType_nanosleep = nanosleep_loop os fuel (request ms)"
| "sleep_by os fuel ms SleepType_select = do {
     r \<leftarrow> sys (c_select os (int (ms div 1000)) (int (ms mod 1000) * 1000)); ret (Some r) }"
| "sleep_by os fuel ms SleepType_poll = do { r \<leftarrow> sys (c_poll os (to_int ms)); ret (Some r) }"
| "sleep_by os fuel ms SleepType_epoll = do {
     fd \<leftarrow> sys (c_epoll_create os);
     r \<leftarrow> sys (c_epoll_wait os fd (to_int ms));
     ret (Some r) }"
| "sleep_by os fuel ms SleepType_posixClock_abs = do {
     now \<leftarrow> on_kern (c_now os);
     clock_abs_loop os fuel (deadline now ms) }"
| "sleep_by os fuel ms SleepType_posixClock_relative = clock_rel_loop os fuel (request ms)"
| "sleep_by os fuel ms SleepType_invalid = do {
     _ \<leftarrow> printf ''unknown sleep type: %d\<newline>'' [FInt 8];
     ret (Some 0) }"

definition mySleep :: "'k clock_os \<Rightarrow> nat \<Rightarrow> nat \<Rightarrow> SleepType \<Rightarrow> ('k, unit option) io" where
  "mySleep os fuel ms type = do {
     _ \<leftarrow> printf ''\<newline>\<newline>will use [%10s] to sleep %llu ms\<newline>''
            [case sleepType2String type of Some n \<Rightarrow> FStr n | None \<Rightarrow> FStr ''undefined'', FInt (int ms)];
     start \<leftarrow> on_kern (c_now os);
     r \<leftarrow> sleep_by os fuel ms type;
     case r of
       None \<Rightarrow> ret None
     | Some v \<Rightarrow> do {
         fin \<leftarrow> on_kern (c_now os);
         _ \<leftarrow> printf (TAB # ''sleep finish, cost: %llu ms\<newline>'') [show_ms (timeInterval start fin)];
         e \<leftarrow> get_errno;
         _ \<leftarrow> (if v \<noteq> 0 then printf ''ret = %d, errno = %d(%s)\<newline>'' [FInt v, FInt e, FStr (c_strerror os v)]
               else ret ());
         ret (Some ()) } }"

text \<open>The loop of \<open>main\<close> over the eight types.\<close>

fun sleep_all :: "'k clock_os \<Rightarrow> nat \<Rightarrow> nat \<Rightarrow> SleepType list \<Rightarrow> ('k, unit option) io" where
  "sleep_all os fuel ms [] = ret (Some ())"
| "sleep_all os fuel ms (t # ts) = do {
     r \<leftarrow> mySleep os fuel ms t;
     case r of None \<Rightarrow> ret None | Some _ \<Rightarrow> sleep_all os fuel ms ts }"

definition sleep_types :: "SleepType list" where
  "sleep_types = [SleepType_sleep, SleepType_usleep, SleepType_nanosleep, SleepType_select, SleepType_poll,
     SleepType_epoll, SleepType_posixClock_abs, SleepType_posixClock_relative]"

section \<open>A clock with signals\<close>

text \<open>The time in nanoseconds, its granularity, and the delays after which the next signals arrive.\<close>

record clk =
  clock :: nat
  tick :: nat
  sigs :: "nat list"

text \<open>
  Intervals and deadlines that are not a multiple of the granularity are rounded up to the next
  one, as the manual of \<open>nanosleep\<close> says.
\<close>

definition round_up :: "nat \<Rightarrow> nat \<Rightarrow> nat" where
  "round_up g d = d + (g - d mod g) mod g"

lemma round_up_bounds: "d \<le> round_up g d" "round_up g d \<le> d + (g - 1)"
proof -
  have "(g - d mod g) mod g \<le> g - 1"
    by (cases "g = 0") (simp_all add: less_Suc_eq_le [symmetric])
  then show "round_up g d \<le> d + (g - 1)" by (simp add: round_up_def)
qed (simp add: round_up_def)

definition ts_of :: "nat \<Rightarrow> timespec" where
  "ts_of n = \<lparr>tv_sec = int (n div 1000000000), tv_nsec = int (n mod 1000000000)\<rparr>"

text \<open>Pausing for \<open>d\<close> nanoseconds: what remains when a signal arrives before the end.\<close>

fun pause :: "nat \<Rightarrow> clk \<Rightarrow> nat \<times> clk" where
  "pause d k = (case sigs k of
      [] \<Rightarrow> (0, k\<lparr>clock := clock k + d\<rparr>)
    | x # xs \<Rightarrow> if x < d then (d - x, k\<lparr>clock := clock k + x, sigs := xs\<rparr>)
        else (0, k\<lparr>clock := clock k + d, sigs := (x - d) # xs\<rparr>))"

text \<open>Sleeping for an interval, and until a time.\<close>

definition pause_for :: "nat \<Rightarrow> clk \<Rightarrow> nat \<times> clk" where
  "pause_for d k = pause (round_up (tick k) d) k"

definition pause_until :: "nat \<Rightarrow> clk \<Rightarrow> nat \<times> clk" where
  "pause_until d k = pause (if d \<le> clock k then 0 else round_up (tick k) d - clock k) k"

definition pause_call :: "nat \<Rightarrow> (clk, int) kcall" where
  "pause_call d k = (case pause_for d k of (r, k') \<Rightarrow> (if r = 0 then Inr 0 else Inl EINTR, k'))"

definition clk_os :: "clk clock_os" where
  "clk_os = \<lparr>c_now = (\<lambda>k. (ts_of (clock k), k)),
     c_sleep = (\<lambda>secs k. case pause_for (secs * 1000000000) k of (r, k') \<Rightarrow> ((r + 999999999) div 1000000000, k')),
     c_usleep = (\<lambda>us. pause_call (us * 1000)),
     c_nanosleep = (\<lambda>req k. case pause_for (nat (ns req)) k of
        (r, k') \<Rightarrow> ((if r = 0 then None else Some EINTR, if r = 0 then req else ts_of r), k')),
     c_select = (\<lambda>s us. pause_call (nat (s * 1000000000 + us * 1000))),
     c_poll = (\<lambda>ms. pause_call (nat ms * 1000000)),
     c_epoll_create = (\<lambda>k. (Inr 3, k)),
     c_epoll_wait = (\<lambda>fd ms. pause_call (nat ms * 1000000)),
     c_clock_nanosleep = (\<lambda>absolute req k. case if absolute then pause_until (nat (ns req)) k else pause_for (nat (ns req)) k of
        (r, k') \<Rightarrow> ((if r = 0 then 0 else EINTR, if absolute \<or> r = 0 then req else ts_of r), k')),
     c_strerror = (\<lambda>e. [])\<rparr>"

text \<open>The calls the loops use, one by one, so that the simplifier keeps \<open>clk_os\<close> folded.\<close>

lemma clk_calls:
  "c_now clk_os k = (ts_of (clock k), k)"
  "c_sleep clk_os secs k = (case pause_for (secs * 1000000000) k of (r, k') \<Rightarrow> ((r + 999999999) div 1000000000, k'))"
  "c_nanosleep clk_os req k = (case pause_for (nat (ns req)) k of
     (r, k') \<Rightarrow> ((if r = 0 then None else Some EINTR, if r = 0 then req else ts_of r), k'))"
  "c_clock_nanosleep clk_os absolute req k = (case if absolute then pause_until (nat (ns req)) k else pause_for (nat (ns req)) k of
     (r, k') \<Rightarrow> ((if r = 0 then 0 else EINTR, if absolute \<or> r = 0 then req else ts_of r), k'))"
  "c_strerror clk_os e = []"
  by (simp_all add: clk_os_def)

lemma ns_ts_of [simp]: "ns (ts_of n) = int n"
proof -
  have "int (n div 1000000000) * 1000000000 + int (n mod 1000000000) = int n"
    by (simp add: zmod_int zdiv_int)
  then show ?thesis by (simp add: ns_def ts_of_def)
qed

lemma ns_request: "ns (request ms) = int ms * 1000000"
proof -
  have "int (ms div 1000) * 1000 + int (ms mod 1000) = int ms" by (simp add: zmod_int zdiv_int)
  then show ?thesis by (simp add: ns_def request_def algebra_simps)
qed

lemma ns_deadline: "ns (deadline t ms) = ns t + int ms * 1000000"
proof -
  have "int (ms div 1000) * 1000 + int (ms mod 1000) = int ms" by (simp add: zmod_int zdiv_int)
  then show ?thesis by (simp add: ns_def deadline_def Let_def algebra_simps)
qed

text \<open>
  A relative sleep of \<open>d\<close> from \<open>k\<close> to \<open>k'\<close>: never too short, and late by at most one rounding for
  itself and one for every restart.
\<close>

definition in_time :: "clk \<Rightarrow> nat \<Rightarrow> clk \<Rightarrow> bool" where
  "in_time k d k' \<longleftrightarrow> clock k + d \<le> clock k' \<and> clock k' \<le> clock k + d + Suc (length (sigs k)) * (tick k - 1)"

lemma in_time_end: "in_time k d (k\<lparr>clock := clock k + round_up (tick k) d, sigs := xs\<rparr>)"
  using round_up_bounds [where d = d and g = "tick k"] by (simp add: in_time_def)

lemma in_time_restart:
  assumes "sigs k = x # xs" and "x < round_up (tick k) d"
    and "in_time (k\<lparr>clock := clock k + x, sigs := xs\<rparr>) (round_up (tick k) d - x) k'"
  shows "in_time k d k'"
  using assms round_up_bounds [where d = d and g = "tick k"] by (simp add: in_time_def)

lemma pause_ends:
  assumes "\<not> (\<exists>x xs. sigs k = x # xs \<and> x < d)"
  obtains xs where "pause d k = (0, k\<lparr>clock := clock k + d, sigs := xs\<rparr>)"
proof (cases "sigs k")
  case Nil
  then show ?thesis using that [of "[]"] by (cases k) simp
qed (use assms that in auto)

lemma nanosleep_loop_time:
  "length (sigs (kern s)) < fuel \<Longrightarrow>
     \<exists>s'. run_state (nanosleep_loop clk_os fuel req) s = (Some 0, s') \<and> in_time (kern s) (nat (ns req)) (kern s')"
proof (induction fuel arbitrary: req s)
  case (Suc fuel)
  let ?d = "round_up (tick (kern s)) (nat (ns req))"
  show ?case
  proof (cases "\<exists>x xs. sigs (kern s) = x # xs \<and> x < ?d")
    case False
    then obtain xs where "pause ?d (kern s) = (0, (kern s)\<lparr>clock := clock (kern s) + ?d, sigs := xs\<rparr>)"
      by (rule pause_ends)
    then show ?thesis by (auto simp: io_simps clk_calls pause_for_def in_time_end EINTR_def)
  next
    case True
    then obtain x xs where x: "sigs (kern s) = x # xs" "x < ?d" by blast
    let ?s = "s\<lparr>kern := (kern s)\<lparr>clock := clock (kern s) + x, sigs := xs\<rparr>,
      outs := outs s @ [Printf ''ret = %d, errno = %d(%s)\<newline>'' [FInt (-1), FInt EINTR, FStr []],
        Printf ''remained time: %llu ms\<newline>'' [show_ms (timespec2ms (ts_of (?d - x)))]], errno := 0\<rparr>"
    have "run_state (nanosleep_loop clk_os (Suc fuel) req) s = run_state (nanosleep_loop clk_os fuel (ts_of (?d - x))) ?s"
      using x by (simp add: io_simps clk_calls pause_for_def)
    moreover have "length (sigs (kern ?s)) < fuel" using Suc.prems x by simp
    then obtain s' where "run_state (nanosleep_loop clk_os fuel (ts_of (?d - x))) ?s = (Some 0, s')"
        "in_time (kern ?s) (nat (ns (ts_of (?d - x)))) (kern s')"
      using Suc.IH [of ?s "ts_of (?d - x)"] by blast
    ultimately show ?thesis using in_time_restart [OF x, of "kern s'"] by auto
  qed
qed simp

lemma clock_rel_loop_time:
  "length (sigs (kern s)) < fuel \<Longrightarrow>
     \<exists>s'. run_state (clock_rel_loop clk_os fuel req) s = (Some 0, s') \<and> in_time (kern s) (nat (ns req)) (kern s')"
proof (induction fuel arbitrary: req s)
  case (Suc fuel)
  let ?d = "round_up (tick (kern s)) (nat (ns req))"
  show ?case
  proof (cases "\<exists>x xs. sigs (kern s) = x # xs \<and> x < ?d")
    case False
    then obtain xs where "pause ?d (kern s) = (0, (kern s)\<lparr>clock := clock (kern s) + ?d, sigs := xs\<rparr>)"
      by (rule pause_ends)
    then show ?thesis by (auto simp: io_simps clk_calls pause_for_def in_time_end EINTR_def)
  next
    case True
    then obtain x xs where x: "sigs (kern s) = x # xs" "x < ?d" by blast
    let ?s = "s\<lparr>kern := (kern s)\<lparr>clock := clock (kern s) + x, sigs := xs\<rparr>,
      outs := outs s @ [Printf ''ret = %d(%s), remain %llu ms\<newline>''
        [FInt EINTR, FStr [], show_ms (timespec2ms (ts_of (?d - x)))]]\<rparr>"
    have "run_state (clock_rel_loop clk_os (Suc fuel) req) s = run_state (clock_rel_loop clk_os fuel (ts_of (?d - x))) ?s"
      using x by (simp add: io_simps clk_calls pause_for_def)
    moreover have "length (sigs (kern ?s)) < fuel" using Suc.prems x by simp
    then obtain s' where "run_state (clock_rel_loop clk_os fuel (ts_of (?d - x))) ?s = (Some 0, s')"
        "in_time (kern ?s) (nat (ns (ts_of (?d - x)))) (kern s')"
      using Suc.IH [of ?s "ts_of (?d - x)"] by blast
    ultimately show ?thesis using in_time_restart [OF x, of "kern s'"] by auto
  qed
qed simp

text \<open>A deadline is rounded once, however often the sleep is restarted.\<close>

lemma clock_abs_loop_time:
  "length (sigs (kern s)) < fuel \<Longrightarrow> clock (kern s) \<le> round_up (tick (kern s)) (nat (ns req)) \<Longrightarrow>
     \<exists>s'. run_state (clock_abs_loop clk_os fuel req) s = (Some 0, s')
       \<and> nat (ns req) \<le> clock (kern s') \<and> clock (kern s') \<le> round_up (tick (kern s)) (nat (ns req))"
proof (induction fuel arbitrary: s)
  case (Suc fuel)
  let ?D = "nat (ns req)" and ?R = "round_up (tick (kern s)) (nat (ns req))"
  let ?d = "if ?D \<le> clock (kern s) then 0 else ?R - clock (kern s)"
  show ?case
  proof (cases "\<exists>x xs. sigs (kern s) = x # xs \<and> x < ?d")
    case False
    then obtain xs where "pause ?d (kern s) = (0, (kern s)\<lparr>clock := clock (kern s) + ?d, sigs := xs\<rparr>)"
      by (rule pause_ends)
    moreover have "?D \<le> clock (kern s) + ?d" "clock (kern s) + ?d \<le> ?R"
      using Suc.prems(2) round_up_bounds(1) [of ?D "tick (kern s)"] by auto
    ultimately show ?thesis by (auto simp: io_simps clk_calls pause_until_def EINTR_def simp del: pause.simps)
  next
    case True
    then obtain x xs where x: "sigs (kern s) = x # xs" "x < ?d" by blast
    let ?s = "s\<lparr>kern := (kern s)\<lparr>clock := clock (kern s) + x, sigs := xs\<rparr>,
      outs := outs s @ [Printf ''ret = %d, errno = %s\<newline>'' [FInt EINTR, FStr []]]\<rparr>"
    have "run_state (clock_abs_loop clk_os (Suc fuel) req) s = run_state (clock_abs_loop clk_os fuel req) ?s"
      using x by (auto simp: io_simps clk_calls pause_until_def split: if_splits)
    moreover have "length (sigs (kern ?s)) < fuel" "clock (kern ?s) \<le> round_up (tick (kern ?s)) ?D"
      using Suc.prems x by (auto split: if_splits)
    ultimately show ?thesis using Suc.IH [of ?s] by simp
  qed
qed simp

text \<open>\<open>sleep\<close> starts again with the full time after every signal.\<close>

lemma sleep_loop_time:
  "length (sigs (kern s)) < fuel \<Longrightarrow> \<forall>x\<in>set (sigs (kern s)). x < secs * 1000000000 \<Longrightarrow>
     \<exists>s'. run_state (sleep_loop clk_os fuel secs) s = (Some 0, s')
       \<and> clock (kern s') = clock (kern s) + sum_list (sigs (kern s)) + round_up (tick (kern s)) (secs * 1000000000)"
proof (induction fuel arbitrary: s)
  case (Suc fuel)
  show ?case
  proof (cases "sigs (kern s)")
    case Nil
    then show ?thesis by (auto simp: io_simps clk_calls pause_for_def)
  next
    case (Cons x xs)
    then have x: "x < secs * 1000000000" using Suc.prems by simp
    let ?d = "round_up (tick (kern s)) (secs * 1000000000)"
    let ?r = "(?d - x + 999999999) div 1000000000"
    have d: "x < ?d" using x round_up_bounds(1) [of "secs * 1000000000" "tick (kern s)"] by simp
    then have "0 < ?r" by (simp add: div_greater_zero_iff)
    let ?s = "s\<lparr>kern := (kern s)\<lparr>clock := clock (kern s) + x, sigs := xs\<rparr>,
      outs := outs s @ [Printf ''ret = %d, errno = %d(%s)\<newline>'' [FInt (int ?r), FInt (errno s), FStr []],
        Printf ''remained time: %d s\<newline>'' [FInt (int ?r)]]\<rparr>"
    have "run_state (sleep_loop clk_os (Suc fuel) secs) s = run_state (sleep_loop clk_os fuel secs) ?s"
      using Cons d \<open>0 < ?r\<close> by (simp add: io_simps clk_calls pause_for_def)
    moreover have "length (sigs (kern ?s)) < fuel" "\<forall>y\<in>set (sigs (kern ?s)). y < secs * 1000000000"
      using Suc.prems Cons by simp_all
    ultimately show ?thesis using Suc.IH [of ?s] Cons by auto
  qed
qed simp

lemma deadline_valid: "valid_ts t \<Longrightarrow> valid_ts (deadline t ms)"
  by (auto simp: valid_ts_def deadline_def Let_def)

text \<open>
  C8. How long the three restarting sleeps take, whatever signals arrive and whatever the
  granularity of the clock: \<open>nanosleep\<close>, \<open>clock_nanosleep\<close> with a deadline and \<open>clock_nanosleep\<close> with
  an interval return 0 after at least \<open>ms\<close> milliseconds, after at most one call more than there are
  signals. The sleep with a deadline is late by at most one rounding of the clock however often it
  is restarted, the others by at most one rounding per call, as the notes beside the program say;
  where the clock counts nanoseconds all three are exact. The deadline is normalised and exactly
  \<open>ms\<close> milliseconds away.
\<close>

theorem sleep_durations:
  assumes "type \<in> {SleepType_nanosleep, SleepType_posixClock_abs, SleepType_posixClock_relative}"
    and "length (sigs (kern s)) < fuel"
  defines "calls \<equiv> if type = SleepType_posixClock_abs then 1 else Suc (length (sigs (kern s)))"
  shows "(\<exists>s'. run_state (sleep_by clk_os fuel ms type) s = (Some 0, s')
      \<and> clock (kern s) + ms * 1000000 \<le> clock (kern s')
      \<and> clock (kern s') \<le> clock (kern s) + ms * 1000000 + calls * (tick (kern s) - 1))
    \<and> (valid_ts t \<longrightarrow> valid_ts (deadline t ms) \<and> ns (deadline t ms) = ns t + int ms * 1000000)"
proof -
  let ?D = "clock (kern s) + ms * 1000000"
  have d: "nat (ns (deadline (ts_of n) ms)) = n + ms * 1000000" for n
    by (simp add: ns_deadline nat_add_distrib nat_mult_distrib)
  have r: "nat (ns (request ms)) = ms * 1000000" by (simp add: ns_request nat_mult_distrib)
  note b = round_up_bounds [where d = ?D and g = "tick (kern s)"]
  have c: "clock (kern s) \<le> round_up (tick (kern s)) ?D" using b(1) by linarith
  obtain s1 where s1: "run_state (clock_abs_loop clk_os fuel (deadline (ts_of (clock (kern s))) ms)) s = (Some 0, s1)"
      "?D \<le> clock (kern s1)" "clock (kern s1) \<le> round_up (tick (kern s)) ?D"
    using clock_abs_loop_time [OF assms(2), of "deadline (ts_of (clock (kern s))) ms"] c by (auto simp: d)
  have "\<exists>s'. run_state (sleep_by clk_os fuel ms type) s = (Some 0, s') \<and> ?D \<le> clock (kern s')
      \<and> clock (kern s') \<le> ?D + calls * (tick (kern s) - 1)"
  proof (cases "type = SleepType_posixClock_abs")
    case True
    have "clock (kern s1) \<le> ?D + (tick (kern s) - 1)" using s1(3) b(2) by linarith
    then show ?thesis using s1(1,2) True by (simp add: calls_def io_simps clk_calls)
  next
    case False
    then show ?thesis
      using assms(1) nanosleep_loop_time [OF assms(2), of "request ms"] clock_rel_loop_time [OF assms(2), of "request ms"]
      by (auto simp: calls_def in_time_def r)
  qed
  then show ?thesis by (simp add: deadline_valid ns_deadline)
qed

theorem sleep_durations_witness:
  "\<exists>s'. run_state (sleep_by clk_os 3 1100 SleepType_posixClock_abs)
        \<lparr>kern = \<lparr>clock = 950000000, tick = 4000000, sigs = [5, 7]\<rparr>, errno = 0, outs = []\<rparr> = (Some 0, s')
      \<and> 2050000000 \<le> clock (kern s') \<and> clock (kern s') \<le> 2053999999"
  using sleep_durations [of SleepType_posixClock_abs
      "\<lparr>kern = \<lparr>clock = 950000000, tick = 4000000, sigs = [5, 7]\<rparr>, errno = 0, outs = []\<rparr>" 3 1100]
  by simp

text \<open>
  The bound is met: with a clock of 4 ms and a signal after 1 ns, a \<open>nanosleep\<close> of 4 ms takes 1 ns
  longer than asked for, while the sleep with a deadline is exact.
\<close>

lemma restart_rounds_up:
  "clock (kern (snd (run_state (sleep_by clk_os (Suc (Suc n)) 4 SleepType_nanosleep)
      \<lparr>kern = \<lparr>clock = 0, tick = 4000000, sigs = [1]\<rparr>, errno = 0, outs = []\<rparr>))) = 4000001"
  "clock (kern (snd (run_state (sleep_by clk_os (Suc (Suc n)) 4 SleepType_posixClock_abs)
      \<lparr>kern = \<lparr>clock = 0, tick = 4000000, sigs = [1]\<rparr>, errno = 0, outs = []\<rparr>))) = 4000000"
  by (simp_all add: io_simps clk_calls pause_for_def pause_until_def request_def deadline_def round_up_def ns_def ts_of_def EINTR_def)

text \<open>
  The restarted \<open>sleep\<close> sleeps longer with every signal, as the notes beside the program say:
  it starts again with the full time, so signals that each interrupt it add the time already
  slept. It also drops the fraction of a second.
\<close>

lemma sleep_restarts_in_full:
  assumes "ms < 2 ^ 32" and "length (sigs (kern s)) < fuel"
    and "\<forall>x\<in>set (sigs (kern s)). x < ms div 1000 * 1000000000"
  shows "\<exists>s'. run_state (sleep_by clk_os fuel ms SleepType_sleep) s = (Some 0, s')
    \<and> clock (kern s') = clock (kern s) + sum_list (sigs (kern s)) + round_up (tick (kern s)) (ms div 1000 * 1000000000)"
proof -
  have "to_uint (ms div 1000) = ms div 1000" using assms(1) by (simp add: to_uint_def)
  then show ?thesis using sleep_loop_time [OF assms(2), of "ms div 1000"] assms(3) by simp
qed

end
