(* ===== verification/Calendar.thy ===== *)
theory Calendar
  imports C_Prelude
begin

text \<open>
  The calendar functions of the C library that \<open>time/unix/realTime/main.c\<close> uses: broken-down
  time, \<open>gmtime_r\<close>, \<open>localtime_r\<close> and \<open>mktime\<close>. A time is a number of seconds since 1970. The time
  zone is an argument of the functions: the distance of standard time and of daylight-saving time
  from UTC, and when the one or the other is in force. The result of \<open>gmtime\<close> is well formed,
  \<open>gmtime\<close> and \<open>timegm\<close> are inverse to each other, and \<open>mktime\<close> inverts \<open>localtime\<close>.
\<close>

section \<open>Broken-down time\<close>

record tm =
  tm_sec :: int
  tm_min :: int
  tm_hour :: int
  tm_mday :: int
  tm_mon :: int
  tm_year :: int
  tm_wday :: int
  tm_yday :: int
  tm_isdst :: int

definition leap :: "int \<Rightarrow> bool" where
  "leap y \<longleftrightarrow> y mod 4 = 0 \<and> (y mod 100 \<noteq> 0 \<or> y mod 400 = 0)"

definition mdays :: "bool \<Rightarrow> int list" where
  "mdays l = [31, if l then 29 else 28, 31, 30, 31, 30, 31, 31, 30, 31, 30, 31]"

text \<open>Days before the first of January of a year, counted from the year 1.\<close>

definition days_before_year :: "int \<Rightarrow> int" where
  "days_before_year y = 365 * (y - 1) + (y - 1) div 4 - (y - 1) div 100 + (y - 1) div 400"

definition EPOCH_DAY :: int where "EPOCH_DAY = 719162"

text \<open>The year of a day: cycles of 400, 100, 4 years and 1 year.\<close>

definition year_of_day :: "int \<Rightarrow> int" where
  "year_of_day d = (let
     a = d div 146097; d1 = d mod 146097;
     b = min 3 (d1 div 36524); d2 = d1 - b * 36524;
     c = d2 div 1461; d3 = d2 mod 1461;
     e = min 3 (d3 div 365)
   in 400 * a + 100 * b + 4 * c + e + 1)"

text \<open>The month and the day in it, both from 0.\<close>

fun split_month :: "int list \<Rightarrow> int \<Rightarrow> int \<times> int" where
  "split_month [] d = (0, d)"
| "split_month (l # ls) d = (if d < l then (0, d) else (case split_month ls (d - l) of (m, r) \<Rightarrow> (m + 1, r)))"

definition gmtime :: "int \<Rightarrow> tm" where
  "gmtime t = (let
     days = t div 86400; rest = t mod 86400; d = days + EPOCH_DAY; y = year_of_day d;
     yd = d - days_before_year y; (m, r) = split_month (mdays (leap y)) yd
   in \<lparr>tm_sec = rest mod 60, tm_min = rest div 60 mod 60, tm_hour = rest div 3600, tm_mday = r + 1, tm_mon = m,
       tm_year = y - 1900, tm_wday = (days + 4) mod 7, tm_yday = yd, tm_isdst = 0\<rparr>)"

text \<open>The year has to fit into an \<open>int\<close>.\<close>

definition gmtime_r :: "int \<Rightarrow> tm option" where
  "gmtime_r t = (let m = gmtime t in if - (2 ^ 31) \<le> tm_year m \<and> tm_year m < 2 ^ 31 then Some m else None)"

text \<open>A time zone, and its distance from UTC at a time.\<close>

record zone =
  z_std :: int
  z_dst :: int
  z_summer :: "int \<Rightarrow> bool"

definition off_at :: "zone \<Rightarrow> int \<Rightarrow> int" where
  "off_at z t = (if z_summer z t then z_dst z else z_std z)"

definition localtime :: "zone \<Rightarrow> int \<Rightarrow> tm" where
  "localtime z t = (gmtime (t + off_at z t))\<lparr>tm_isdst := (if z_summer z t then 1 else 0)\<rparr>"

definition localtime_r :: "zone \<Rightarrow> int \<Rightarrow> tm option" where
  "localtime_r z t = (if gmtime_r (t + off_at z t) = None then None else Some (localtime z t))"

text \<open>
  \<open>mktime\<close> reads year, month, day of the month and the time of day, whatever their range, and
  \<open>tm_isdst\<close>: the time is a standard time (0), a daylight-saving time (positive), or whichever is in
  force (negative). It rewrites the structure with the local time of its result, so that a standard
  time within the daylight-saving period becomes the other one.
\<close>

definition timegm :: "tm \<Rightarrow> int" where
  "timegm m = (let
     y = tm_year m + 1900 + tm_mon m div 12;
     d = days_before_year y + sum_list (take (nat (tm_mon m mod 12)) (mdays (leap y))) + tm_mday m - 1 - EPOCH_DAY
   in d * 86400 + tm_hour m * 3600 + tm_min m * 60 + tm_sec m)"

definition mktime :: "zone \<Rightarrow> tm \<Rightarrow> int \<times> tm" where
  "mktime z m = (let
     dst = (if tm_isdst m < 0 then z_summer z (timegm m - z_dst z) else 0 < tm_isdst m);
     t = timegm m - (if dst then z_dst z else z_std z)
   in (t, localtime z t))"

text \<open>What it is to be a broken-down time: ranges, and the two redundant fields agree.\<close>

definition valid_tm :: "tm \<Rightarrow> bool" where
  "valid_tm m \<longleftrightarrow> tm_sec m \<in> {0..<60} \<and> tm_min m \<in> {0..<60} \<and> tm_hour m \<in> {0..<24} \<and> tm_mon m \<in> {0..<12}
     \<and> tm_mday m \<in> {1..mdays (leap (tm_year m + 1900)) ! nat (tm_mon m)}
     \<and> tm_yday m = sum_list (take (nat (tm_mon m)) (mdays (leap (tm_year m + 1900)))) + tm_mday m - 1
     \<and> tm_wday m = (days_before_year (tm_year m + 1900) + tm_yday m - EPOCH_DAY + 4) mod 7"

section \<open>Years and months\<close>

lemma div_pred: "0 < n \<Longrightarrow> y div n = (y - 1) div n + (if y mod n = 0 then 1 else 0)" for y n :: int
proof -
  assume n: "0 < n"
  show ?thesis
  proof (cases "y mod n = 0")
    case True
    then obtain q where q: "y = n * q" by (auto simp: mod_eq_0_iff_dvd)
    have "(y - 1) div n = q - 1"
      by (rule int_div_pos_eq [of _ _ _ "n - 1"]) (use n q in \<open>auto simp: algebra_simps\<close>)
    with q n True show ?thesis by simp
  next
    case False
    define q r where "q = y div n" and "r = y mod n"
    have y: "y = n * q + r" by (simp add: q_def r_def)
    have "0 \<le> r" "r < n" "r \<noteq> 0" using n False by (auto simp: r_def)
    then have "(y - 1) div n = q" by (intro int_div_pos_eq [of _ _ _ "r - 1"]) (use y in auto)
    with False show ?thesis by (simp add: q_def)
  qed
qed

lemma days_before_year_Suc: "days_before_year (y + 1) = days_before_year y + (if leap y then 366 else 365)"
proof -
  have dvd: "y mod 400 = 0 \<Longrightarrow> y mod 100 = 0" "y mod 100 = 0 \<Longrightarrow> y mod 4 = 0"
    using dvd_trans [of 100 400 y] dvd_trans [of 4 100 y] by (simp_all add: mod_eq_0_iff_dvd)
  define p4 p100 p400 where "p4 = (y - 1) div 4" and "p100 = (y - 1) div 100" and "p400 = (y - 1) div 400"
  have "y div 4 = p4 + (if y mod 4 = 0 then 1 else 0)" "y div 100 = p100 + (if y mod 100 = 0 then 1 else 0)"
    "y div 400 = p400 + (if y mod 400 = 0 then 1 else 0)"
    unfolding p4_def p100_def p400_def by (rule div_pred; simp)+
  then have "days_before_year (y + 1) = 365 * y + (p4 + (if y mod 4 = 0 then 1 else 0))
      - (p100 + (if y mod 100 = 0 then 1 else 0)) + (p400 + (if y mod 400 = 0 then 1 else 0))"
    by (simp only: days_before_year_def add_diff_cancel_right')
  moreover have "days_before_year y = 365 * (y - 1) + p4 - p100 + p400"
    by (simp only: days_before_year_def p4_def p100_def p400_def)
  ultimately show ?thesis using dvd unfolding leap_def by (cases "y mod 400 = 0"; cases "y mod 100 = 0"; cases "y mod 4 = 0") simp_all
qed

lemma length_mdays [simp]: "length (mdays l) = 12"
  by (simp add: mdays_def)

lemma mdays_pos: "x \<in> set (mdays l) \<Longrightarrow> 0 < x"
  by (auto simp: mdays_def split: if_splits)

lemma sum_mdays: "sum_list (mdays l) = (if l then 366 else 365)"
  by (simp add: mdays_def)

text \<open>A year by its place in the cycles.\<close>

lemma cycle_year:
  assumes "y = 400 * a + 100 * b + 4 * c + e + 1" and "b \<in> {0..3}" "c \<in> {0..24}" "e \<in> {0..3}"
  shows "days_before_year y = 146097 * a + 36524 * b + 1461 * c + 365 * e"
    and "leap y \<longleftrightarrow> e = 3 \<and> (c \<noteq> 24 \<or> b = 3)"
proof -
  have "(y - 1) div 4 = 100 * a + 25 * b + c"
    by (rule int_div_pos_eq [of _ _ _ e]) (use assms in auto)
  moreover have "(y - 1) div 100 = 4 * a + b"
    by (rule int_div_pos_eq [of _ _ _ "4 * c + e"]) (use assms in auto)
  moreover have "(y - 1) div 400 = a"
    by (rule int_div_pos_eq [of _ _ _ "100 * b + 4 * c + e"]) (use assms in auto)
  ultimately show "days_before_year y = 146097 * a + 36524 * b + 1461 * c + 365 * e"
    using assms(1) by (simp add: days_before_year_def)
  consider "e < 3" | "e = 3" "c < 24" | "e = 3" "c = 24" using assms(3,4) by fastforce
  then show "leap y \<longleftrightarrow> e = 3 \<and> (c \<noteq> 24 \<or> b = 3)"
  proof cases
    case 1
    have "y mod 4 = e + 1" by (rule int_mod_pos_eq [of _ _ "100 * a + 25 * b + c"]) (use assms 1 in auto)
    with 1 assms(4) show ?thesis by (simp add: leap_def)
  next
    case 2
    have "y mod 4 = 0" by (rule int_mod_pos_eq [of _ _ "100 * a + 25 * b + c + 1"]) (use assms 2 in auto)
    moreover have "y mod 100 = 4 * c + 4" by (rule int_mod_pos_eq [of _ _ "4 * a + b"]) (use assms 2 in auto)
    ultimately show ?thesis using 2 assms(3) by (simp add: leap_def)
  next
    case 3
    have y: "y = 400 * a + 100 * (b + 1)" using assms(1) 3 by simp
    have "y mod 4 = 0" "y mod 100 = 0" unfolding y mod_eq_0_iff_dvd by (intro dvd_add dvd_mult2; simp)+
    moreover have "y mod 400 = (100 * (b + 1)) mod 400" using y by simp
    moreover have "b = 0 \<or> b = 1 \<or> b = 2 \<or> b = 3" using assms(2) by auto
    ultimately show ?thesis using 3 by (auto simp: leap_def)
  qed
qed

lemma year_of_day: "days_before_year (year_of_day d) \<le> d" "d < days_before_year (year_of_day d + 1)"
proof -
  define a d1 where "a = d div 146097" and "d1 = d mod 146097"
  define b d2 where "b = min 3 (d1 div 36524)" and "d2 = d1 - b * 36524"
  define c d3 where "c = d2 div 1461" and "d3 = d2 mod 1461"
  define e where "e = min 3 (d3 div 365)"
  have d: "d = 146097 * a + d1" "0 \<le> d1" "d1 < 146097" by (simp_all add: a_def d1_def)
  have b: "b \<in> {0..3}" "b * 36524 \<le> d1" "b < 3 \<Longrightarrow> d1 < (b + 1) * 36524"
    using d by (auto simp: b_def min_def)
  have d2: "0 \<le> d2" "b < 3 \<Longrightarrow> d2 < 36524" using b by (auto simp: d2_def)
  have "b = 3 \<Longrightarrow> d2 < 36525" using d(3) by (simp add: d2_def)
  with d2 b(1) have d2': "d2 < 36525" by fastforce
  have c: "d2 = 1461 * c + d3" "0 \<le> d3" "d3 < 1461" "c \<in> {0..24}" using d2 d2' by (auto simp: c_def d3_def)
  have e: "e \<in> {0..3}" "e * 365 \<le> d3" "e < 3 \<Longrightarrow> d3 < (e + 1) * 365"
    using c by (auto simp: e_def min_def)
  have y: "year_of_day d = 400 * a + 100 * b + 4 * c + e + 1"
    by (simp add: year_of_day_def Let_def a_def d1_def b_def d2_def c_def d3_def e_def)
  note cy = cycle_year [OF y b(1) c(4) e(1)]
  show "days_before_year (year_of_day d) \<le> d" using cy(1) d c e(2) d2_def by simp
  show "d < days_before_year (year_of_day d + 1)"
  proof (cases "leap (year_of_day d)")
    case True
    then have "d3 - e * 365 < 366" using cy(2) c(3) by simp
    then show ?thesis unfolding days_before_year_Suc cy(1) using True d(1) c(1) d2_def by simp
  next
    case False
    have "d3 - e * 365 < 365"
    proof (cases "e = 3")
      case True
      with False cy(2) b(1) have "c = 24" "b < 3" by auto
      with d2(2) c(1) have "d3 < 1460" by simp
      with True show ?thesis by simp
    next
      case False
      with e(1,3) show ?thesis by auto
    qed
    then show ?thesis unfolding days_before_year_Suc cy(1) using False d(1) c(1) d2_def by simp
  qed
qed

lemma split_month:
  assumes "0 \<le> d" and "d < sum_list ls" and "split_month ls d = (m, r)"
  shows "0 \<le> m \<and> m < int (length ls) \<and> d = sum_list (take (nat m) ls) + r \<and> 0 \<le> r \<and> r < ls ! nat m"
  using assms
proof (induction ls arbitrary: d m)
  case (Cons l ls)
  show ?case
  proof (cases "d < l")
    case False
    then obtain m' where m': "split_month ls (d - l) = (m', r)" "m = m' + 1"
      using Cons.prems(3) by (auto split: prod.splits)
    have "0 \<le> d - l" "d - l < sum_list ls" using False Cons.prems(2) by auto
    from Cons.IH [OF this m'(1)] m'(2) show ?thesis by (auto simp: nat_add_distrib)
  qed (use Cons.prems in auto)
qed simp

section \<open>The conversions are inverse\<close>

text \<open>The parts of \<open>gmtime\<close>.\<close>

lemma gmtime_parts:
  fixes t :: int
  defines "d \<equiv> t div 86400 + EPOCH_DAY"
  defines "y \<equiv> year_of_day d"
  defines "yd \<equiv> d - days_before_year y"
  shows "tm_year (gmtime t) = y - 1900" "tm_yday (gmtime t) = yd" "tm_wday (gmtime t) = (t div 86400 + 4) mod 7"
    "tm_sec (gmtime t) = t mod 86400 mod 60" "tm_min (gmtime t) = t mod 86400 div 60 mod 60"
    "tm_hour (gmtime t) = t mod 86400 div 3600"
    "tm_mon (gmtime t) \<in> {0..<12}" "tm_mday (gmtime t) \<in> {1..mdays (leap y) ! nat (tm_mon (gmtime t))}"
    "yd = sum_list (take (nat (tm_mon (gmtime t))) (mdays (leap y))) + tm_mday (gmtime t) - 1"
proof -
  obtain m r where s: "split_month (mdays (leap y)) yd = (m, r)" by force
  have yd: "0 \<le> yd" "yd < sum_list (mdays (leap y))"
    using year_of_day [of d] days_before_year_Suc [of y] by (simp_all add: yd_def y_def sum_mdays)
  have g: "gmtime t = \<lparr>tm_sec = t mod 86400 mod 60, tm_min = t mod 86400 div 60 mod 60, tm_hour = t mod 86400 div 3600,
      tm_mday = r + 1, tm_mon = m, tm_year = y - 1900, tm_wday = (t div 86400 + 4) mod 7, tm_yday = yd, tm_isdst = 0\<rparr>"
    using s by (simp add: gmtime_def Let_def d_def y_def yd_def)
  from split_month [OF yd s]
  show "tm_year (gmtime t) = y - 1900" "tm_yday (gmtime t) = yd" "tm_wday (gmtime t) = (t div 86400 + 4) mod 7"
    "tm_sec (gmtime t) = t mod 86400 mod 60" "tm_min (gmtime t) = t mod 86400 div 60 mod 60"
    "tm_hour (gmtime t) = t mod 86400 div 3600"
    "tm_mon (gmtime t) \<in> {0..<12}" "tm_mday (gmtime t) \<in> {1..mdays (leap y) ! nat (tm_mon (gmtime t))}"
    "yd = sum_list (take (nat (tm_mon (gmtime t))) (mdays (leap y))) + tm_mday (gmtime t) - 1"
    unfolding g by simp_all
qed

lemma time_of_day: "0 \<le> r \<Longrightarrow> r < 86400 \<Longrightarrow>
    r mod 60 \<in> {0..<60} \<and> r div 60 mod 60 \<in> {0..<60} \<and> r div 3600 \<in> {0..<24}
    \<and> r div 3600 * 3600 + r div 60 mod 60 * 60 + r mod 60 = r" for r :: int
proof -
  assume r: "0 \<le> r" "r < 86400"
  define q s h mi where "q = r div 60" and "s = r mod 60" and "h = q div 60" and "mi = q mod 60"
  have "r div 3600 = h" by (simp add: h_def q_def zdiv_zmult2_eq [symmetric])
  moreover have "q = 60 * h + mi" "r = 60 * q + s" by (simp_all add: q_def s_def h_def mi_def)
  moreover have "s \<in> {0..<60}" "mi \<in> {0..<60}" by (simp_all add: s_def mi_def)
  moreover have "0 \<le> r div 3600" "r div 3600 < 24" using r by simp_all
  ultimately show ?thesis unfolding q_def [symmetric] s_def [symmetric] mi_def [symmetric] by auto
qed

lemma gmtime_day:
  "days_before_year (tm_year (gmtime t) + 1900) + tm_yday (gmtime t) - EPOCH_DAY = t div 86400"
  by (simp add: gmtime_parts(1,2))

lemma gmtime_yday:
  "tm_yday (gmtime t) = sum_list (take (nat (tm_mon (gmtime t))) (mdays (leap (tm_year (gmtime t) + 1900))))
     + tm_mday (gmtime t) - 1"
  using gmtime_parts(9) [of t] by (simp add: gmtime_parts(1,2))

lemma gmtime_valid: "valid_tm (gmtime t)"
proof -
  have r: "0 \<le> t mod 86400" "t mod 86400 < 86400" by simp_all
  have tod: "tm_sec (gmtime t) \<in> {0..<60}" "tm_min (gmtime t) \<in> {0..<60}" "tm_hour (gmtime t) \<in> {0..<24}"
    using time_of_day [OF r] unfolding gmtime_parts(4-6) by blast+
  have "tm_mday (gmtime t) \<in> {1..mdays (leap (tm_year (gmtime t) + 1900)) ! nat (tm_mon (gmtime t))}"
    using gmtime_parts(8) [of t] by (simp add: gmtime_parts(1))
  with tod gmtime_parts(7) [of t] gmtime_yday [of t] show ?thesis
    unfolding valid_tm_def gmtime_day by (simp only: gmtime_parts(3) simp_thms)
qed

lemma timegm_gmtime: "timegm (gmtime t) = t"
proof -
  have r: "0 \<le> t mod 86400" "t mod 86400 < 86400" by simp_all
  have mon: "tm_mon (gmtime t) div 12 = 0" "tm_mon (gmtime t) mod 12 = tm_mon (gmtime t)"
    using gmtime_parts(7) [of t] by simp_all
  let ?y = "tm_year (gmtime t) + 1900"
  have "days_before_year ?y + sum_list (take (nat (tm_mon (gmtime t))) (mdays (leap ?y))) + tm_mday (gmtime t) - 1 - EPOCH_DAY
      = t div 86400"
    using gmtime_yday [of t] gmtime_day [of t] by linarith
  moreover have "tm_hour (gmtime t) * 3600 + tm_min (gmtime t) * 60 + tm_sec (gmtime t) = t mod 86400"
    using time_of_day [OF r] unfolding gmtime_parts(4-6) by blast
  moreover have "t div 86400 * 86400 + t mod 86400 = t" by simp
  moreover have "A * 86400 + B + C + S = t" if "A = q" "B + C + S = p" "q * 86400 + p = t"
    for A B C S p q :: int using that by simp
  ultimately show ?thesis unfolding timegm_def Let_def mon add_0_right by blast
qed

text \<open>
  A valid broken-down time is determined by the time it stands for: day of the year and time of
  day are unique in their ranges.
\<close>

lemma days_before_year_mono: "a \<le> b \<Longrightarrow> days_before_year a \<le> days_before_year b"
proof (induction "nat (b - a)" arbitrary: b)
  case (Suc n)
  then have "days_before_year a \<le> days_before_year (b - 1)" by simp
  also have "\<dots> \<le> days_before_year b" using days_before_year_Suc [of "b - 1"] by (simp split: if_splits)
  finally show ?case .
qed simp

lemma year_of_day_unique:
  assumes "days_before_year y \<le> d" and "d < days_before_year (y + 1)"
  shows "year_of_day d = y"
proof -
  show ?thesis
  proof (rule ccontr)
    assume "year_of_day d \<noteq> y"
    then consider "year_of_day d + 1 \<le> y" | "y + 1 \<le> year_of_day d" by linarith
    then show False using days_before_year_mono year_of_day [of d] assms by cases fastforce+
  qed
qed

lemma split_month_unique:
  "(\<And>l. l \<in> set ls \<Longrightarrow> 0 < l) \<Longrightarrow> n < length ls \<Longrightarrow> 0 \<le> r \<Longrightarrow> r < ls ! n \<Longrightarrow> split_month ls (sum_list (take n ls) + r) = (int n, r)"
proof (induction ls arbitrary: n)
  case (Cons l ls)
  show ?case
  proof (cases n)
    case 0
    with Cons.prems show ?thesis by simp
  next
    case (Suc n')
    have "0 \<le> sum_list (take n' ls)" using Cons.prems(1) by (intro sum_list_nonneg) (auto dest: in_set_takeD less_imp_le)
    with Suc Cons show ?thesis by simp
  qed
qed simp

lemma gmtime_timegm:
  assumes "valid_tm m"
  shows "gmtime (timegm m) = m\<lparr>tm_isdst := 0\<rparr>"
proof -
  let ?y = "tm_year m + 1900" and ?t = "timegm m"
  define d where "d = days_before_year ?y + tm_yday m"
  define r where "r = tm_hour m * 3600 + tm_min m * 60 + tm_sec m"
  have v: "tm_sec m \<in> {0..<60}" "tm_min m \<in> {0..<60}" "tm_hour m \<in> {0..<24}" "tm_mon m \<in> {0..<12}"
      "tm_mday m \<in> {1..mdays (leap ?y) ! nat (tm_mon m)}"
      "tm_yday m = sum_list (take (nat (tm_mon m)) (mdays (leap ?y))) + tm_mday m - 1"
      "tm_wday m = (days_before_year ?y + tm_yday m - EPOCH_DAY + 4) mod 7"
    using assms by (simp_all add: valid_tm_def)
  have mon: "tm_mon m div 12 = 0" "tm_mon m mod 12 = tm_mon m"
    using v(4) by simp_all
  have t: "?t = 86400 * (d - EPOCH_DAY) + r" unfolding timegm_def Let_def mon d_def r_def using v(6) by simp
  have r: "0 \<le> r" "r < 86400" using v(1-3) by (auto simp: r_def)
  have dm: "?t div 86400 = d - EPOCH_DAY" "?t mod 86400 = r"
    using int_div_pos_eq [OF t r] int_mod_pos_eq [OF t r] by simp_all
  have tod: "r mod 60 = tm_sec m" "r div 60 mod 60 = tm_min m" "r div 3600 = tm_hour m"
  proof -
    have 1: "r = 60 * (tm_hour m * 60 + tm_min m) + tm_sec m" "r = 3600 * tm_hour m + (tm_min m * 60 + tm_sec m)"
      by (simp_all add: r_def)
    show "r mod 60 = tm_sec m" using int_mod_pos_eq [OF 1(1)] v(1) by simp
    have "r div 60 = tm_hour m * 60 + tm_min m" using int_div_pos_eq [OF 1(1)] v(1) by simp
    then show "r div 60 mod 60 = tm_min m" using v(2) by simp
    show "r div 3600 = tm_hour m" using int_div_pos_eq [OF 1(2)] v(1,2) by simp
  qed
  have n: "nat (tm_mon m) < length (mdays (leap ?y))" using v(4) by auto
  have sp: "split_month (mdays (leap ?y)) (tm_yday m) = (tm_mon m, tm_mday m - 1)"
  proof -
    have "tm_yday m = sum_list (take (nat (tm_mon m)) (mdays (leap ?y))) + (tm_mday m - 1)" using v(6) by simp
    then show ?thesis using split_month_unique [of "mdays (leap ?y)", OF mdays_pos n, of _ "tm_mday m - 1"] v(4,5) by simp
  qed
  have bounds: "0 \<le> tm_yday m" "tm_yday m < sum_list (mdays (leap ?y))"
  proof -
    have split: "sum_list (mdays (leap ?y)) = sum_list (take (nat (tm_mon m)) (mdays (leap ?y)))
        + mdays (leap ?y) ! nat (tm_mon m) + sum_list (drop (Suc (nat (tm_mon m))) (mdays (leap ?y)))"
      using id_take_nth_drop [OF n] by (metis add.assoc sum_list.Cons sum_list_append)
    have "0 \<le> sum_list (take (nat (tm_mon m)) (mdays (leap ?y)))" "0 \<le> sum_list (drop (Suc (nat (tm_mon m))) (mdays (leap ?y)))"
      by (rule sum_list_nonneg; auto dest!: in_set_takeD in_set_dropD mdays_pos)+
    then show "0 \<le> tm_yday m" "tm_yday m < sum_list (mdays (leap ?y))" using split v(5,6) by auto
  qed
  moreover have "days_before_year (?y + 1) = days_before_year ?y + sum_list (mdays (leap ?y))"
    by (simp only: days_before_year_Suc sum_mdays)
  moreover note d_def
  ultimately have y: "year_of_day d = ?y" by (intro year_of_day_unique) linarith+
  have "d - days_before_year ?y = tm_yday m" by (simp add: d_def)
  moreover have "(d - EPOCH_DAY + 4) mod 7 = tm_wday m" using v(7) by (simp add: d_def)
  ultimately show ?thesis using sp tod unfolding gmtime_def Let_def dm by (simp add: y)
qed

text \<open>The years 1970 to 9999.\<close>

lemma gmtime_year:
  assumes "0 \<le> t" and "t < 253402300800"
  shows "1970 \<le> tm_year (gmtime t) + 1900" "tm_year (gmtime t) + 1900 \<le> 9999"
proof -
  define d where "d = t div 86400 + EPOCH_DAY"
  have "0 \<le> t div 86400" "t div 86400 < 2932897" using assms by simp_all
  then have d: "days_before_year 1970 \<le> d" "d < days_before_year 10000"
    by (simp_all add: d_def EPOCH_DAY_def days_before_year_def)
  have y: "tm_year (gmtime t) + 1900 = year_of_day d" by (simp add: gmtime_parts(1) d_def)
  show "1970 \<le> tm_year (gmtime t) + 1900"
    using days_before_year_mono [of "year_of_day d + 1" 1970] year_of_day(2) [of d] d(1) unfolding y by linarith
  show "tm_year (gmtime t) + 1900 \<le> 9999"
    using days_before_year_mono [of 10000 "year_of_day d"] year_of_day(1) [of d] d(2) unfolding y by linarith
qed

lemma gmtime_r_Some: "0 \<le> t \<Longrightarrow> t < 253402300800 \<Longrightarrow> gmtime_r t = Some (gmtime t)"
  using gmtime_year [of t] by (simp add: gmtime_r_def Let_def)

lemma gmtime_isdst [simp]: "tm_isdst (gmtime t) = 0"
  by (simp add: gmtime_def Let_def split: prod.split)

lemma isdst_irrelevant [simp]: "valid_tm (m\<lparr>tm_isdst := x\<rparr>) \<longleftrightarrow> valid_tm m" "timegm (m\<lparr>tm_isdst := x\<rparr>) = timegm m"
  by (simp_all add: valid_tm_def timegm_def)

text \<open>\<open>mktime\<close> inverts \<open>localtime\<close>; a UTC time it takes for a standard time.\<close>

lemma mktime_localtime: "mktime z (localtime z t) = (t, localtime z t)"
  by (simp add: mktime_def localtime_def off_at_def timegm_gmtime Let_def)

lemma mktime_gmtime: "mktime z (gmtime t) = (t - z_std z, localtime z (t - z_std z))"
  by (simp add: mktime_def timegm_gmtime Let_def)

end
