(* ===== verification/Date_Format.thy ===== *)
theory Date_Format
  imports Calendar
begin

text \<open>
  \<open>strftime\<close>, \<open>asctime_r\<close> and \<open>strptime\<close> of the C library in the C locale, for the conversions
  that occur in the formats of \<open>time/unix/realTime/main.c\<close>. A date in the format of HTTP that is
  printed and parsed again gives the same broken-down time.
\<close>

section \<open>Formats\<close>

definition day_names :: "(string \<times> string) list" where
  "day_names = [(''Sunday'', ''Sun''), (''Monday'', ''Mon''), (''Tuesday'', ''Tue''), (''Wednesday'', ''Wed''),
     (''Thursday'', ''Thu''), (''Friday'', ''Fri''), (''Saturday'', ''Sat'')]"

definition month_names :: "(string \<times> string) list" where
  "month_names = [(''January'', ''Jan''), (''February'', ''Feb''), (''March'', ''Mar''), (''April'', ''Apr''),
     (''May'', ''May''), (''June'', ''Jun''), (''July'', ''Jul''), (''August'', ''Aug''), (''September'', ''Sep''),
     (''October'', ''Oct''), (''November'', ''Nov''), (''December'', ''Dec'')]"

definition abbr :: "(string \<times> string) list \<Rightarrow> int \<Rightarrow> string" where
  "abbr names i = (if 0 \<le> i \<and> i < int (length names) then snd (names ! nat i) else ''?'')"

definition digit_char :: "nat \<Rightarrow> char" where
  "digit_char n = char_of (48 + n)"

fun digits :: "nat \<Rightarrow> string" where
  "digits n = (if n < 10 then [digit_char n] else digits (n div 10) @ [digit_char (n mod 10)])"

declare digits.simps [simp del]

text \<open>Decimal numbers with at least \<open>w\<close> places, filled up with \<open>c\<close>.\<close>

definition pad :: "char \<Rightarrow> nat \<Rightarrow> string \<Rightarrow> string" where
  "pad c w s = replicate (w - length s) c @ s"

definition num0 :: "nat \<Rightarrow> int \<Rightarrow> string" where
  "num0 w n = (if n < 0 then CHR ''-'' # pad (CHR ''0'') (w - 1) (digits (nat (- n))) else pad (CHR ''0'') w (digits (nat n)))"

definition num_sp :: "nat \<Rightarrow> int \<Rightarrow> string" where
  "num_sp w n = pad (CHR '' '') w (if n < 0 then CHR ''-'' # digits (nat (- n)) else digits (nat n))"

text \<open>\<open>strftime\<close>; a conversion the program does not use is left as it is.\<close>

definition hms :: "tm \<Rightarrow> string" where
  "hms m = num0 2 (tm_hour m) @ '':'' @ num0 2 (tm_min m) @ '':'' @ num0 2 (tm_sec m)"

definition conv_out :: "char \<Rightarrow> tm \<Rightarrow> string" where
  "conv_out c m =
     (if c = CHR ''a'' then abbr day_names (tm_wday m)
      else if c = CHR ''b'' then abbr month_names (tm_mon m)
      else if c = CHR ''d'' then num0 2 (tm_mday m)
      else if c = CHR ''Y'' then num0 0 (tm_year m + 1900)
      else if c = CHR ''H'' then num0 2 (tm_hour m)
      else if c = CHR ''M'' then num0 2 (tm_min m)
      else if c = CHR ''S'' then num0 2 (tm_sec m)
      else if c = CHR ''u'' then num0 0 ((tm_wday m - 1 + 7) mod 7 + 1)
      else if c = CHR ''F'' then num0 0 (tm_year m + 1900) @ ''-'' @ num0 2 (tm_mon m + 1) @ ''-'' @ num0 2 (tm_mday m)
      else if c = CHR ''T'' then hms m
      else [CHR ''%'', c])"

fun strftime_str :: "string \<Rightarrow> tm \<Rightarrow> string" where
  "strftime_str [] m = []"
| "strftime_str [c] m = [c]"
| "strftime_str (c # d # f) m = (if c = CHR ''%'' then conv_out d m @ strftime_str f m else c # strftime_str (d # f) m)"

text \<open>\<open>strftime\<close> with the size of the buffer: \<open>None\<close> when it returns 0.\<close>

definition strftime :: "nat \<Rightarrow> string \<Rightarrow> tm \<Rightarrow> string option" where
  "strftime sz f m = (let s = strftime_str f m in if s \<noteq> [] \<and> length s < sz then Some s else None)"

text \<open>\<open>asctime_r\<close>: at most 26 bytes with the null byte.\<close>

definition asctime_r :: "tm \<Rightarrow> string option" where
  "asctime_r m = (let s = abbr day_names (tm_wday m) @ '' '' @ abbr month_names (tm_mon m) @ num_sp 3 (tm_mday m)
       @ '' '' @ hms m @ '' '' @ num0 0 (tm_year m + 1900) @ [NL]
     in if length s < 26 then Some s else None)"

definition ctime_r :: "zone \<Rightarrow> int \<Rightarrow> string option" where
  "ctime_r z t = (case localtime_r z t of None \<Rightarrow> None | Some m \<Rightarrow> asctime_r m)"

text \<open>\<open>strptime\<close>: names are matched without regard to case, the long one first.\<close>

definition to_lower :: "char \<Rightarrow> char" where
  "to_lower c = (let n = of_char c :: nat in if 65 \<le> n \<and> n \<le> 90 then char_of (n + 32) else c)"

fun ci_prefix :: "string \<Rightarrow> string \<Rightarrow> string option" where
  "ci_prefix [] s = Some s"
| "ci_prefix (p # ps) [] = None"
| "ci_prefix (p # ps) (c # s) = (if to_lower p = to_lower c then ci_prefix ps s else None)"

fun find_name :: "(string \<times> string) list \<Rightarrow> int \<Rightarrow> string \<Rightarrow> (int \<times> string) option" where
  "find_name [] i s = None"
| "find_name ((full, ab) # ns) i s = (case ci_prefix full s of
      Some r \<Rightarrow> Some (i, r)
    | None \<Rightarrow> (case ci_prefix ab s of Some r \<Rightarrow> Some (i, r) | None \<Rightarrow> find_name ns (i + 1) s))"

text \<open>At most \<open>n\<close> digits, as long as the number can stay below \<open>hi\<close>.\<close>

fun num_run :: "nat \<Rightarrow> int \<Rightarrow> int \<Rightarrow> string \<Rightarrow> int \<times> string" where
  "num_run 0 hi v s = (v, s)"
| "num_run (Suc n) hi v [] = (v, [])"
| "num_run (Suc n) hi v (c # s) = (case digit c of
      Some d \<Rightarrow> if v * 10 \<le> hi then num_run n hi (v * 10 + d) s else (v, c # s)
    | None \<Rightarrow> (v, c # s))"

definition get_number :: "int \<Rightarrow> int \<Rightarrow> nat \<Rightarrow> string \<Rightarrow> (int \<times> string) option" where
  "get_number lo hi n s = (case dropWhile (\<lambda>c. c = CHR '' '') s of
      [] \<Rightarrow> None
    | c # cs \<Rightarrow> if digit c = None then None else (case num_run n hi 0 (c # cs) of
        (v, r) \<Rightarrow> if lo \<le> v \<and> v \<le> hi then Some (v, r) else None))"

definition conv_in :: "char \<Rightarrow> string \<Rightarrow> tm \<Rightarrow> (string \<times> tm) option" where
  "conv_in c s m =
     (if c = CHR ''a'' then map_option (\<lambda>(i, r). (r, m\<lparr>tm_wday := i\<rparr>)) (find_name day_names 0 s)
      else if c = CHR ''b'' then map_option (\<lambda>(i, r). (r, m\<lparr>tm_mon := i\<rparr>)) (find_name month_names 0 s)
      else if c = CHR ''d'' then map_option (\<lambda>(v, r). (r, m\<lparr>tm_mday := v\<rparr>)) (get_number 1 31 2 s)
      else if c = CHR ''Y'' then map_option (\<lambda>(v, r). (r, m\<lparr>tm_year := v - 1900\<rparr>)) (get_number 0 9999 4 s)
      else if c = CHR ''H'' then map_option (\<lambda>(v, r). (r, m\<lparr>tm_hour := v\<rparr>)) (get_number 0 23 2 s)
      else if c = CHR ''M'' then map_option (\<lambda>(v, r). (r, m\<lparr>tm_min := v\<rparr>)) (get_number 0 59 2 s)
      else if c = CHR ''S'' then map_option (\<lambda>(v, r). (r, m\<lparr>tm_sec := v\<rparr>)) (get_number 0 61 2 s)
      else None)"

definition is_space :: "char \<Rightarrow> bool" where
  "is_space c \<longleftrightarrow> c \<in> {CHR '' '', TAB, NL, CHR 0x0B, CHR 0x0C, CHR 0x0D}"

text \<open>The text that is left, or \<open>None\<close> where it does not match, and the structure so far.\<close>

fun strptime_scan :: "string \<Rightarrow> string \<Rightarrow> tm \<Rightarrow> string option \<times> tm" where
  "strptime_scan [] s m = (Some s, m)"
| "strptime_scan [c] s m =
     (if is_space c then (Some (dropWhile is_space s), m)
      else case s of [] \<Rightarrow> (None, m) | x # xs \<Rightarrow> if x = c \<and> c \<noteq> CHR ''%'' then (Some xs, m) else (None, m))"
| "strptime_scan (c # d # f) s m =
     (if is_space c then strptime_scan (d # f) (dropWhile is_space s) m
      else if c = CHR ''%'' then (case conv_in d s m of None \<Rightarrow> (None, m) | Some (r, m') \<Rightarrow> strptime_scan f r m')
      else (case s of [] \<Rightarrow> (None, m) | x # xs \<Rightarrow> if x = c then strptime_scan (d # f) xs m else (None, m)))"

text \<open>At the end the day of the year is computed from the date.\<close>

definition strptime :: "string \<Rightarrow> string \<Rightarrow> tm \<Rightarrow> string option \<times> tm" where
  "strptime f s m = (case strptime_scan f s m of
      (None, m') \<Rightarrow> (None, m')
    | (Some r, m') \<Rightarrow> (Some r, m'\<lparr>tm_yday :=
        sum_list (take (nat (tm_mon m')) (mdays (leap (tm_year m' + 1900)))) + tm_mday m' - 1\<rparr>))"

definition HTTP_DATE :: string where
  "HTTP_DATE = ''%a, %d %b %Y %H:%M:%S GMT''"

section \<open>Printing and parsing are inverse\<close>

lemma digit_digit_char: "n < 10 \<Longrightarrow> digit (digit_char n) = Some (int n)"
  by (simp add: digit_def digit_char_def)

lemma digit_not_space: "n < 10 \<Longrightarrow> digit_char n \<noteq> CHR '' ''"
  using digit_digit_char [of n] by (auto simp: digit_def)

lemma digit_char_0: "digit_char 0 = CHR ''0''"
  by code_simp

lemma num0_2: "n < 100 \<Longrightarrow> num0 2 (int n) = [digit_char (n div 10), digit_char (n mod 10)]"
proof (cases "n < 10")
  case True
  then have "digits n = [digit_char n]" by (simp add: digits.simps)
  with True show ?thesis by (simp add: num0_def pad_def digit_char_0)
next
  case False
  assume "n < 100"
  then have "n div 10 < 10" by simp
  with False have "digits n = [digit_char (n div 10), digit_char (n mod 10)]"
    by (simp add: digits.simps [of n] digits.simps [of "n div 10"])
  then show ?thesis by (simp add: num0_def pad_def)
qed

lemma get_number_2:
  assumes "0 \<le> v" "v < 100" "lo \<le> v" "v \<le> hi"
  shows "get_number lo hi 2 (num0 2 v @ s) = Some (v, s)"
proof -
  define n where "n = nat v"
  have v: "v = int n" "n < 100" using assms(1,2) by (simp_all add: n_def)
  let ?a = "n div 10" and ?b = "n mod 10"
  have "n = ?a * 10 + ?b" by simp
  then have ab: "?a < 10" "?b < 10" "v = int ?a * 10 + int ?b" using v by (simp, simp, metis of_nat_add of_nat_mult of_nat_numeral)
  have "num_run 2 hi 0 (digit_char ?a # digit_char ?b # s) = (v, s)"
    using ab assms(4) digit_digit_char [OF ab(1)] digit_digit_char [OF ab(2)] by (simp add: numeral_2_eq_2)
  then show ?thesis
    using num0_2 [OF v(2)] v(1) digit_digit_char [OF ab(1)] digit_not_space [OF ab(1)] assms(3,4)
    by (simp add: get_number_def)
qed

lemma num0_year:
  assumes "1000 \<le> n" "n < 10000"
  shows "num0 0 (int n) = [digit_char (n div 1000), digit_char (n div 100 mod 10), digit_char (n div 10 mod 10), digit_char (n mod 10)]"
proof -
  have "n div 10 div 10 = n div 100" "n div 10 div 10 div 10 = n div 1000" by (simp_all add: div_mult2_eq [symmetric])
  moreover have "\<not> n < 10" "\<not> n div 10 < 10" "\<not> n div 100 < 10" "n div 1000 < 10" using assms by simp_all
  ultimately have "digits n = [digit_char (n div 1000), digit_char (n div 100 mod 10), digit_char (n div 10 mod 10), digit_char (n mod 10)]"
    by (simp add: digits.simps [of n] digits.simps [of "n div 10"] digits.simps [of "n div 100"] digits.simps [of "n div 1000"])
  then show ?thesis by (simp add: num0_def pad_def)
qed

lemma get_number_year:
  assumes "1000 \<le> v" "v \<le> 9999"
  shows "get_number 0 9999 4 (num0 0 v @ s) = Some (v, s)"
proof -
  define n where "n = nat v"
  have v: "v = int n" "1000 \<le> n" "n < 10000" using assms by (simp_all add: n_def)
  define a b c d where "a = n div 1000" and "b = n div 100 mod 10" and "c = n div 10 mod 10" and "d = n mod 10"
  have "n div 100 = n div 10 div 10" "n div 1000 = n div 100 div 10" by (simp_all add: div_mult2_eq [symmetric])
  then have "n = 10 * (n div 10) + d" "n div 10 = 10 * (n div 100) + c" "n div 100 = 10 * a + b"
    by (simp_all add: a_def b_def c_def d_def)
  then have n: "n = ((a * 10 + b) * 10 + c) * 10 + d" by simp
  have l: "a < 10" "b < 10" "c < 10" "d < 10" using v(3) by (simp_all add: a_def b_def c_def d_def)
  have 4: "num_run 4 hi w s = num_run (Suc (Suc (Suc (Suc 0)))) hi w s" for hi w s by (simp add: numeral_eq_Suc)
  have "num_run 4 9999 0 (digit_char a # digit_char b # digit_char c # digit_char d # s) = (v, s)"
    unfolding 4 using v n l by (simp add: digit_digit_char)
  moreover have "num0 0 v = [digit_char a, digit_char b, digit_char c, digit_char d]"
    unfolding v(1) a_def b_def c_def d_def by (rule num0_year [OF v(2,3)])
  ultimately show ?thesis using digit_digit_char [OF l(1)] digit_not_space [OF l(1)] assms
    by (simp add: get_number_def)
qed

lemma range_cases:
  "i \<in> {0..<7} \<Longrightarrow> i = 0 \<or> i = 1 \<or> i = 2 \<or> i = 3 \<or> i = 4 \<or> i = 5 \<or> i = (6 :: int)"
  "i \<in> {0..<12} \<Longrightarrow> i = 0 \<or> i = 1 \<or> i = 2 \<or> i = 3 \<or> i = 4 \<or> i = 5 \<or> i = 6 \<or> i = 7 \<or> i = 8 \<or> i = 9 \<or> i = 10 \<or> i = (11 :: int)"
  unfolding atLeastLessThan_iff by presburger+

lemma find_day: "i \<in> {0..<7} \<Longrightarrow> find_name day_names 0 (abbr day_names i @ CHR '','' # s) = Some (i, CHR '','' # s)"
  by (drule range_cases(1)) (auto simp: abbr_def day_names_def to_lower_def)

lemma find_month: "i \<in> {0..<12} \<Longrightarrow> find_name month_names 0 (abbr month_names i @ CHR '' '' # s) = Some (i, CHR '' '' # s)"
  by (drule range_cases(2)) (auto simp: abbr_def month_names_def to_lower_def)

text \<open>The blanks of the format skip nothing of what follows.\<close>

lemma digit_is_no_space: "n < 10 \<Longrightarrow> \<not> is_space (digit_char n)"
  using digit_digit_char [of n] by (auto simp: is_space_def digit_def)

lemma skip_num0_2: "0 \<le> v \<Longrightarrow> v < 100 \<Longrightarrow> dropWhile is_space (num0 2 v @ s) = num0 2 v @ s"
  using num0_2 [of "nat v"] digit_is_no_space [of "nat v div 10"] by simp

lemma skip_year: "1000 \<le> v \<Longrightarrow> v \<le> 9999 \<Longrightarrow> dropWhile is_space (num0 0 v @ s) = num0 0 v @ s"
  using num0_year [of "nat v"] digit_is_no_space [of "nat v div 1000"] by simp

lemma skip_month: "i \<in> {0..<12} \<Longrightarrow> dropWhile is_space (abbr month_names i @ s) = abbr month_names i @ s"
  by (drule range_cases(2)) (auto simp: abbr_def month_names_def is_space_def)

lemma length_day: "i \<in> {0..<7} \<Longrightarrow> length (abbr day_names i) = 3"
  by (drule range_cases(1)) (auto simp: abbr_def day_names_def)

lemma length_month: "i \<in> {0..<12} \<Longrightarrow> length (abbr month_names i) = 3"
  by (drule range_cases(2)) (auto simp: abbr_def month_names_def)

lemma length_num0_2: "0 \<le> x \<Longrightarrow> x < 100 \<Longrightarrow> length (num0 2 x) = 2"
  using num0_2 [of "nat x"] by simp

lemma length_year: "1000 \<le> x \<Longrightarrow> x \<le> 9999 \<Longrightarrow> length (num0 0 x) = 4"
  using num0_year [of "nat x"] by simp

lemma mdays_le: "n < 12 \<Longrightarrow> mdays l ! n \<le> 31"
  using nth_mem [of n "mdays l"] by (auto simp: mdays_def split: if_splits)

lemma valid_ranges:
  assumes "valid_tm m"
  shows "tm_wday m \<in> {0..<7}" "tm_mon m \<in> {0..<12}" "1 \<le> tm_mday m" "tm_mday m \<le> 31"
    "0 \<le> tm_hour m" "tm_hour m \<le> 23" "0 \<le> tm_min m" "tm_min m \<le> 59" "0 \<le> tm_sec m" "tm_sec m \<le> 59"
    "tm_yday m = sum_list (take (nat (tm_mon m)) (mdays (leap (tm_year m + 1900)))) + tm_mday m - 1"
proof -
  have "nat (tm_mon m) < 12" using assms by (auto simp: valid_tm_def)
  from mdays_le [OF this, of "leap (tm_year m + 1900)"] assms show "tm_mday m \<le> 31" by (auto simp: valid_tm_def)
qed (use assms in \<open>auto simp: valid_tm_def\<close>)

lemma http_date_str:
  "strftime_str HTTP_DATE m = abbr day_names (tm_wday m) @ CHR '','' # CHR '' '' # num0 2 (tm_mday m)
     @ CHR '' '' # abbr month_names (tm_mon m) @ CHR '' '' # num0 0 (tm_year m + 1900) @ CHR '' '' # num0 2 (tm_hour m)
     @ CHR '':'' # num0 2 (tm_min m) @ CHR '':'' # num0 2 (tm_sec m) @ '' GMT''"
  by (simp add: HTTP_DATE_def conv_out_def)

lemma conv_in_simps:
  "conv_in (CHR ''a'') s m = map_option (\<lambda>(i, r). (r, m\<lparr>tm_wday := i\<rparr>)) (find_name day_names 0 s)"
  "conv_in (CHR ''b'') s m = map_option (\<lambda>(i, r). (r, m\<lparr>tm_mon := i\<rparr>)) (find_name month_names 0 s)"
  "conv_in (CHR ''d'') s m = map_option (\<lambda>(v, r). (r, m\<lparr>tm_mday := v\<rparr>)) (get_number 1 31 2 s)"
  "conv_in (CHR ''Y'') s m = map_option (\<lambda>(v, r). (r, m\<lparr>tm_year := v - 1900\<rparr>)) (get_number 0 9999 4 s)"
  "conv_in (CHR ''H'') s m = map_option (\<lambda>(v, r). (r, m\<lparr>tm_hour := v\<rparr>)) (get_number 0 23 2 s)"
  "conv_in (CHR ''M'') s m = map_option (\<lambda>(v, r). (r, m\<lparr>tm_min := v\<rparr>)) (get_number 0 59 2 s)"
  "conv_in (CHR ''S'') s m = map_option (\<lambda>(v, r). (r, m\<lparr>tm_sec := v\<rparr>)) (get_number 0 61 2 s)"
  by (simp_all add: conv_in_def)

lemma http_date_scan:
  assumes "valid_tm m" and "1000 \<le> tm_year m + 1900" and "tm_year m + 1900 \<le> 9999"
  shows "strptime_scan HTTP_DATE (strftime_str HTTP_DATE m) m0
    = (Some [], m\<lparr>tm_yday := tm_yday m0, tm_isdst := tm_isdst m0\<rparr>)"
proof -
  note v = valid_ranges [OF assms(1)]
  have sp: "is_space (CHR '' '')" "\<not> is_space (CHR ''%'')" "\<not> is_space (CHR '','')" "\<not> is_space (CHR '':'')"
      "\<not> is_space (CHR ''G'')" "\<not> is_space (CHR ''M'')" "\<not> is_space (CHR ''T'')"
    by (simp_all add: is_space_def)
  have m: "m0\<lparr>tm_wday := tm_wday m, tm_mday := tm_mday m, tm_mon := tm_mon m, tm_year := tm_year m, tm_hour := tm_hour m,
      tm_min := tm_min m, tm_sec := tm_sec m\<rparr> = m\<lparr>tm_yday := tm_yday m0, tm_isdst := tm_isdst m0\<rparr>" by (cases m; cases m0) simp
  show ?thesis
    unfolding http_date_str using v assms(2,3)
    by (simp add: HTTP_DATE_def m sp conv_in_simps find_day find_month get_number_2 get_number_year
        skip_num0_2 skip_year skip_month)
qed

lemma http_date_length:
  assumes "valid_tm m" and "1000 \<le> tm_year m + 1900" and "tm_year m + 1900 \<le> 9999"
  shows "length (strftime_str HTTP_DATE m) = 29"
  using valid_ranges [OF assms(1)] assms(2,3) unfolding http_date_str
  by (simp add: length_day length_month length_num0_2 length_year)

text \<open>
  A date in the format of HTTP fits into the buffer of 64 bytes, and parsing it gives the same
  broken-down time, whatever the structure held before; only \<open>tm_isdst\<close> stays as it was.
\<close>

lemma http_date:
  assumes "valid_tm m" and "1000 \<le> tm_year m + 1900" and "tm_year m + 1900 \<le> 9999"
  shows "strftime 64 HTTP_DATE m = Some (strftime_str HTTP_DATE m)"
    and "strptime HTTP_DATE (strftime_str HTTP_DATE m) m0 = (Some [], m\<lparr>tm_isdst := tm_isdst m0\<rparr>)"
proof -
  show "strftime 64 HTTP_DATE m = Some (strftime_str HTTP_DATE m)"
    using http_date_length [OF assms] by (auto simp: strftime_def Let_def)
  show "strptime HTTP_DATE (strftime_str HTTP_DATE m) m0 = (Some [], m\<lparr>tm_isdst := tm_isdst m0\<rparr>)"
    using http_date_scan [OF assms, of m0] valid_ranges(11) [OF assms(1)] by (simp add: strptime_def)
qed

text \<open>The other formats of the program fit into its buffer too.\<close>

definition WEEK_DATE :: string where
  "WEEK_DATE = ''%F %T week-%u(Monday is 1)''"

lemma week_date:
  assumes "valid_tm m" and "1000 \<le> tm_year m + 1900" and "tm_year m + 1900 \<le> 9999"
  shows "strftime 64 WEEK_DATE m = Some (strftime_str WEEK_DATE m)"
proof -
  have one: "length (num0 0 x) = 1" if "0 \<le> x" "x < 10" for x
  proof -
    have "nat x < 10" using that by simp
    then show ?thesis using that by (simp add: num0_def pad_def digits.simps [of "nat x"])
  qed
  have "(tm_wday m - 1 + 7) mod 7 + 1 \<ge> 0" "(tm_wday m - 1 + 7) mod 7 + 1 < 10"
    using pos_mod_bound [of 7 "tm_wday m - 1 + 7"] pos_mod_sign [of 7 "tm_wday m - 1 + 7"] by linarith+
  then have "length (strftime_str WEEK_DATE m) < 64"
    using valid_ranges [OF assms(1)] assms(2,3)
    by (simp add: WEEK_DATE_def conv_out_def hms_def length_num0_2 length_year one)
  moreover have "strftime_str WEEK_DATE m \<noteq> []" by (simp add: WEEK_DATE_def)
  ultimately show ?thesis by (simp add: strftime_def Let_def)
qed

lemma asctime_fits:
  assumes "valid_tm m" and "1000 \<le> tm_year m + 1900" and "tm_year m + 1900 \<le> 9999"
  shows "asctime_r m \<noteq> None"
proof -
  have two: "length (digits (nat x)) \<le> 2" if "0 \<le> x" "x < 100" for x
  proof -
    have "nat x div 10 < 10" using that by simp
    then show ?thesis by (simp add: digits.simps [of "nat x"] digits.simps [of "nat x div 10"])
  qed
  have "length (num_sp 3 (tm_mday m)) = 3"
    using valid_ranges [OF assms(1)] two [of "tm_mday m"] by (simp add: num_sp_def pad_def)
  then show ?thesis using valid_ranges [OF assms(1)] assms(2,3)
    by (simp add: asctime_r_def Let_def hms_def length_day length_month length_num0_2 length_year)
qed

end
