(* ===== verification/Clocks.thy ===== *)
theory Clocks
  imports Sleep Date_Format
begin

text \<open>
  The programs that read and set clocks: \<open>time/unix/realTime\<close>, \<open>time/unix/ticks\<close>,
  \<open>time/unix/adjust\<close>, \<open>time/posix/ticks\<close> and \<open>time/posix/getAndSet\<close>. The calls are the record
  \<open>time_os\<close>; the calendar functions are those of \<open>Calendar\<close> and \<open>Date_Format\<close>, with the distance
  of local time from UTC as an argument. \<open>timespec2MS\<close> and \<open>timeInterval\<close> of \<open>time/posix/ticks\<close> and
  \<open>time/unix/ticks\<close> are those of \<open>time/sleep\<close>, in \<open>Sleep\<close>.
\<close>

section \<open>Calls\<close>

record 'k time_os =
  c_gettimeofday :: "('k, int \<times> int) kcall"
  c_settimeofday :: "int \<times> int \<Rightarrow> ('k, int) kcall"
  c_adjtime :: "int \<times> int \<Rightarrow> ('k, int) kcall"
  c_time :: "('k, int) kcall"
  c_gettime :: "int \<Rightarrow> ('k, timespec) kcall"
  c_settime :: "int \<Rightarrow> timespec \<Rightarrow> ('k, int) kcall"
  c_getres :: "int \<Rightarrow> ('k, timespec) kcall"
  c_getcpuclockid :: "int \<Rightarrow> ('k, int) kcall"
  c_clock :: "('k, int) kcall"
  c_getrusage :: "('k, (int \<times> int) \<times> int \<times> int) kcall"
  c_times :: "('k, int \<times> int \<times> int \<times> int) kcall"
  c_clk_tck :: "('k, int) kcall"
  c_getppid :: "('k, int) kcall"
  c_usleep :: "nat \<Rightarrow> ('k, int) kcall"

definition CLOCK_REALTIME :: int where "CLOCK_REALTIME = 0"
definition CLOCK_MONOTONIC_ID :: int where "CLOCK_MONOTONIC_ID = 1"
definition CLOCK_PROCESS_CPUTIME_ID :: int where "CLOCK_PROCESS_CPUTIME_ID = 2"
definition CLOCKS_PER_SEC :: int where "CLOCKS_PER_SEC = 1000000"

text \<open>A structure a failing call leaves as it was.\<close>

definition fill :: "'a \<Rightarrow> ('k, 'a) kcall \<Rightarrow> ('k, 'a) io" where
  "fill old f = do { r \<leftarrow> sysopt f; ret (case r of None \<Rightarrow> old | Some v \<Rightarrow> v) }"

section \<open>time/unix/realTime\<close>

definition getTimeStamp :: "'k time_os \<Rightarrow> ('k, int) io" where
  "getTimeStamp os = do {
     r \<leftarrow> sysopt (c_gettimeofday os);
     case r of
       None \<Rightarrow> do {
         e \<leftarrow> get_errno;
         _ \<leftarrow> printf ''gettimeofday return -1, errno is %d\<newline>'' [FInt e];
         ret 0 }
     | Some (sec, usec) \<Rightarrow> ret (((sec mod U64) * 1000 + (usec div 1000) mod U64) mod U64) }"

definition getTimeStamp2 :: "'k time_os \<Rightarrow> ('k, int) io" where
  "getTimeStamp2 os = do {
     t \<leftarrow> sys (c_time os);
     if t = -1 then do {
       e \<leftarrow> get_errno;
       _ \<leftarrow> printf ''time() return -1, errno is %d\<newline>'' [FInt e];
       ret 0 }
     else ret ((t mod U64) * 1000 mod U64) }"

definition show_tm_event :: "tm \<Rightarrow> outev" where
  "show_tm_event t = Printf ''%04d-%02d-%02d %02d:%02d:%02d week-%d(Sunday is 0)\<newline>''
     [FInt (tm_year t + 1900), FInt (tm_mon t + 1), FInt (tm_mday t), FInt (tm_hour t), FInt (tm_min t),
      FInt (tm_sec t), FInt (tm_wday t)]"

definition showStructTm :: "tm \<Rightarrow> ('k, unit) io" where
  "showStructTm t = emit (show_tm_event t)"

text \<open>
  A buffer a call fills, or leaves as it is when it fails; its failure is not looked at.
\<close>

definition into :: "string \<Rightarrow> string option \<Rightarrow> string" where
  "into buffer r = (case r of None \<Rightarrow> buffer | Some s \<Rightarrow> s)"

text \<open>
  From line 85 on: \<open>utcTm\<close> and \<open>locTm\<close> are there. A failing \<open>localtime_r\<close> is not looked at,
  \<open>locTm\<close> is then what it was, as \<open>tmpTm\<close> is before \<open>strptime\<close>: \<open>junk\<close>.
\<close>

definition realTime_formats :: "zone \<Rightarrow> string \<Rightarrow> tm \<Rightarrow> tm \<Rightarrow> tm \<Rightarrow> ('k, int) io" where
  "realTime_formats zone buffer utcTm locTm junk = do {
     _ \<leftarrow> printf ''\<newline>\<newline>mktime(): convert struct tm to time_t\<newline>'' [];
     let (u, utcTm) = mktime zone utcTm;
     _ \<leftarrow> printf ''convet utcTm to time_t is %ld (wrong)\<newline>'' [FInt u];
     let (l, locTm) = mktime zone locTm;
     _ \<leftarrow> printf ''convet locTm to time_t is %ld\<newline>'' [FInt l];
     _ \<leftarrow> printf ''\<newline>\<newline>strftime() format struct tm\<newline>'' [];
     case strftime 64 WEEK_DATE utcTm of
       None \<Rightarrow> do {
         e \<leftarrow> get_errno;
         _ \<leftarrow> printf ''strftime return 0, errno is %d\<newline>'' [FInt e];
         ret (-1) }
     | Some buffer \<Rightarrow> do {
         _ \<leftarrow> printf ''format utcTm: %s\<newline>'' [FStr buffer];
         let buffer = into buffer (strftime 64 WEEK_DATE locTm);
         _ \<leftarrow> printf ''format locTm: %s\<newline>'' [FStr buffer];
         _ \<leftarrow> printf ''\<newline>\<newline>strftime() format now time to http date\<newline>'' [];
         let buffer = into buffer (strftime 64 HTTP_DATE utcTm);
         _ \<leftarrow> printf ''format utcTm to http date: %s\<newline>'' [FStr buffer];
         _ \<leftarrow> printf ''\<newline>\<newline>strftime() convet http date to struct tm\<newline>'' [];
         _ \<leftarrow> showStructTm (snd (strptime HTTP_DATE buffer junk));
         ret 0 } }"

definition realTime_main :: "'k time_os \<Rightarrow> zone \<Rightarrow> tm \<Rightarrow> ('k, int) io" where
  "realTime_main os zone junk = do {
     _ \<leftarrow> printf ''gettimeofday() and time() get timestamp(ms)...\<newline>'' [];
     t1 \<leftarrow> getTimeStamp os;
     t2 \<leftarrow> getTimeStamp2 os;
     _ \<leftarrow> printf ''t1 is %llu\<newline>'' [FInt t1];
     _ \<leftarrow> printf ''t2 is %llu\<newline>'' [FInt t2];
     _ \<leftarrow> printf ''\<newline>\<newline>ctime_r(): convet timer_t to string\<newline>'' [];
     let t = t1 div 1000;
     case ctime_r zone t of
       None \<Rightarrow> do {
         e \<leftarrow> get_errno;
         _ \<leftarrow> printf ''ctime_r return NULL, errno is %d\<newline>'' [FInt e];
         ret (-1) }
     | Some buffer \<Rightarrow> do {
         _ \<leftarrow> printf ''%s'' [FStr buffer];
         _ \<leftarrow> printf ''\<newline>\<newline>gmtime_r(): convert time_t to struct tm(UTC)\<newline>'' [];
         case gmtime_r t of
           None \<Rightarrow> do {
             e \<leftarrow> get_errno;
             _ \<leftarrow> printf ''gmtime_r return NULL, errno is %d\<newline>'' [FInt e];
             ret (-1) }
         | Some utcTm \<Rightarrow> do {
             _ \<leftarrow> showStructTm utcTm;
             _ \<leftarrow> printf ''asctime_r(): convert struct tm to string\<newline>'' [];
             let buffer = into buffer (asctime_r utcTm);
             _ \<leftarrow> printf ''UTC  : %s'' [FStr buffer];
             _ \<leftarrow> printf ''\<newline>\<newline>localtime_r(): convert time_t to struct tm(local)\<newline>'' [];
             let locTm = (case localtime_r zone t of None \<Rightarrow> junk | Some m \<Rightarrow> m);
             _ \<leftarrow> showStructTm locTm;
             _ \<leftarrow> printf ''asctime_r(): convert struct tm to string\<newline>'' [];
             let buffer = into buffer (asctime_r locTm);
             _ \<leftarrow> printf ''local: %s'' [FStr buffer];
             realTime_formats zone buffer utcTm locTm junk } } }"

section \<open>time/unix/adjust and time/posix/getAndSet\<close>

definition adjust_main :: "'k time_os \<Rightarrow> ('k, int) io" where
  "adjust_main os = do {
     r \<leftarrow> sysopt (c_gettimeofday os);
     case r of
       None \<Rightarrow> do { e \<leftarrow> get_errno; _ \<leftarrow> printf ''gettimeofday return -1, errno is %d\<newline>'' [FInt e]; ret 0 }
     | Some (sec, usec) \<Rightarrow> do {
         r \<leftarrow> sys (c_settimeofday os (sec + 600, usec));
         if r = -1 then do { e \<leftarrow> get_errno; _ \<leftarrow> printf ''settimeofday return -1, errno is %d\<newline>'' [FInt e]; ret 0 }
         else do {
           _ \<leftarrow> printf ''call settimeofday ok\<newline>'' [];
           r \<leftarrow> sys (c_adjtime os (-600, 0));
           if r = -1 then do { e \<leftarrow> get_errno; _ \<leftarrow> printf ''adjtime return -1, errno is %d\<newline>'' [FInt e]; ret (-1) }
           else do {
             _ \<leftarrow> printf ''call adjtime ok\<newline>'' [];
             ret 0 } } } }"

text \<open>\<open>timespec2MS\<close> of \<open>time/posix/getAndSet\<close> cuts the milliseconds off; the others round.\<close>

definition timespec2MS_cut :: "timespec \<Rightarrow> int" where
  "timespec2MS_cut tp = ((tv_sec tp mod U64) * 1000 + (tv_nsec tp mod U64) div 1000000) mod U64"

text \<open>The value the function returns, \<open>None\<close> where it ends without a \<open>return\<close>.\<close>

definition getSetRealTime :: "'k time_os \<Rightarrow> ('k, int option) io" where
  "getSetRealTime os = do {
     r \<leftarrow> sysopt (c_gettime os CLOCK_REALTIME);
     case r of
       None \<Rightarrow> do { e \<leftarrow> get_errno; _ \<leftarrow> printf ''clock_gettime returned -1, errno: %d\<newline>'' [FInt e]; ret (Some (-1)) }
     | Some tp \<Rightarrow> do {
         _ \<leftarrow> printf ''clock_gettime with CLOCK_REALTIME  timestamp is %llu\<newline>'' [FInt (timespec2MS_cut tp)];
         _ \<leftarrow> printf ''use clock_settime to change sys time'' [];
         r \<leftarrow> sys (c_settime os CLOCK_REALTIME (tp\<lparr>tv_sec := tv_sec tp + 600\<rparr>));
         if r = -1 then do { e \<leftarrow> get_errno; _ \<leftarrow> printf ''clock_settime returned -1, errno is %d\<newline>'' [FInt e]; ret (Some (-1)) }
         else ret None } }"

definition getAndSet_main :: "'k time_os \<Rightarrow> timespec \<Rightarrow> ('k, int) io" where
  "getAndSet_main os junk = do {
     _ \<leftarrow> getSetRealTime os;
     tp \<leftarrow> fill junk (c_gettime os CLOCK_MONOTONIC_ID);
     _ \<leftarrow> printf ''clock_gettime with CLOCK_MONOTONIC timestamp is %llu\<newline>'' [FInt (timespec2MS_cut tp)];
     tp \<leftarrow> fill tp (c_getres os CLOCK_REALTIME);
     _ \<leftarrow> printf ''clock_getres  with CLOCK_REALTIME  timestamp is %llu\<newline>'' [FInt (timespec2MS_cut tp)];
     ret 0 }"

section \<open>time/posix/ticks and time/unix/ticks\<close>

fun repeat_io :: "nat \<Rightarrow> ('k, 'a) io \<Rightarrow> ('k, unit) io" where
  "repeat_io 0 m = ret ()"
| "repeat_io (Suc n) m = do { _ \<leftarrow> m; repeat_io n m }"

text \<open>\<open>costTime\<close>: the floating-point loop has no effect.\<close>

definition costTime :: "'k time_os \<Rightarrow> ('k, int) io" where
  "costTime os = do {
     _ \<leftarrow> repeat_io 1000000 (sys (c_getppid os));
     _ \<leftarrow> sys (c_usleep os 300);
     ret 0 }"

definition timeval2ms :: "int \<times> int \<Rightarrow> int option" where
  "timeval2ms t = (case t of (sec, usec) \<Rightarrow>
     map_option (\<lambda>m. ((sec mod U64) * 1000 + m) mod U64) (ns_to_ms (usec * 1000)))"

text \<open>
  \<open>ret * 1000 / CLOCKS_PER_SEC\<close> with \<open>int ret\<close>: the product is an \<open>int\<close> and its overflow is
  undefined; the quotient is cut off towards zero.
\<close>

definition to_int :: "int \<Rightarrow> int" where
  "to_int x = (x + 2 ^ 31) mod 2 ^ 32 - 2 ^ 31"

definition clock_ms :: "int \<Rightarrow> int option" where
  "clock_ms r = (if - (2 ^ 31) \<le> r * 1000 \<and> r * 1000 < 2 ^ 31
     then Some (sgn r * (\<bar>r\<bar> * 1000 div CLOCKS_PER_SEC)) else None)"

text \<open>\<open>costTimeTest\<close> of \<open>time/posix/ticks\<close>; \<open>False\<close> where it is undefined.\<close>

definition costTimeTest :: "'k time_os \<Rightarrow> timespec \<Rightarrow> (int \<times> int) \<times> int \<times> int \<Rightarrow> ('k, bool) io" where
  "costTimeTest os junk junk_ru = do {
     _ \<leftarrow> costTime os;
     tp \<leftarrow> fill junk (c_gettime os CLOCK_PROCESS_CPUTIME_ID);
     case timespec2ms tp of None \<Rightarrow> ret False | Some ms \<Rightarrow> do {
     _ \<leftarrow> printf ''CLOCK_PROCESS_CPUTIME_ID(usr + sys) is %llu\<newline>'' [FInt ms];
     cId \<leftarrow> sys (c_getcpuclockid os 0);
     tp \<leftarrow> fill tp (c_gettime os cId);
     case timespec2ms tp of None \<Rightarrow> ret False | Some ms \<Rightarrow> do {
     _ \<leftarrow> printf ''clock_getcpuclockid(usr + sys) is %llu\<newline>'' [FInt ms];
     c \<leftarrow> sys (c_clock os);
     if to_int c = -1 then do {
       e \<leftarrow> get_errno;
       _ \<leftarrow> printf ''clock() return -1, errno is %d\<newline>'' [FInt e];
       ret True }
     else case clock_ms (to_int c) of None \<Rightarrow> ret False | Some ms \<Rightarrow> do {
     _ \<leftarrow> printf ''clock static info(usr + sys) is %ld\<newline>'' [FInt ms];
     ru \<leftarrow> fill junk_ru (c_getrusage os);
     case timeval2ms (fst ru) of None \<Rightarrow> ret False | Some ms \<Rightarrow> do {
     _ \<leftarrow> printf ''RUSAGE_SELF - ru_utime(usr): %llu\<newline>'' [FInt ms];
     case timeval2ms (snd ru) of None \<Rightarrow> ret False | Some ms \<Rightarrow> do {
     _ \<leftarrow> printf ''RUSAGE_SELF - ru_stime(sys): %llu\<newline>'' [FInt ms];
     ret True } } } } } }"

definition posix_ticks_main :: "'k time_os \<Rightarrow> timespec \<Rightarrow> (int \<times> int) \<times> int \<times> int \<Rightarrow> ('k, int option) io" where
  "posix_ticks_main os junk junk_ru = do {
     start \<leftarrow> fill junk (c_gettime os CLOCK_MONOTONIC_ID);
     ok \<leftarrow> costTimeTest os junk junk_ru;
     if \<not> ok then ret None
     else do {
       end \<leftarrow> fill junk (c_gettime os CLOCK_MONOTONIC_ID);
       case timeInterval start end of
         None \<Rightarrow> ret None
       | Some ms \<Rightarrow> do { _ \<leftarrow> printf ''real time cost %llu\<newline>'' [FInt ms]; ret (Some 0) } } }"

text \<open>\<open>time/unix/ticks\<close>: ticks to milliseconds in \<open>long\<close> arithmetic, cut off towards zero.\<close>

definition tick_ms :: "int \<Rightarrow> int \<Rightarrow> int" where
  "tick_ms ticks n = sgn ticks * (\<bar>ticks\<bar> * 1000 div n)"

definition unix_ticks_main :: "'k time_os \<Rightarrow> ('k, int) io" where
  "unix_ticks_main os = do {
     g_clockTick \<leftarrow> sys (c_clk_tck os);
     _ \<leftarrow> costTime os;
     _ \<leftarrow> printf ''use times() static info\<newline>'' [];
     r \<leftarrow> sysopt (c_times os);
     case r of
       None \<Rightarrow> do { e \<leftarrow> get_errno; _ \<leftarrow> printf ''times return -1, errno is %d\<newline>'' [FInt e]; ret 0 }
     | Some (u, s, cu, cs) \<Rightarrow> do {
         _ \<leftarrow> printf ''utime  is %ld ms\<newline>'' [FInt (tick_ms u g_clockTick)];
         _ \<leftarrow> printf ''stime  is %ld ms\<newline>'' [FInt (tick_ms s g_clockTick)];
         _ \<leftarrow> printf ''cutime is %ld ms\<newline>'' [FInt (tick_ms cu g_clockTick)];
         _ \<leftarrow> printf ''cstime is %ld ms\<newline>'' [FInt (tick_ms cs g_clockTick)];
         ret 0 } }"

section \<open>Properties\<close>

text \<open>What is printed from line 91 on, for a UTC time and a local time.\<close>

lemma show_tm_isdst [simp]: "show_tm_event (m\<lparr>tm_isdst := x\<rparr>) = show_tm_event m"
  by (simp add: show_tm_event_def)

lemma realTime_formats_run:
  fixes z :: zone and t :: int and buffer :: string and junk :: tm and s :: "'k proc"
  defines "u \<equiv> localtime z (t - z_std z)"
  assumes u: "valid_tm u" "1000 \<le> tm_year u + 1900" "tm_year u + 1900 \<le> 9999"
  defines "s' \<equiv> snd (run_state (realTime_formats z buffer (gmtime t) (localtime z t) junk) s)"
  shows "fst (run_state (realTime_formats z buffer (gmtime t) (localtime z t) junk) s) = 0"
    and "outs s' = outs s @ drop (length (outs s)) (outs s')" "drop (length (outs s)) (outs s') \<noteq> []"
      "last (outs s') = show_tm_event u"
    and "Printf ''convet utcTm to time_t is %ld (wrong)\<newline>'' [FInt (t - z_std z)] \<in> set (outs s')"
      "Printf ''convet locTm to time_t is %ld\<newline>'' [FInt t] \<in> set (outs s')"
      "Printf ''format utcTm to http date: %s\<newline>'' [FStr (strftime_str HTTP_DATE u)] \<in> set (outs s')"
  unfolding s'_def realTime_formats_def mktime_gmtime mktime_localtime Let_def prod.case
    u_def [symmetric] week_date [OF u] http_date(1) [OF u] option.case into_def http_date(2) [OF u] snd_conv
  by (simp_all add: run_printf run_emit showStructTm_def)

text \<open>
  C14. \<open>time/unix/realTime\<close>, for every moment and time zone, with or without daylight-saving time,
  for which the times it deals with are in the years 1970 to 9999. The program ends with 0.
  Converting the local time back with \<open>mktime\<close> gives the time again; the UTC time is taken for a
  standard time, so converting it back gives the time less the distance of standard time from UTC.
  That call rewrites \<open>utcTm\<close>: when daylight-saving time is in force at its result, \<open>utcTm\<close> and with
  it the date printed in the format of HTTP as GMT are ahead by the difference of the two times,
  and only otherwise are they the time in UTC. The broken-down time that \<open>strptime\<close> reads from this date is
  shown exactly as the one the date was made from, whatever the structure held before.
\<close>

theorem realTime_prints:
  fixes z :: zone and sec :: int
  defines "ahead \<equiv> if z_summer z (sec - z_std z) then z_dst z - z_std z else 0"
  assumes now: "c_gettimeofday os (kern s) = (Inr (sec, usec), k)" "0 \<le> usec" "usec < 1000000"
    and utc: "0 \<le> sec" "sec < 253402300800"
    and loc: "0 \<le> sec + off_at z sec" "sec + off_at z sec < 253402300800"
    and again: "0 \<le> sec + ahead" "sec + ahead < 253402300800"
  shows "\<exists>s'. run_state (realTime_main os z junk) s = (0, s') \<and> last (outs s') = show_tm_event (gmtime (sec + ahead))
    \<and> show_tm_event (gmtime sec) \<in> set (butlast (outs s'))
    \<and> Printf ''convet utcTm to time_t is %ld (wrong)\<newline>'' [FInt (sec - z_std z)] \<in> set (outs s')
    \<and> Printf ''convet locTm to time_t is %ld\<newline>'' [FInt sec] \<in> set (outs s')
    \<and> Printf ''format utcTm to http date: %s\<newline>'' [FStr (strftime_str HTTP_DATE (gmtime (sec + ahead)))] \<in> set (outs s')"
proof -
  have t1: "(((sec mod U64) * 1000 + (usec div 1000) mod U64) mod U64) div 1000 = sec"
    using now(2,3) utc by (simp add: U64_def)
  let ?u = "gmtime sec" and ?l = "localtime z sec" and ?v = "localtime z (sec - z_std z)"
  have v: "show_tm_event ?v = show_tm_event (gmtime (sec + ahead))"
      "strftime_str HTTP_DATE ?v = strftime_str HTTP_DATE (gmtime (sec + ahead))"
    by (simp_all add: localtime_def off_at_def ahead_def http_date_str algebra_simps)
  have y: "valid_tm ?v" "1000 \<le> tm_year ?v + 1900" "tm_year ?v + 1900 \<le> 9999" and l: "valid_tm ?l"
      "1000 \<le> tm_year ?l + 1900" "tm_year ?l + 1900 \<le> 9999"
    using gmtime_valid gmtime_year [OF loc] gmtime_year [OF again]
    by (simp_all add: localtime_def off_at_def ahead_def algebra_simps split: if_splits)
  obtain b1 where asc: "asctime_r ?l = Some b1" using asctime_fits [OF l] by auto
  have ct: "ctime_r z sec = Some b1" "gmtime_r sec = Some ?u" "localtime_r z sec = Some ?l"
    using asc gmtime_r_Some [OF utc] gmtime_r_Some [OF loc] by (simp_all add: ctime_r_def localtime_r_def)
  define b where "b = into (into b1 (asctime_r ?u)) (asctime_r ?l)"
  obtain x k2 where tm: "c_time os k = (x, k2)" by force
  have "\<exists>s1. run_state (realTime_main os z junk) s = run_state (realTime_formats z b ?u ?l junk) s1
      \<and> show_tm_event ?u \<in> set (outs s1)"
    unfolding realTime_main_def getTimeStamp_def getTimeStamp2_def
    by (cases x; cases "x = Inr (-1)"; simp add: now(1) tm io_simps t1 ct Let_def showStructTm_def b_def;
        (rule exI, rule conjI, rule refl, simp))
  then obtain s1 where s1: "run_state (realTime_main os z junk) s = run_state (realTime_formats z b ?u ?l junk) s1"
      "show_tm_event ?u \<in> set (outs s1)" by blast
  note f = realTime_formats_run [OF y, where buffer = b and junk = junk and s = s1, folded s1(1), unfolded v]
  obtain s' where s': "run_state (realTime_main os z junk) s = (0, s')" using f(1) by (metis prod.collapse)
  have "show_tm_event ?u \<in> set (butlast (outs s'))"
    using f(2,3) s1(2) unfolding s' snd_conv by (metis butlast_append in_set_conv_decomp append.assoc append_Cons)
  with f(4-7) s' show ?thesis unfolding s' snd_conv by blast
qed

definition fixed_clock :: "unit time_os" where
  "fixed_clock = \<lparr>c_gettimeofday = (\<lambda>k. (Inr (1569046546, 250000), k)), c_settimeofday = (\<lambda>_ k. (Inl 1, k)),
     c_adjtime = (\<lambda>_ k. (Inl 1, k)), c_time = (\<lambda>k. (Inr 1569046546, k)), c_gettime = (\<lambda>_ k. (Inl 22, k)),
     c_settime = (\<lambda>_ _ k. (Inl 1, k)), c_getres = (\<lambda>_ k. (Inl 22, k)), c_getcpuclockid = (\<lambda>_ k. (Inl 22, k)),
     c_clock = (\<lambda>k. (Inr 0, k)), c_getrusage = (\<lambda>k. (Inl 22, k)), c_times = (\<lambda>k. (Inl 22, k)),
     c_clk_tck = (\<lambda>k. (Inr 100, k)), c_getppid = (\<lambda>k. (Inr 1, k)), c_usleep = (\<lambda>_ k. (Inr 0, k))\<rparr>"

text \<open>Central European time, in summer.\<close>

definition summer_zone :: zone where
  "summer_zone = \<lparr>z_std = 3600, z_dst = 7200, z_summer = (\<lambda>t. True)\<rparr>"

theorem realTime_prints_witness:
  "\<exists>s'. run_state (realTime_main fixed_clock summer_zone (gmtime 0)) \<lparr>kern = (), errno = 0, outs = []\<rparr> = (0, s')
    \<and> last (outs s') = Printf ''%04d-%02d-%02d %02d:%02d:%02d week-%d(Sunday is 0)\<newline>''
        [FInt 2019, FInt 9, FInt 21, FInt 7, FInt 15, FInt 46, FInt 6]
    \<and> Printf ''convet locTm to time_t is %ld\<newline>'' [FInt 1569046546] \<in> set (outs s')"
proof -
  have "show_tm_event (gmtime 1569050146) = Printf ''%04d-%02d-%02d %02d:%02d:%02d week-%d(Sunday is 0)\<newline>''
        [FInt 2019, FInt 9, FInt 21, FInt 7, FInt 15, FInt 46, FInt 6]"
    by code_simp
  with realTime_prints [of fixed_clock "\<lparr>kern = (), errno = 0, outs = []\<rparr>" 1569046546 250000 "()" summer_zone "gmtime 0"]
  show ?thesis by (auto simp: fixed_clock_def summer_zone_def off_at_def)
qed

text \<open>
  \<open>time/posix/ticks\<close> converts the processor time to milliseconds only up to 2.147483 seconds:
  for a larger value of \<open>clock()\<close> the product with 1000 overflows an \<open>int\<close>, which is undefined.
\<close>

lemma ticks_clock_range:
  "clock_ms r = (if r < -2147483 \<or> 2147483 < r then None else Some (sgn r * (\<bar>r\<bar> div 1000)))"
proof -
  have "\<bar>r\<bar> * 1000 div CLOCKS_PER_SEC = \<bar>r\<bar> div 1000" by (simp add: CLOCKS_PER_SEC_def)
  moreover have "- (2 ^ 31) \<le> r * 1000 \<and> r * 1000 < 2 ^ 31 \<longleftrightarrow> \<not> (r < -2147483 \<or> 2147483 < r)" by auto
  ultimately show ?thesis by (simp only: clock_ms_def if_not_P if_P split: if_splits) auto
qed

text \<open>
  A clock that is set forward and then slewed back by the same amount: what
  \<open>time/unix/adjust\<close> asks for, when both calls are allowed.
\<close>

lemma adjust_requests:
  assumes "c_gettimeofday os (kern s) = (Inr (sec, usec), k1)" and "c_settimeofday os (sec + 600, usec) k1 = (Inr 0, k2)"
    and "c_adjtime os (-600, 0) k2 = (Inr 0, k3)"
  shows "\<exists>s'. run_state (adjust_main os) s = (0, s') \<and> kern s' = k3"
  using assms by (simp add: adjust_main_def io_simps)

end
