(* ===== verification/Timers.thy ===== *)
theory Timers
  imports Sleep
begin

unbundle bit_operations_syntax

text \<open>
  The timers: \<open>timer/linux/main.c\<close> waits for a \<open>timerfd\<close> with epoll, \<open>timer/posix/main.c\<close> has
  its callback run in a new thread for every expiration. For the first the calls are the record
  \<open>timer_os\<close>, and \<open>tk_os\<close> is a clock in nanoseconds with one timer and the latencies of the waits.
  The second is a step relation: the timer, the callbacks and \<open>main\<close> in any interleaving.
\<close>

section \<open>timer/linux\<close>

record itimerspec =
  it_value :: timespec
  it_interval :: timespec

record 'k timer_os =
  q_clock :: "('k, timespec) kcall"
  q_create :: "('k, int) kcall"
  q_settime :: "int \<Rightarrow> itimerspec \<Rightarrow> ('k, int) kcall"
  q_gettime :: "int \<Rightarrow> ('k, itimerspec) kcall"
  q_epoll_create :: "('k, int) kcall"
  q_epoll_add :: "int \<Rightarrow> int \<Rightarrow> 32 word \<Rightarrow> ('k, int) kcall"
  q_epoll_wait :: "int \<Rightarrow> nat \<Rightarrow> int \<Rightarrow> ('k, (32 word \<times> int) list) kcall"
  q_read :: "int \<Rightarrow> nat \<Rightarrow> ('k, char list) kcall"
  q_close :: "int \<Rightarrow> ('k, int) kcall"

definition g_timerValueSec :: int where "g_timerValueSec = 3"
definition g_timerIntervalSec :: int where "g_timerIntervalSec = 3"
definition g_maxCallbackCount :: nat where "g_maxCallbackCount = 10"

text \<open>\<open>_getTicks\<close>; the clock calls do not fail, a value that is not defined is 0.\<close>

definition getTicks :: "'k timer_os \<Rightarrow> ('k, int) io" where
  "getTicks os = do {
     tp \<leftarrow> sysopt (q_clock os);
     ret (case tp of None \<Rightarrow> 0 | Some t \<Rightarrow> (case timespec2ms t of None \<Rightarrow> 0 | Some m \<Rightarrow> m)) }"

text \<open>
  \<open>_getInterval\<close>: seconds as a \<open>double\<close> that is printed with three digits, here as milliseconds.
\<close>

definition getInterval :: "'k timer_os \<Rightarrow> int \<Rightarrow> ('k, int) io" where
  "getInterval os g_initTime = do { t \<leftarrow> getTicks os; ret ((t - g_initTime) mod U64) }"

definition ms_of :: "timespec \<Rightarrow> int" where
  "ms_of t = (case timespec2ms t of None \<Rightarrow> 0 | Some m \<Rightarrow> m)"

text \<open>A ready timer: lines 85 to 98.\<close>

definition timer_ready :: "'k timer_os \<Rightarrow> int \<Rightarrow> itimerspec \<Rightarrow> int \<Rightarrow> ('k, unit) io" where
  "timer_ready os g_initTime junk fd = do {
     t \<leftarrow> getInterval os g_initTime;
     _ \<leftarrow> printf ''%.3f timer is ready\<newline>'' [FInt t];
     (readSize, bs) \<leftarrow> sysbuf (q_read os fd 8);
     if readSize \<noteq> 8 then printf ''readSize(%zd) != sizeof(u_int64_t)(%zu)\<newline>'' [FInt readSize, FInt 8]
     else do {
       r \<leftarrow> sysopt (q_gettime os fd);
       let info = (case r of None \<Rightarrow> junk | Some i \<Rightarrow> i);
       _ \<leftarrow> printf (TAB # ''it_value: %lld\<newline>'') [FInt (ms_of (it_value info))];
       printf (TAB # ''it_interval: %lld\<newline>'') [FInt (ms_of (it_interval info))] } }"

fun timer_scan :: "'k timer_os \<Rightarrow> int \<Rightarrow> itimerspec \<Rightarrow> (32 word \<times> int) list \<Rightarrow> ('k, unit) io" where
  "timer_scan os g_initTime junk [] = ret ()"
| "timer_scan os g_initTime junk ((e, fd) # es) = do {
     _ \<leftarrow> (if e AND 1 \<noteq> 0 then timer_ready os g_initTime junk fd else ret ());
     timer_scan os g_initTime junk es }"

text \<open>The loop, with the turns that are left.\<close>

fun timer_loop :: "'k timer_os \<Rightarrow> int \<Rightarrow> int \<Rightarrow> itimerspec \<Rightarrow> nat \<Rightarrow> ('k, unit) io" where
  "timer_loop os epfd g_initTime junk 0 = ret ()"
| "timer_loop os epfd g_initTime junk (Suc n) = do {
     r \<leftarrow> sysopt (q_epoll_wait os epfd 1 10000);
     _ \<leftarrow> (case r of
        None \<Rightarrow> do {
          e \<leftarrow> get_errno;
          _ \<leftarrow> printf ''epoll_wait had error, return is %d, errno is %d\<newline>'' [FInt (-1), FInt e];
          if e = EINTR then printf ''receive EINTR\<newline>'' [] else ret () }
      | Some evs \<Rightarrow> if evs = [] then printf ''timeout...\<newline>'' [] else timer_scan os g_initTime junk evs);
     timer_loop os epfd g_initTime junk n }"

definition linux_timer_main :: "'k timer_os \<Rightarrow> itimerspec \<Rightarrow> ('k, int) io" where
  "linux_timer_main os junk = do {
     g_initTime \<leftarrow> getTicks os;
     timerFd \<leftarrow> sys (q_create os);
     if timerFd < 0 then do {
       e \<leftarrow> get_errno;
       _ \<leftarrow> printf ''timerfd_create failed, errno: %d\<newline>'' [FInt e];
       ret (-1) }
     else do {
       _ \<leftarrow> sys (q_settime os timerFd \<lparr>it_value = \<lparr>tv_sec = g_timerValueSec, tv_nsec = 0\<rparr>,
              it_interval = \<lparr>tv_sec = g_timerIntervalSec, tv_nsec = 0\<rparr>\<rparr>);
       epollFd \<leftarrow> sys (q_epoll_create os);
       _ \<leftarrow> sys (q_epoll_add os epollFd timerFd 1);
       _ \<leftarrow> timer_loop os epollFd g_initTime junk g_maxCallbackCount;
       _ \<leftarrow> sys (q_close os timerFd);
       ret 0 } }"

subsection \<open>A clock with a timer\<close>

text \<open>
  Time in nanoseconds; the next expiration and the interval; the expirations not read yet; how
  late each of the next waits returns. Time passes only while the program waits.
\<close>

record tk =
  tk_now :: int
  tk_next :: int
  tk_int :: int
  tk_ticks :: int
  tk_late :: "int list"

definition ns_ts :: "int \<Rightarrow> timespec" where
  "ns_ts n = \<lparr>tv_sec = n div 1000000000, tv_nsec = n mod 1000000000\<rparr>"

definition tk_wait :: "int \<Rightarrow> nat \<Rightarrow> int \<Rightarrow> (tk, (32 word \<times> int) list) kcall" where
  "tk_wait epfd n t k =
     (if tk_ticks k > 0 then (Inr [(1, 3)], k)
      else if tk_next k \<le> tk_now k + t * 1000000 then
        (let now = max (tk_now k) (tk_next k) + (case tk_late k of [] \<Rightarrow> 0 | d # _ \<Rightarrow> d);
             m = (now - tk_next k) div tk_int k + 1
         in (Inr [(1, 3)], k\<lparr>tk_now := now, tk_next := tk_next k + m * tk_int k, tk_ticks := m, tk_late := tl (tk_late k)\<rparr>))
      else (Inr [], k\<lparr>tk_now := tk_now k + t * 1000000\<rparr>))"

definition tk_os :: "tk timer_os" where
  "tk_os = \<lparr>q_clock = (\<lambda>k. (Inr (ns_ts (tk_now k)), k)), q_create = (\<lambda>k. (Inr 3, k)),
     q_settime = (\<lambda>fd i k. (Inr 0, k\<lparr>tk_next := tk_now k + ns (it_value i), tk_int := ns (it_interval i), tk_ticks := 0\<rparr>)),
     q_gettime = (\<lambda>fd k. (Inr \<lparr>it_value = ns_ts (tk_next k - tk_now k), it_interval = ns_ts (tk_int k)\<rparr>, k)),
     q_epoll_create = (\<lambda>k. (Inr 4, k)), q_epoll_add = (\<lambda>_ _ _ k. (Inr 0, k)), q_epoll_wait = tk_wait,
     q_read = (\<lambda>fd n k. if tk_ticks k > 0 then (Inr (replicate 8 NUL), k\<lparr>tk_ticks := 0\<rparr>) else (Inl EAGAIN, k)),
     q_close = (\<lambda>_ k. (Inr 0, k))\<rparr>"

text \<open>What is printed for an expiration at \<open>t\<close> that is noticed \<open>d\<close> nanoseconds later.\<close>

definition ready_log :: "int \<Rightarrow> int \<Rightarrow> int \<Rightarrow> int \<Rightarrow> outev list" where
  "ready_log g_initTime iv t d =
     [Printf ''%.3f timer is ready\<newline>'' [FInt ((ms_of (ns_ts (t + d)) - g_initTime) mod U64)],
      Printf (TAB # ''it_value: %lld\<newline>'') [FInt (ms_of (ns_ts (iv - d)))],
      Printf (TAB # ''it_interval: %lld\<newline>'') [FInt (ms_of (ns_ts iv))]]"

fun ready_logs :: "int \<Rightarrow> int \<Rightarrow> int \<Rightarrow> int list \<Rightarrow> outev list" where
  "ready_logs g_initTime iv t [] = []"
| "ready_logs g_initTime iv t (d # ds) = ready_log g_initTime iv t d @ ready_logs g_initTime iv (t + iv) ds"

lemma timer_turn:
  assumes "kern s = \<lparr>tk_now = now, tk_next = t, tk_int = iv, tk_ticks = 0, tk_late = d # ds\<rparr>"
    and "0 \<le> d" "d < iv" "now \<le> t" "t \<le> now + 10000000000"
  shows "run_state (timer_loop tk_os epfd g_initTime junk (Suc n)) s
    = run_state (timer_loop tk_os epfd g_initTime junk n)
        (s\<lparr>kern := \<lparr>tk_now = t + d, tk_next = t + iv, tk_int = iv, tk_ticks = 0, tk_late = ds\<rparr>,
           outs := outs s @ ready_log g_initTime iv t d\<rparr>)"
proof -
  have "d div iv = 0" using assms(2,3) by simp
  then have "tk_wait epfd 1 10000 (kern s) = (Inr [(1, 3)], \<lparr>tk_now = t + d, tk_next = t + iv, tk_int = iv, tk_ticks = 1, tk_late = ds\<rparr>)"
    using assms by (simp add: tk_wait_def Let_def)
  then show ?thesis
    by (simp add: tk_os_def io_simps timer_ready_def getInterval_def getTicks_def ready_log_def ms_of_def Let_def)
qed

lemma timer_loop_run:
  assumes "kern s = \<lparr>tk_now = now, tk_next = t, tk_int = iv, tk_ticks = 0, tk_late = ds\<rparr>"
    and "\<forall>d \<in> set ds. 0 \<le> d \<and> d < iv" "now \<le> t" "t \<le> now + 10000000000" "iv \<le> 10000000000"
  shows "\<exists>s'. run_state (timer_loop tk_os epfd g_initTime junk (length ds)) s = ((), s')
    \<and> outs s' = outs s @ ready_logs g_initTime iv t ds"
  using assms
proof (induction ds arbitrary: s now t)
  case (Cons d ds)
  let ?s = "s\<lparr>kern := \<lparr>tk_now = t + d, tk_next = t + iv, tk_int = iv, tk_ticks = 0, tk_late = ds\<rparr>,
     outs := outs s @ ready_log g_initTime iv t d\<rparr>"
  have "run_state (timer_loop tk_os epfd g_initTime junk (length (d # ds))) s
      = run_state (timer_loop tk_os epfd g_initTime junk (length ds)) ?s"
    using timer_turn [OF Cons.prems(1), of epfd g_initTime junk "length ds"] Cons.prems(2-4) by simp
  with Cons.IH [of ?s "t + d" "t + iv"] Cons.prems show ?case by auto
qed simp

text \<open>
  C35. \<open>timer/linux\<close>: ten waits, ten expirations. Whatever the moment it is started at, and however
  late each wait returns, as long as it is less than the interval of three seconds, the program
  reports the ten expirations three seconds apart, for each the time that is left until the next
  and the interval, and ends with 0.
\<close>

theorem linux_timer_reports:
  assumes "length ds = 10" and "\<forall>d \<in> set ds. 0 \<le> d \<and> d < 3000000000"
  shows "\<exists>s'. run_state (linux_timer_main tk_os junk)
        \<lparr>kern = \<lparr>tk_now = t0, tk_next = x, tk_int = y, tk_ticks = z, tk_late = ds\<rparr>, errno = e, outs = []\<rparr> = (0, s')
    \<and> outs s' = ready_logs (ms_of (ns_ts t0)) 3000000000 (t0 + 3000000000) ds"
proof -
  let ?s = "\<lparr>kern = \<lparr>tk_now = t0, tk_next = t0 + 3000000000, tk_int = 3000000000, tk_ticks = 0, tk_late = ds\<rparr>,
    errno = e, outs = []\<rparr>"
  obtain s' where s': "run_state (timer_loop tk_os 4 (ms_of (ns_ts t0)) junk (length ds)) ?s = ((), s')"
      "outs s' = ready_logs (ms_of (ns_ts t0)) 3000000000 (t0 + 3000000000) ds"
    using timer_loop_run [of ?s t0 "t0 + 3000000000" 3000000000 ds 4 "ms_of (ns_ts t0)" junk] assms(2) by auto
  have "run_state (linux_timer_main tk_os junk)
      \<lparr>kern = \<lparr>tk_now = t0, tk_next = x, tk_int = y, tk_ticks = z, tk_late = ds\<rparr>, errno = e, outs = []\<rparr> = (0, s')"
    unfolding linux_timer_main_def
    using s'(1) assms(1)
    by (simp add: io_simps getTicks_def tk_os_def ms_of_def ns_def g_timerValueSec_def g_timerIntervalSec_def g_maxCallbackCount_def)
  with s'(2) show ?thesis by blast
qed

theorem linux_timer_reports_witness:
  "\<exists>s'. run_state (linux_timer_main tk_os \<lparr>it_value = ns_ts 0, it_interval = ns_ts 0\<rparr>)
        \<lparr>kern = \<lparr>tk_now = 0, tk_next = 0, tk_int = 0, tk_ticks = 0, tk_late = replicate 10 1000000\<rparr>, errno = 0, outs = []\<rparr> = (0, s')
    \<and> take 2 (outs s') = [Printf ''%.3f timer is ready\<newline>'' [FInt 3001], Printf (TAB # ''it_value: %lld\<newline>'') [FInt 2999]]"
proof -
  have "take 2 (ready_logs (ms_of (ns_ts 0)) 3000000000 (0 + 3000000000) (replicate 10 1000000))
      = [Printf ''%.3f timer is ready\<newline>'' [FInt 3001], Printf (TAB # ''it_value: %lld\<newline>'') [FInt 2999]]"
    by code_simp
  with linux_timer_reports [of "replicate 10 1000000" "\<lparr>it_value = ns_ts 0, it_interval = ns_ts 0\<rparr>" 0 0 0 0 0]
  show ?thesis by auto
qed

section \<open>timer/posix\<close>

record 'k ptimer_os =
  t_create :: "('k, int) kcall"
  t_settime :: "int \<Rightarrow> itimerspec \<Rightarrow> ('k, int) kcall"
  t_gettime :: "int \<Rightarrow> ('k, itimerspec) kcall"
  t_getoverrun :: "int \<Rightarrow> ('k, int) kcall"
  t_delete :: "int \<Rightarrow> ('k, int) kcall"

definition posix_timerValueSec :: int where "posix_timerValueSec = 2"
definition posix_timerIntervalSec :: int where "posix_timerIntervalSec = 2"
definition posix_maxCallbackCount :: int where "posix_maxCallbackCount = 10"

text \<open>\<open>_timerCallback\<close> up to its \<open>sleep\<close>: what it prints of the timer.\<close>

definition callback_report :: "'k ptimer_os \<Rightarrow> int \<Rightarrow> int \<Rightarrow> ('k, unit) io" where
  "callback_report os timerId tid = do {
     _ \<leftarrow> printf (TAB # ''%d: start  timer callback\<newline>'') [FInt tid];
     r \<leftarrow> sysopt (t_gettime os timerId);
     _ \<leftarrow> (case r of
         None \<Rightarrow> do { e \<leftarrow> get_errno; printf (TAB # ''timer_gettime failed, errno: %d\<newline>'') [FInt e] }
       | Some ts \<Rightarrow> do {
           _ \<leftarrow> printf (TAB # ''it_value: %lld\<newline>'') [FInt (ms_of (it_value ts))];
           printf (TAB # ''it_interval: %lld\<newline>'') [FInt (ms_of (it_interval ts))] });
     n \<leftarrow> sys (t_getoverrun os timerId);
     if n = -1 then do { e \<leftarrow> get_errno; printf (TAB # ''timer_getoverrun failed, errno: %d\<newline>'') [FInt e] }
     else printf (TAB # ''timer_getoverrun return %d\<newline>'') [FInt n] }"

text \<open>\<open>main\<close> up to its loop: the status it returns, or the timer that is armed.\<close>

definition posix_timer_setup :: "'k ptimer_os \<Rightarrow> int \<Rightarrow> ('k, int + int) io" where
  "posix_timer_setup os tid = do {
     _ \<leftarrow> printf ''main tid is %d\<newline>'' [FInt tid];
     r \<leftarrow> sysopt (t_create os);
     (case r of
        None \<Rightarrow> do { e \<leftarrow> get_errno; _ \<leftarrow> printf ''timer_create returned -1, errno is %d\<newline>'' [FInt e]; ret (Inl (-1)) }
      | Some timerId \<Rightarrow> do {
          rt \<leftarrow> sys (t_settime os timerId \<lparr>it_value = \<lparr>tv_sec = posix_timerValueSec, tv_nsec = 0\<rparr>,
                  it_interval = \<lparr>tv_sec = posix_timerIntervalSec, tv_nsec = 0\<rparr>\<rparr>);
          if rt = -1 then do {
            e \<leftarrow> get_errno;
            _ \<leftarrow> printf ''timer_settime failed, errno is %d\<newline>'' [FInt e];
            ret (Inl (-1)) }
          else ret (Inr timerId) }) }"

text \<open>
  The armed program: \<open>main\<close> in its loop and a thread per expiration. \<open>g_callbackCount++\<close> is a
  load and a store of a plain \<open>int\<close>. Thread \<open>i\<close> has the id \<open>tid i\<close>.
\<close>

datatype cb_pc = Cb_Start | Cb_Sleep | Cb_Load | Cb_Store int | Cb_Print | Cb_Done

datatype ptmain_pc = PM_Loop | PM_Delete | PM_Exit

record 'k pt =
  pt_proc :: "'k proc"
  pt_count :: int
  pt_cbs :: "cb_pc list"
  pt_main :: ptmain_pc

definition pt_init :: "'k pt \<Rightarrow> bool" where
  "pt_init s \<longleftrightarrow> pt_count s = 0 \<and> pt_cbs s = [] \<and> pt_main s = PM_Loop"

inductive callback_step :: "'k ptimer_os \<Rightarrow> int \<Rightarrow> (nat \<Rightarrow> int) \<Rightarrow> nat \<Rightarrow> 'k pt \<Rightarrow> 'k pt \<Rightarrow> bool"
  for os timerId tid i where
  cb_report: "pt_cbs s ! i = Cb_Start \<Longrightarrow> callback_step os timerId tid i s
    (s\<lparr>pt_proc := snd (run_state (callback_report os timerId (tid i)) (pt_proc s)), pt_cbs := (pt_cbs s)[i := Cb_Sleep]\<rparr>)"
| cb_awake: "pt_cbs s ! i = Cb_Sleep \<Longrightarrow> callback_step os timerId tid i s (s\<lparr>pt_cbs := (pt_cbs s)[i := Cb_Load]\<rparr>)"
| cb_load: "pt_cbs s ! i = Cb_Load \<Longrightarrow> callback_step os timerId tid i s
    (s\<lparr>pt_cbs := (pt_cbs s)[i := Cb_Store (pt_count s)]\<rparr>)"
| cb_store: "pt_cbs s ! i = Cb_Store c \<Longrightarrow> callback_step os timerId tid i s
    (s\<lparr>pt_count := c + 1, pt_cbs := (pt_cbs s)[i := Cb_Print]\<rparr>)"
| cb_print: "pt_cbs s ! i = Cb_Print \<Longrightarrow> callback_step os timerId tid i s
    (s\<lparr>pt_proc := snd (run_state (printf (TAB # TAB # ''%d: finish timer callback\<newline>'') [FInt (tid i)]) (pt_proc s)),
       pt_cbs := (pt_cbs s)[i := Cb_Done]\<rparr>)"

inductive posix_timer_step :: "'k ptimer_os \<Rightarrow> int \<Rightarrow> (nat \<Rightarrow> int) \<Rightarrow> 'k pt \<Rightarrow> 'k pt \<Rightarrow> bool"
  for os timerId tid where
  pt_expire: "pt_main s \<noteq> PM_Exit \<Longrightarrow> posix_timer_step os timerId tid s (s\<lparr>pt_cbs := pt_cbs s @ [Cb_Start]\<rparr>)"
| pt_callback: "pt_main s \<noteq> PM_Exit \<Longrightarrow> i < length (pt_cbs s) \<Longrightarrow> callback_step os timerId tid i s t
    \<Longrightarrow> posix_timer_step os timerId tid s t"
| pt_again: "pt_main s = PM_Loop \<Longrightarrow> pt_count s < posix_maxCallbackCount \<Longrightarrow> posix_timer_step os timerId tid s s"
| pt_leave: "pt_main s = PM_Loop \<Longrightarrow> \<not> pt_count s < posix_maxCallbackCount
    \<Longrightarrow> posix_timer_step os timerId tid s (s\<lparr>pt_main := PM_Delete\<rparr>)"
| pt_exit: "pt_main s = PM_Delete \<Longrightarrow> posix_timer_step os timerId tid s
    (s\<lparr>pt_proc := snd (run_state (sys (t_delete os timerId)) (pt_proc s)), pt_main := PM_Exit\<rparr>)"

text \<open>A callback has counted when its store is behind it.\<close>

definition counted :: "cb_pc \<Rightarrow> bool" where
  "counted p \<longleftrightarrow> p = Cb_Print \<or> p = Cb_Done"

abbreviation callbacks_counted :: "'k pt \<Rightarrow> nat" where
  "callbacks_counted s \<equiv> length (filter counted (pt_cbs s))"

definition pt_inv :: "'k pt \<Rightarrow> bool" where
  "pt_inv s \<longleftrightarrow> 0 \<le> pt_count s \<and> pt_count s \<le> int (callbacks_counted s)
    \<and> (\<forall>c. Cb_Store c \<in> set (pt_cbs s) \<longrightarrow> 0 \<le> c \<and> c \<le> int (callbacks_counted s))
    \<and> (pt_main s \<noteq> PM_Loop \<longrightarrow> posix_maxCallbackCount \<le> int (callbacks_counted s))"

lemma filter_counted_update:
  assumes "i < length ps" and "\<not> counted (ps ! i)"
  shows "length (filter counted (ps[i := p])) = length (filter counted ps) + (if counted p then 1 else 0)"
  using assms by (subst (2) id_take_nth_drop [OF assms(1)]) (simp add: upd_conv_take_nth_drop)

lemma filter_counted_done:
  assumes "i < length ps" and "ps ! i = Cb_Print"
  shows "length (filter counted (ps[i := Cb_Done])) = length (filter counted ps)"
  using assms by (subst (2) id_take_nth_drop [OF assms(1)]) (simp add: upd_conv_take_nth_drop counted_def)

lemma callback_step_inv:
  assumes "callback_step os timerId tid i s t" and "i < length (pt_cbs s)" and "pt_inv s"
  shows "pt_inv t"
  using assms
proof (induction rule: callback_step.induct)
  case (cb_store s c)
  then have "0 \<le> c" "c \<le> int (callbacks_counted s)" by (auto simp: pt_inv_def in_set_conv_nth)
  with cb_store show ?case
    by (auto simp: pt_inv_def filter_counted_update counted_def dest!: set_update_subset_insert [THEN subsetD])
qed (auto simp: pt_inv_def filter_counted_update filter_counted_done counted_def
    dest!: set_update_subset_insert [THEN subsetD])

interpretation ptimer: inductive_invariant pt_init "posix_timer_step os timerId tid" pt_inv
  for os :: "'k ptimer_os" and timerId tid
proof
  fix s :: "'k pt"
  assume "pt_init s"
  then show "pt_inv s" by (simp add: pt_init_def pt_inv_def)
next
  fix s t :: "'k pt"
  assume "posix_timer_step os timerId tid s t" and "pt_inv s"
  then show "pt_inv t"
  proof (induction rule: posix_timer_step.induct)
    case (pt_expire s)
    then show ?case by (auto simp: pt_inv_def counted_def)
  next
    case (pt_callback s i t)
    then show ?case by (metis callback_step_inv)
  qed (auto simp: pt_inv_def)
qed

text \<open>The same steps as a function of the part that is scheduled.\<close>

fun callback_exec :: "'k ptimer_os \<Rightarrow> int \<Rightarrow> (nat \<Rightarrow> int) \<Rightarrow> nat \<Rightarrow> 'k pt \<Rightarrow> 'k pt option" where
  "callback_exec os timerId tid i s = (case pt_cbs s ! i of
       Cb_Start \<Rightarrow> Some (s\<lparr>pt_proc := snd (run_state (callback_report os timerId (tid i)) (pt_proc s)),
         pt_cbs := (pt_cbs s)[i := Cb_Sleep]\<rparr>)
     | Cb_Sleep \<Rightarrow> Some (s\<lparr>pt_cbs := (pt_cbs s)[i := Cb_Load]\<rparr>)
     | Cb_Load \<Rightarrow> Some (s\<lparr>pt_cbs := (pt_cbs s)[i := Cb_Store (pt_count s)]\<rparr>)
     | Cb_Store c \<Rightarrow> Some (s\<lparr>pt_count := c + 1, pt_cbs := (pt_cbs s)[i := Cb_Print]\<rparr>)
     | Cb_Print \<Rightarrow> Some (s\<lparr>pt_proc := snd (run_state (printf (TAB # TAB # ''%d: finish timer callback\<newline>'') [FInt (tid i)]) (pt_proc s)),
         pt_cbs := (pt_cbs s)[i := Cb_Done]\<rparr>)
     | Cb_Done \<Rightarrow> None)"

datatype pt_event = Ev_Expire | Ev_Callback nat | Ev_Main

fun posix_timer_exec :: "'k ptimer_os \<Rightarrow> int \<Rightarrow> (nat \<Rightarrow> int) \<Rightarrow> pt_event list \<Rightarrow> 'k pt \<Rightarrow> 'k pt option" where
  "posix_timer_exec os timerId tid [] s = Some s"
| "posix_timer_exec os timerId tid (e # es) s =
     (if pt_main s = PM_Exit then None
      else Option.bind (case e of
          Ev_Expire \<Rightarrow> Some (s\<lparr>pt_cbs := pt_cbs s @ [Cb_Start]\<rparr>)
        | Ev_Callback i \<Rightarrow> if i < length (pt_cbs s) then callback_exec os timerId tid i s else None
        | Ev_Main \<Rightarrow> Some (if pt_main s = PM_Delete
            then s\<lparr>pt_proc := snd (run_state (sys (t_delete os timerId)) (pt_proc s)), pt_main := PM_Exit\<rparr>
            else if pt_count s < posix_maxCallbackCount then s else s\<lparr>pt_main := PM_Delete\<rparr>))
        (posix_timer_exec os timerId tid es))"

lemma callback_exec_sound: "callback_exec os timerId tid i s = Some t \<Longrightarrow> callback_step os timerId tid i s t"
  by (auto split: cb_pc.splits intro: callback_step.intros)

lemma ptmain_loop: "pt_main s \<noteq> PM_Exit \<Longrightarrow> pt_main s \<noteq> PM_Delete \<Longrightarrow> pt_main s = PM_Loop"
  by (cases "pt_main s") auto

lemma posix_timer_exec_sound:
  "posix_timer_exec os timerId tid es s = Some t \<Longrightarrow> (posix_timer_step os timerId tid)\<^sup>*\<^sup>* s t"
proof (induction es arbitrary: s)
  case (Cons e es)
  then obtain u where live: "pt_main s \<noteq> PM_Exit" and u: "posix_timer_exec os timerId tid es u = Some t"
    and e: "(case e of
          Ev_Expire \<Rightarrow> Some (s\<lparr>pt_cbs := pt_cbs s @ [Cb_Start]\<rparr>)
        | Ev_Callback i \<Rightarrow> if i < length (pt_cbs s) then callback_exec os timerId tid i s else None
        | Ev_Main \<Rightarrow> Some (if pt_main s = PM_Delete
            then s\<lparr>pt_proc := snd (run_state (sys (t_delete os timerId)) (pt_proc s)), pt_main := PM_Exit\<rparr>
            else if pt_count s < posix_maxCallbackCount then s else s\<lparr>pt_main := PM_Delete\<rparr>)) = Some u"
    by (auto split: if_splits simp: bind_eq_Some_conv simp del: callback_exec.simps)
  have "posix_timer_step os timerId tid s u"
    using e live ptmain_loop [OF live]
    by (auto split: pt_event.splits if_splits simp del: callback_exec.simps
        intro: posix_timer_step.intros callback_exec_sound)
  from this Cons.IH [OF u] show ?case by (rule converse_rtranclp_into_rtranclp)
qed simp

text \<open>One more expiration whose callback is not disturbed adds one to the count.\<close>

lemma fresh_callback:
  assumes "pt_main s = PM_Loop"
  shows "\<exists>t. (posix_timer_step os timerId tid)\<^sup>*\<^sup>* s t \<and> pt_count t = pt_count s + 1 \<and> pt_main t = PM_Loop"
proof -
  let ?n = "length (pt_cbs s)"
  have "\<exists>t. posix_timer_exec os timerId tid (Ev_Expire # replicate 4 (Ev_Callback ?n)) s = Some t
      \<and> pt_count t = pt_count s + 1 \<and> pt_main t = PM_Loop"
    using assms by (simp add: numeral_eq_Suc)
  then show ?thesis by (meson posix_timer_exec_sound)
qed

lemma posix_timer_leaves:
  assumes "pt_main s = PM_Loop" "posix_maxCallbackCount - pt_count s \<le> int n"
  shows "\<exists>t. (posix_timer_step os timerId tid)\<^sup>*\<^sup>* s t \<and> pt_main t = PM_Delete"
  using assms
proof (induction n arbitrary: s)
  case 0
  then have "posix_timer_step os timerId tid s (s\<lparr>pt_main := PM_Delete\<rparr>)" by (intro pt_leave) auto
  then show ?case by (intro exI [of _ "s\<lparr>pt_main := PM_Delete\<rparr>"]) auto
next
  case (Suc n)
  from fresh_callback [OF Suc.prems(1), of os timerId tid] obtain u
    where u: "(posix_timer_step os timerId tid)\<^sup>*\<^sup>* s u" "pt_count u = pt_count s + 1" "pt_main u = PM_Loop" by blast
  with Suc.IH [of u] Suc.prems(2) show ?case by (auto intro: rtranclp_trans)
qed

text \<open>
  Increments can be lost, and more callbacks start than the limit: their sleep is longer than
  the interval of the timer, and \<open>main\<close> looks at the count only.
\<close>

lemma posix_timer_loses:
  "\<exists>t. (posix_timer_step os timerId tid)\<^sup>*\<^sup>* \<lparr>pt_proc = p, pt_count = 0, pt_cbs = [], pt_main = PM_Loop\<rparr> t
     \<and> pt_count t = 1 \<and> callbacks_counted t = 2"
proof -
  let ?s = "\<lparr>pt_proc = p, pt_count = 0, pt_cbs = [], pt_main = PM_Loop\<rparr>"
  have "\<exists>t. posix_timer_exec os timerId tid
      ([Ev_Expire, Ev_Expire] @ concat (replicate 4 [Ev_Callback 0, Ev_Callback 1])) ?s = Some t
      \<and> pt_count t = 1 \<and> callbacks_counted t = 2"
    by (simp add: numeral_eq_Suc counted_def)
  then show ?thesis by (meson posix_timer_exec_sound)
qed

lemma posix_timer_more_than_max:
  "\<exists>t. (posix_timer_step os timerId tid)\<^sup>*\<^sup>* \<lparr>pt_proc = p, pt_count = 0, pt_cbs = [], pt_main = PM_Loop\<rparr> t
     \<and> pt_main t = PM_Exit \<and> length (filter (\<lambda>c. c \<noteq> Cb_Start) (pt_cbs t)) = 12 \<and> callbacks_counted t = 10"
proof -
  let ?s = "\<lparr>pt_proc = p, pt_count = 0, pt_cbs = [], pt_main = PM_Loop\<rparr>"
  let ?es = "replicate 12 Ev_Expire @ map Ev_Callback [0..<12]
    @ concat (map (\<lambda>i. replicate 4 (Ev_Callback i)) [0..<10]) @ [Ev_Main, Ev_Main]"
  have "\<exists>t. posix_timer_exec os timerId tid ?es ?s = Some t \<and> pt_main t = PM_Exit
      \<and> length (filter (\<lambda>c. c \<noteq> Cb_Start) (pt_cbs t)) = 12 \<and> callbacks_counted t = 10"
    by (simp add: numeral_eq_Suc upt_rec counted_def posix_maxCallbackCount_def)
  then show ?thesis by (meson posix_timer_exec_sound)
qed

text \<open>
  C18. \<open>timer/posix\<close>: whatever the interleaving of the callbacks, whose increments of
  \<open>g_callbackCount\<close> are not protected, \<open>main\<close> returns only when at least ten callbacks have done
  their increment, and as long as \<open>main\<close> is in its loop there is a continuation in which it
  leaves it: lost increments only delay the end.
\<close>

theorem posix_timer_end:
  assumes "reach pt_init (posix_timer_step os timerId tid) s"
  shows "(pt_main s = PM_Exit \<longrightarrow> 10 \<le> callbacks_counted s)
    \<and> (pt_main s = PM_Loop \<longrightarrow> (\<exists>t. (posix_timer_step os timerId tid)\<^sup>*\<^sup>* s t \<and> pt_main t = PM_Exit))"
proof
  from ptimer.inv_reach [OF assms] show "pt_main s = PM_Exit \<longrightarrow> 10 \<le> callbacks_counted s"
    by (auto simp: pt_inv_def posix_maxCallbackCount_def)
  show "pt_main s = PM_Loop \<longrightarrow> (\<exists>t. (posix_timer_step os timerId tid)\<^sup>*\<^sup>* s t \<and> pt_main t = PM_Exit)"
  proof
    assume "pt_main s = PM_Loop"
    moreover have "posix_maxCallbackCount - pt_count s \<le> int (nat (posix_maxCallbackCount - pt_count s))" by linarith
    ultimately obtain t where "(posix_timer_step os timerId tid)\<^sup>*\<^sup>* s t" "pt_main t = PM_Delete"
      using posix_timer_leaves by blast
    with pt_exit [of t os timerId tid] show "\<exists>t. (posix_timer_step os timerId tid)\<^sup>*\<^sup>* s t \<and> pt_main t = PM_Exit"
      by (intro exI [of _ "t\<lparr>pt_proc := snd (run_state (sys (t_delete os timerId)) (pt_proc t)), pt_main := PM_Exit\<rparr>"])
        (auto intro: rtranclp.rtrancl_into_rtrancl)
  qed
qed

definition tm_os :: "unit ptimer_os" where
  "tm_os = \<lparr>t_create = Pair (Inr 0), t_settime = (\<lambda>_ _. Pair (Inr 0)),
     t_gettime = (\<lambda>_. Pair (Inr \<lparr>it_value = ns_ts 1000000000, it_interval = ns_ts 2000000000\<rparr>)),
     t_getoverrun = (\<lambda>_. Pair (Inr 0)), t_delete = (\<lambda>_. Pair (Inr 0))\<rparr>"

theorem posix_timer_end_witness:
  "\<exists>t. (posix_timer_step tm_os 0 int)\<^sup>*\<^sup>*
      \<lparr>pt_proc = \<lparr>kern = (), errno = 0, outs = []\<rparr>, pt_count = 0, pt_cbs = [], pt_main = PM_Loop\<rparr> t \<and> pt_main t = PM_Exit"
  using posix_timer_end [of tm_os 0 int "\<lparr>pt_proc = \<lparr>kern = (), errno = 0, outs = []\<rparr>, pt_count = 0, pt_cbs = [], pt_main = PM_Loop\<rparr>"]
  by (simp add: reach_init pt_init_def)

end
