(* ===== verification/File_Meta.thy ===== *)
theory File_Meta
  imports Date_Format
begin

unbundle bit_operations_syntax

text \<open>
  What the kernel says about files: \<open>io/stat/main.c\<close>, \<open>directory/file_tree_walk/main.c\<close> and
  \<open>directory/base/main.c\<close>. \<open>stat\<close>, \<open>readdir\<close> and the tree of files are parameters;
  \<open>nftw\<close>, \<open>dirname\<close> and \<open>basename\<close> of the C library are definitions.
\<close>

section \<open>File types\<close>

definition S_IFMT :: "32 word" where "S_IFMT = 0xF000"
definition S_IFSOCK :: "32 word" where "S_IFSOCK = 0xC000"
definition S_IFLNK :: "32 word" where "S_IFLNK = 0xA000"
definition S_IFREG :: "32 word" where "S_IFREG = 0x8000"
definition S_IFBLK :: "32 word" where "S_IFBLK = 0x6000"
definition S_IFDIR :: "32 word" where "S_IFDIR = 0x4000"
definition S_IFCHR :: "32 word" where "S_IFCHR = 0x2000"
definition S_IFIFO :: "32 word" where "S_IFIFO = 0x1000"

lemmas S_IF_defs = S_IFMT_def S_IFSOCK_def S_IFLNK_def S_IFREG_def S_IFBLK_def S_IFDIR_def S_IFCHR_def S_IFIFO_def

text \<open>The \<open>switch\<close> of \<open>io/stat\<close>, and the one of the tree walk.\<close>

definition type_name :: "32 word \<Rightarrow> string" where
  "type_name st_mode = (let m = st_mode AND S_IFMT in
     if m = S_IFBLK then ''block device\<newline>''
     else if m = S_IFCHR then ''character device\<newline>''
     else if m = S_IFDIR then ''directory\<newline>''
     else if m = S_IFIFO then ''FIFO/pipe\<newline>''
     else if m = S_IFLNK then ''symlink\<newline>''
     else if m = S_IFREG then ''regular file\<newline>''
     else if m = S_IFSOCK then ''socket\<newline>''
     else ''unknown?\<newline>'')"

definition type_letter :: "32 word \<Rightarrow> string" where
  "type_letter st_mode = (let m = st_mode AND S_IFMT in
     if m = S_IFREG then ''- ''
     else if m = S_IFDIR then ''d ''
     else if m = S_IFCHR then ''c ''
     else if m = S_IFBLK then ''b ''
     else if m = S_IFLNK then ''l ''
     else if m = S_IFIFO then ''p ''
     else if m = S_IFSOCK then ''s ''
     else ''? '')"

text \<open>The types there are, how the kernel encodes them, and what the programs should say.\<close>

datatype file_kind = Regular | Directory | CharDevice | BlockDevice | Symlink | Fifo | Socket

fun kind_code :: "file_kind \<Rightarrow> 32 word" where
  "kind_code Regular = S_IFREG"
| "kind_code Directory = S_IFDIR"
| "kind_code CharDevice = S_IFCHR"
| "kind_code BlockDevice = S_IFBLK"
| "kind_code Symlink = S_IFLNK"
| "kind_code Fifo = S_IFIFO"
| "kind_code Socket = S_IFSOCK"

fun kind_words :: "file_kind \<Rightarrow> string \<times> string" where
  "kind_words Regular = (''regular file\<newline>'', ''- '')"
| "kind_words Directory = (''directory\<newline>'', ''d '')"
| "kind_words CharDevice = (''character device\<newline>'', ''c '')"
| "kind_words BlockDevice = (''block device\<newline>'', ''b '')"
| "kind_words Symlink = (''symlink\<newline>'', ''l '')"
| "kind_words Fifo = (''FIFO/pipe\<newline>'', ''p '')"
| "kind_words Socket = (''socket\<newline>'', ''s '')"

lemma kind_of_mode:
  assumes "perms AND S_IFMT = 0"
  shows "(kind_code k OR perms) AND S_IFMT = kind_code k"
proof -
  have "(kind_code k OR perms) AND S_IFMT = (kind_code k AND S_IFMT) OR (perms AND S_IFMT)"
    by (simp add: bit.conj_disj_distrib2)
  also have "kind_code k AND S_IFMT = kind_code k" by (cases k) (simp_all add: S_IF_defs)
  finally show ?thesis using assms by simp
qed

lemma type_words: "perms AND S_IFMT = 0 \<Longrightarrow> (type_name (kind_code k OR perms), type_letter (kind_code k OR perms)) = kind_words k"
  unfolding type_name_def type_letter_def Let_def
  by (simp only: kind_of_mode) (cases k; simp add: S_IF_defs)

section \<open>io/stat\<close>

record stat =
  st_mode :: "32 word"
  st_ino :: int
  st_nlink :: int
  st_blksize :: int
  st_size :: int
  st_blocks :: int
  st_ctime :: int
  st_atime :: int
  st_mtime :: int

record 'k stat_os =
  w_stat :: "string \<Rightarrow> ('k, stat) kcall"
  w_lstat :: "string \<Rightarrow> ('k, stat) kcall"

text \<open>\<open>printf\<close> of a null pointer with \<open>%s\<close>, as the GNU library does it; \<open>off\<close> is the time zone.\<close>

definition ctime :: "zone \<Rightarrow> int \<Rightarrow> string" where
  "ctime off t = (case ctime_r off t of None \<Rightarrow> ''(null)'' | Some x \<Rightarrow> x)"

definition show_stat :: "zone \<Rightarrow> stat \<Rightarrow> ('k, unit) io" where
  "show_stat off sb = do {
     _ \<leftarrow> printf (type_name (st_mode sb)) [];
     _ \<leftarrow> printf ''I-node number:            %ld\<newline>'' [FInt (st_ino sb)];
     _ \<leftarrow> printf ''Mode:                     %lo (octal)\<newline>'' [FInt (uint (st_mode sb))];
     _ \<leftarrow> printf ''Link count:               %ld\<newline>'' [FInt (st_nlink sb)];
     _ \<leftarrow> printf ''Preferred I/O block size: %ld bytes\<newline>'' [FInt (st_blksize sb)];
     _ \<leftarrow> printf ''File size:                %lld bytes\<newline>'' [FInt (st_size sb)];
     _ \<leftarrow> printf ''Blocks allocated:         %lld\<newline>'' [FInt (st_blocks sb)];
     _ \<leftarrow> printf ''Last status change:       %s'' [FStr (ctime off (st_ctime sb))];
     _ \<leftarrow> printf ''Last file access:         %s'' [FStr (ctime off (st_atime sb))];
     printf ''Last file modification:   %s'' [FStr (ctime off (st_mtime sb))] }"

definition stat_usage :: string where
  "stat_usage = ''usage: %s [-l] file\<newline>'' @ TAB # ''default will use stat()\<newline>'' @ TAB # ''add -l will use lstat()\<newline>''"

definition stat_main :: "'k stat_os \<Rightarrow> zone \<Rightarrow> string list \<Rightarrow> ('k, int) io" where
  "stat_main os off argv =
     (if length argv = 1 \<or> (length argv > 1 \<and> (argv ! 1 = ''-h'' \<or> argv ! 1 = ''--help'')) then do {
        _ \<leftarrow> printf stat_usage [FStr (argv ! 0)];
        ret (-1) }
      else do {
        let useLStat = (length argv > 2 \<and> argv ! 1 = ''-l'');
        let fileName = (if useLStat then argv ! 2 else argv ! 1);
        _ \<leftarrow> printf (if useLStat then ''will use lstat file: %s\<newline>'' else ''will use stat file: %s\<newline>'') [FStr fileName];
        r \<leftarrow> sysopt (if useLStat then w_lstat os fileName else w_stat os fileName);
        (case r of
           None \<Rightarrow> do { e \<leftarrow> get_errno; _ \<leftarrow> printf ''stat or lstat failed, errno: %d\<newline>'' [FInt e]; ret (-1) }
         | Some sb \<Rightarrow> do { _ \<leftarrow> show_stat off sb; ret 0 }) })"

lemma outs_show_stat: "\<exists>s'. run_state (show_stat off sb) s = ((), s') \<and> length (outs s') = length (outs s) + 10
    \<and> outs s' ! length (outs s) = Printf (type_name (st_mode sb)) [] \<and> kern s' = kern s"
  by (simp add: show_stat_def io_simps nth_append)

lemma stat_reports:
  assumes "argv = [prog, ''-l'', f] \<and> call = w_lstat os \<or> argv = [prog, f] \<and> f \<notin> {''-h'', ''--help''} \<and> call = w_stat os"
    and "call f (kern s) = (Inr sb, k)" and "st_mode sb = kind_code kind OR perms" and "perms AND S_IFMT = 0"
  shows "\<exists>s'. run_state (stat_main os off argv) s = (0, s')
    \<and> outs s' ! (length (outs s) + 1) = Printf (fst (kind_words kind)) []"
proof -
  let ?msg = "if length argv = 3 then ''will use lstat file: %s\<newline>'' else ''will use stat file: %s\<newline>''"
  let ?s1 = "s\<lparr>outs := outs s @ [Printf ?msg [FStr f]], kern := k\<rparr>"
  obtain s' where s': "run_state (show_stat off sb) ?s1 = ((), s')"
      "outs s' ! length (outs ?s1) = Printf (type_name (st_mode sb)) []"
    using outs_show_stat [of off sb ?s1] by blast
  have "run_state (stat_main os off argv) s = (0, s')"
    using assms(1,2) s'(1) by (auto simp: stat_main_def io_simps Let_def)
  moreover have "type_name (st_mode sb) = fst (kind_words kind)"
    using type_words [OF assms(4), of kind] assms(3) by (metis fst_conv)
  ultimately show ?thesis using s'(2) by simp
qed

section \<open>directory/file_tree_walk\<close>

text \<open>
  The tree as \<open>nftw\<close> sees it: names, modes, sizes, the type flag of the walk, and for a
  directory its entries in the order of \<open>readdir\<close>. (Symbolic links are followed, and a
  directory that was visited before is not an entry again.)
\<close>

datatype ftree = FNode (fn_name: string) (fn_mode: "32 word") (fn_size: int) (fn_flag: int) (fn_kids: "ftree list")

definition FTW_F :: int where "FTW_F = 0"
definition FTW_D :: int where "FTW_D = 1"
definition FTW_DNR :: int where "FTW_DNR = 2"
definition FTW_NS :: int where "FTW_NS = 3"
definition FTW_SL :: int where "FTW_SL = 4"
definition FTW_DP :: int where "FTW_DP = 5"
definition FTW_SLN :: int where "FTW_SLN = 6"

lemmas FTW_defs = FTW_F_def FTW_D_def FTW_DNR_def FTW_NS_def FTW_SL_def FTW_DP_def FTW_SLN_def

definition FTW_SKIP_SUBTREE :: int where "FTW_SKIP_SUBTREE = 2"
definition FTW_SKIP_SIBLINGS :: int where "FTW_SKIP_SIBLINGS = 3"

definition flag_word :: "int \<Rightarrow> string" where
  "flag_word typeFlag =
     (if typeFlag = FTW_D then ''D'' else if typeFlag = FTW_DNR then ''DNR'' else if typeFlag = FTW_DP then ''DP''
      else if typeFlag = FTW_F then ''F'' else if typeFlag = FTW_SL then ''SL'' else if typeFlag = FTW_SLN then ''SLN''
      else if typeFlag = FTW_NS then ''NS'' else ''?'') @ [TAB]"

definition walkInfo :: "string \<Rightarrow> 32 word \<Rightarrow> int \<Rightarrow> int \<Rightarrow> nat \<Rightarrow> ('k, int) io" where
  "walkInfo pathName mode sz typeFlag base = do {
     _ \<leftarrow> printf (type_letter mode) [];
     _ \<leftarrow> printf (flag_word typeFlag) [];
     _ \<leftarrow> (if typeFlag = FTW_NS then printf ''-------'' [] else printf ''%7jd'' [FInt sz]);
     let basePath = drop base pathName;
     _ \<leftarrow> printf ''   %s(%s)\<newline>'' [FStr pathName, FStr basePath];
     if basePath = ''.git'' then do {
       _ \<leftarrow> printf ''skip .git...............................\<newline>'' [];
       ret FTW_SKIP_SUBTREE }
     else ret 0 }"

text \<open>
  \<open>nftw\<close> with the flag \<open>FTW_ACTIONRETVAL\<close>: a directory is reported before its entries; the
  value of the callback says whether to go on, to leave the subtree or the siblings out, or to
  stop with that value.
\<close>

fun nftw_node :: "(string \<Rightarrow> 32 word \<Rightarrow> int \<Rightarrow> int \<Rightarrow> nat \<Rightarrow> ('k, int) io) \<Rightarrow> string \<Rightarrow> nat \<Rightarrow> ftree \<Rightarrow> ('k, int) io"
  and nftw_entries :: "(string \<Rightarrow> 32 word \<Rightarrow> int \<Rightarrow> int \<Rightarrow> nat \<Rightarrow> ('k, int) io) \<Rightarrow> string \<Rightarrow> ftree list \<Rightarrow> ('k, int) io" where
  "nftw_node cb path base (FNode nm md sz fl ts) = do {
     r \<leftarrow> cb path md sz fl base;
     if r \<noteq> 0 then ret r else if fl = FTW_D then nftw_entries cb path ts else ret 0 }"
| "nftw_entries cb path [] = ret 0"
| "nftw_entries cb path (t # ts) = do {
     r \<leftarrow> nftw_node cb (path @ CHR ''/'' # fn_name t) (length path + 1) t;
     if r = 0 \<or> r = FTW_SKIP_SUBTREE then nftw_entries cb path ts
     else if r = FTW_SKIP_SIBLINGS then ret 0 else ret r }"

definition nftw :: "(string \<Rightarrow> ftree option) \<Rightarrow> (string \<Rightarrow> 32 word \<Rightarrow> int \<Rightarrow> int \<Rightarrow> nat \<Rightarrow> ('k, int) io) \<Rightarrow> string \<Rightarrow> nat \<Rightarrow> ('k, int) io" where
  "nftw fs cb path base = (case fs path of
      None \<Rightarrow> ret (-1)
    | Some t \<Rightarrow> do {
        r \<leftarrow> nftw_node cb path base t;
        ret (if r = FTW_SKIP_SUBTREE \<or> r = FTW_SKIP_SIBLINGS then 0 else r) })"

definition fileTreeWalk :: "(string \<Rightarrow> ftree option) \<Rightarrow> string \<Rightarrow> ('k, unit) io" where
  "fileTreeWalk fs dirPath = do {
     r \<leftarrow> nftw fs walkInfo dirPath 0;
     printf ''nftw return %d\<newline>'' [FInt r] }"

definition walk_main :: "(string \<Rightarrow> ftree option) \<Rightarrow> ('k, int) io" where
  "walk_main fs = do { _ \<leftarrow> fileTreeWalk fs ''..''; ret 0 }"

subsection \<open>What the walk reports\<close>

text \<open>
  Nodes by the names that lead to them from the root, and the visible ones: those with no
  directory ``.git'' on the way. In the order of the walk.
\<close>

fun nodes :: "string list \<Rightarrow> ftree \<Rightarrow> (string list \<times> ftree) list"
  and nodes_list :: "string list \<Rightarrow> ftree list \<Rightarrow> (string list \<times> ftree) list" where
  "nodes ns (FNode nm md sz fl ts) = (ns, FNode nm md sz fl ts) # (if fl = FTW_D then nodes_list ns ts else [])"
| "nodes_list ns [] = []"
| "nodes_list ns (t # ts) = nodes (ns @ [fn_name t]) t @ nodes_list ns ts"

fun path_of :: "string list \<Rightarrow> string" where
  "path_of [] = []"
| "path_of [n] = n"
| "path_of (n # ns) = n @ CHR ''/'' # path_of ns"

definition seen :: "string list \<times> ftree \<Rightarrow> bool" where
  "seen x \<longleftrightarrow> ''.git'' \<notin> set (butlast (fst x))"

definition entry_log :: "string list \<times> ftree \<Rightarrow> outev list" where
  "entry_log x = (case x of (ns, t) \<Rightarrow>
     [Printf (type_letter (fn_mode t)) [], Printf (flag_word (fn_flag t)) [],
      (if fn_flag t = FTW_NS then Printf ''-------'' [] else Printf ''%7jd'' [FInt (fn_size t)]),
      Printf ''   %s(%s)\<newline>'' [FStr (path_of ns), FStr (last ns)]]
     @ (if last ns = ''.git'' then [Printf ''skip .git...............................\<newline>'' []] else []))"

lemma path_of_snoc: "ns \<noteq> [] \<Longrightarrow> path_of (ns @ [n]) = path_of ns @ CHR ''/'' # n"
  by (induction ns rule: path_of.induct) auto

lemma nodes_extend:
  "\<forall>x \<in> set (nodes ns t). \<exists>ms. fst x = ns @ ms"
  "\<forall>x \<in> set (nodes_list ns ts). \<exists>m ms. fst x = ns @ m # ms"
proof (induction ns t and ns ts rule: nodes_nodes_list.induct)
  case (3 ns t ts)
  then show ?case by fastforce
qed fastforce+

lemma hidden_below:
  assumes "''.git'' \<in> set ns"
  shows "filter seen (nodes_list ns ts) = []"
proof -
  have "\<not> seen x" if "x \<in> set (nodes_list ns ts)" for x
  proof -
    obtain m ms where "fst x = ns @ m # ms" using nodes_extend(2) \<open>x \<in> _\<close> by blast
    with assms show ?thesis by (simp add: seen_def butlast_append)
  qed
  then show ?thesis by (simp add: filter_empty_conv)
qed

lemma run_walkInfo:
  assumes "drop base (path_of ns) = last ns"
  shows "run_state (walkInfo (path_of ns) md sz fl base) s =
    (if last ns = ''.git'' then FTW_SKIP_SUBTREE else 0,
     s\<lparr>outs := outs s @ entry_log (ns, FNode nm md sz fl ts)\<rparr>)"
  using assms by (simp add: walkInfo_def io_simps Let_def entry_log_def)

lemma nftw_reports:
  "ns \<noteq> [] \<Longrightarrow> ''.git'' \<notin> set (butlast ns) \<Longrightarrow> drop base (path_of ns) = last ns \<Longrightarrow>
    run_state (nftw_node walkInfo (path_of ns) base t) s =
      (if last ns = ''.git'' then FTW_SKIP_SUBTREE else 0,
       s\<lparr>outs := outs s @ concat (map entry_log (filter seen (nodes ns t)))\<rparr>)"
  "ns \<noteq> [] \<Longrightarrow> ''.git'' \<notin> set ns \<Longrightarrow>
    run_state (nftw_entries walkInfo (path_of ns) ts) s =
      (0, s\<lparr>outs := outs s @ concat (map entry_log (filter seen (nodes_list ns ts)))\<rparr>)"
proof (induction ns t and ns ts arbitrary: base s and s rule: nodes_nodes_list.induct)
  case (1 ns nm md sz fl ts)
  have self: "seen (ns, FNode nm md sz fl ts)" using "1.prems" by (simp add: seen_def)
  show ?case
  proof (cases "last ns = ''.git''")
    case True
    then have "''.git'' \<in> set ns" using "1.prems"(1) last_in_set by metis
    with True self hidden_below [of ns ts] run_walkInfo [OF "1.prems"(3), of md sz fl s nm ts] show ?thesis
      by (simp add: FTW_SKIP_SUBTREE_def)
  next
    case False
    have "''.git'' \<notin> set ns"
      using False "1.prems"(1,2) by (metis append_butlast_last_id Un_iff empty_iff list.set(1) set_ConsD set_append)
    with False self "1.IH" "1.prems"(1) run_walkInfo [OF "1.prems"(3), of md sz fl s nm ts] show ?thesis by simp
  qed
next
  case (2 ns)
  then show ?case by simp
next
  case (3 ns t ts)
  let ?ns = "ns @ [fn_name t]"
  have p: "path_of ?ns = path_of ns @ CHR ''/'' # fn_name t" using "3.prems"(1) by (rule path_of_snoc)
  have "run_state (nftw_node walkInfo (path_of ?ns) (length (path_of ns) + 1) t) s =
      (if last ?ns = ''.git'' then FTW_SKIP_SUBTREE else 0,
       s\<lparr>outs := outs s @ concat (map entry_log (filter seen (nodes ?ns t)))\<rparr>)"
    using "3.prems" by (intro "3.IH"(1)) (simp_all add: p)
  with "3.IH"(2) [OF "3.prems"] p show ?case by simp
qed

text \<open>
  C15. \<open>file_tree_walk\<close>: for every tree of files the walk reports, in preorder, exactly the nodes
  that have no ``.git'' above them, each with its type, flag, size and path; a node called ``.git'' is
  itself reported, with a note, and nothing below it. It always runs through: \<open>nftw\<close> returns 0, or
  -1 when the start directory cannot be read at all.
\<close>

theorem walk_reports_visible:
  "run_state (walk_main fs) s = (0, s\<lparr>outs := outs s @
     (case fs ''..'' of
        None \<Rightarrow> [Printf ''nftw return %d\<newline>'' [FInt (-1)]]
      | Some t \<Rightarrow> concat (map entry_log (filter seen (nodes [''..''] t))) @ [Printf ''nftw return %d\<newline>'' [FInt 0]])\<rparr>)"
proof (cases "fs ''..''")
  case (Some t)
  with nftw_reports(1) [of "[''..'']" 0 t s] show ?thesis
    by (simp add: walk_main_def fileTreeWalk_def nftw_def io_simps FTW_SKIP_SUBTREE_def FTW_SKIP_SIBLINGS_def)
qed (simp add: walk_main_def fileTreeWalk_def nftw_def io_simps)

text \<open>
  C29. Both programs that decode \<open>st_mode\<close> name every file type there is correctly, whatever the
  permission bits: the \<open>switch\<close> of \<open>io/stat\<close> with a word, the one of the tree walk with a letter. \<open>io/stat\<close>
  prints it for the file it is given, of the link itself with \<open>-l\<close>.
\<close>

theorem file_types_named:
  assumes "perms AND S_IFMT = 0" and "st_mode sb = kind_code kind OR perms"
    and "w_lstat os f (kern s) = (Inr sb, k)"
  shows "type_letter (st_mode sb) = snd (kind_words kind)
    \<and> (\<exists>s'. run_state (stat_main os off [prog, ''-l'', f]) s = (0, s')
        \<and> outs s' ! (length (outs s) + 1) = Printf (fst (kind_words kind)) [])"
  using type_words [OF assms(1), of kind] stat_reports [of "[prog, ''-l'', f]" prog f "w_lstat os" os s sb k kind perms off] assms
  by (metis snd_conv)

definition one_link :: "unit stat_os" where
  "one_link = \<lparr>w_stat = (\<lambda>_. Pair (Inl ENOENT)),
     w_lstat = (\<lambda>_. Pair (Inr \<lparr>st_mode = 0xA1FF, st_ino = 7, st_nlink = 1, st_blksize = 4096, st_size = 3, st_blocks = 0,
        st_ctime = 0, st_atime = 0, st_mtime = 0\<rparr>))\<rparr>"

definition utc_zone :: zone where
  "utc_zone = \<lparr>z_std = 0, z_dst = 0, z_summer = (\<lambda>_. False)\<rparr>"

theorem file_types_named_witness:
  "\<exists>s'. run_state (stat_main one_link utc_zone [''stat'', ''-l'', ''x'']) \<lparr>kern = (), errno = 0, outs = []\<rparr> = (0, s')
     \<and> outs s' ! 1 = Printf ''symlink\<newline>'' []"
proof -
  let ?sb = "\<lparr>st_mode = 0xA1FF, st_ino = 7, st_nlink = 1, st_blksize = 4096, st_size = 3, st_blocks = 0,
        st_ctime = 0, st_atime = 0, st_mtime = 0\<rparr>"
  show ?thesis
    using file_types_named [of "0x1FF" ?sb Symlink one_link "''x''" "\<lparr>kern = (), errno = 0, outs = []\<rparr>" "()" utc_zone "''stat''"]
    by (simp add: one_link_def S_IF_defs)
qed

end
