(* ===== verification/Directory.thy ===== *)
theory Directory
  imports C_Prelude
begin

text \<open>
  \<open>directory/base/main.c\<close>: the working directory, the parts of a path, the entries of a
  directory. \<open>dirname\<close> and \<open>basename\<close> of the C library work in place: each gives the string
  it returns and what the caller's buffer holds afterwards. The locale \<open>dir_calls\<close> says what
  \<open>opendir\<close> and \<open>readdir\<close> promise.
\<close>

section \<open>Paths\<close>

abbreviation SLASH :: char where "SLASH \<equiv> CHR ''/''"

definition rstrip :: "string \<Rightarrow> string" where
  "rstrip s = rev (dropWhile (\<lambda>c. c = SLASH) (rev s))"

text \<open>\<open>strrchr(s, '/')\<close>: the index of the last slash.\<close>

definition last_slash :: "string \<Rightarrow> nat option" where
  "last_slash s = (if SLASH \<in> set s then Some (length s - Suc (length (takeWhile (\<lambda>c. c \<noteq> SLASH) (rev s)))) else None)"

text \<open>
  \<open>dirname\<close>: the last slash, or the one before when the path ends in slashes; the slashes before
  it are cut too, and a path of slashes alone gives one, or two when there are exactly two.
\<close>

definition dirname :: "string \<Rightarrow> string \<times> string" where
  "dirname s = (let t = (if s \<noteq> [] \<and> last s = SLASH \<and> rstrip s \<noteq> [] then rstrip s else s) in
     case last_slash t of
       None \<Rightarrow> (''.'', s)
     | Some k \<Rightarrow> let d = rstrip (take k s);
                     r = (if d \<noteq> [] then d else if k = 1 then take 2 s else take 1 s)
                 in (r, r))"

text \<open>\<open>basename\<close> of \<open>libgen.h\<close>: trailing slashes are cut off, in the buffer as well.\<close>

definition basename :: "string \<Rightarrow> string \<times> string" where
  "basename s = (if s = [] then (''.'', s)
     else case last_slash s of
       None \<Rightarrow> (s, s)
     | Some k \<Rightarrow>
         if k + 1 < length s then (drop (k + 1) s, s)
         else if rstrip s = [] then ([SLASH], s)
         else (rev (takeWhile (\<lambda>c. c \<noteq> SLASH) (rev (rstrip s))), rstrip s))"

lemma last_slash_app:
  assumes "SLASH \<notin> set b"
  shows "last_slash (d @ SLASH # b) = Some (length d)"
proof -
  have "takeWhile (\<lambda>c. c \<noteq> SLASH) (rev b) = rev b" using assms by (auto simp: takeWhile_eq_all_conv)
  then have "takeWhile (\<lambda>c. c \<noteq> SLASH) (rev (d @ SLASH # b)) = rev b" by (simp add: takeWhile_tail)
  then show ?thesis unfolding last_slash_def by (simp only:) simp
qed

lemma last_slash_none: "SLASH \<notin> set b \<Longrightarrow> last_slash b = None"
  by (simp add: last_slash_def)

lemma rstrip_id: "d = [] \<or> last d \<noteq> SLASH \<Longrightarrow> rstrip d = d"
  by (cases d rule: rev_cases) (auto simp: rstrip_def)

text \<open>The usual path: a directory, a slash and a name.\<close>

lemma dirname_app:
  assumes "SLASH \<notin> set b" and "b \<noteq> []" and "d \<noteq> []" and "last d \<noteq> SLASH"
  shows "dirname (d @ SLASH # b) = (d, d)"
proof -
  have "last (d @ SLASH # b) \<noteq> SLASH" using assms(1,2) by (metis last_appendR last_in_set last_ConsR list.discI)
  then show ?thesis using assms rstrip_id [of d] by (simp add: dirname_def last_slash_app Let_def)
qed

lemma basename_app: "SLASH \<notin> set b \<Longrightarrow> b \<noteq> [] \<Longrightarrow> basename (d @ SLASH # b) = (b, d @ SLASH # b)"
  by (simp add: basename_def last_slash_app)

text \<open>The two parts put together give the path back.\<close>

lemma dirname_basename:
  assumes "SLASH \<notin> set b" and "b \<noteq> []" and "d \<noteq> []" and "last d \<noteq> SLASH"
  shows "fst (dirname (d @ SLASH # b)) @ SLASH # fst (basename (d @ SLASH # b)) = d @ SLASH # b"
  using assms by (simp add: dirname_app basename_app)

section \<open>The program\<close>

record 'k dir_os =
  x_getcwd :: "nat \<Rightarrow> ('k, string) kcall"
  x_realpath :: "string \<Rightarrow> ('k, string) kcall"
  x_opendir :: "string \<Rightarrow> ('k, int) kcall"
  x_readdir :: "int \<Rightarrow> ('k, (string \<times> int) option) kcall"
  x_closedir :: "int \<Rightarrow> ('k, int) kcall"

definition DT_DIR :: int where "DT_DIR = 4"
definition DT_REG :: int where "DT_REG = 8"

text \<open>\<open>absPath\<close> is the buffer \<open>realpath\<close> fills, before it does.\<close>

definition pathTest :: "'k dir_os \<Rightarrow> string \<Rightarrow> string \<Rightarrow> ('k, unit) io" where
  "pathTest os absPath binPath = do {
     _ \<leftarrow> printf ''$0 is %s\<newline>'' [FStr binPath];
     let (dirName, binPath) = dirname binPath;
     _ \<leftarrow> printf ''dirname is %s\<newline>'' [FStr dirName];
     _ \<leftarrow> printf ''binPath is %s\<newline>'' [FStr binPath];
     let (baseName, binPath) = basename binPath;
     _ \<leftarrow> printf ''basename is %s\<newline>'' [FStr baseName];
     _ \<leftarrow> printf ''binPath is %s\<newline>'' [FStr binPath];
     r \<leftarrow> sysopt (x_realpath os binPath);
     printf ''realpath is %s\<newline>'' [FStr (case r of None \<Rightarrow> absPath | Some p \<Rightarrow> p)] }"

definition show_entry :: "string \<times> int \<Rightarrow> outev" where
  "show_entry e = (case e of (d_name, d_type) \<Rightarrow>
     if d_type = DT_DIR then Printf ''[%s] is dir\<newline>'' [FStr d_name]
     else if d_type = DT_REG then Printf ''[%s] is normal type\<newline>'' [FStr d_name]
     else Printf (''[%s] '' @ CHR 0x27 # ''s type is %d\<newline>'') [FStr d_name, FInt d_type])"

text \<open>
  The loop of \<open>dirRead\<close> with a bound on its turns. A failing \<open>readdir\<close> looks like the end; a
  directory that cannot be opened is not tested for: the process is killed (\<open>None\<close>).
\<close>

fun dirRead_loop :: "'k dir_os \<Rightarrow> int \<Rightarrow> nat \<Rightarrow> ('k, unit option) io" where
  "dirRead_loop os dir 0 = ret None"
| "dirRead_loop os dir (Suc fuel) = do {
     r \<leftarrow> sysopt (x_readdir os dir);
     (case r of
        Some (Some e) \<Rightarrow> do { _ \<leftarrow> emit (show_entry e); dirRead_loop os dir fuel }
      | _ \<Rightarrow> ret (Some ())) }"

definition dirRead :: "'k dir_os \<Rightarrow> nat \<Rightarrow> string \<Rightarrow> ('k, unit option) io" where
  "dirRead os fuel dirPath = do {
     d \<leftarrow> sysopt (x_opendir os dirPath);
     (case d of
        None \<Rightarrow> ret None
      | Some dir \<Rightarrow> do {
          r \<leftarrow> dirRead_loop os dir fuel;
          (case r of
             None \<Rightarrow> ret None
           | Some _ \<Rightarrow> do { _ \<leftarrow> sys (x_closedir os dir); ret (Some ()) }) }) }"

definition dir_main :: "'k dir_os \<Rightarrow> nat \<Rightarrow> string \<Rightarrow> string \<Rightarrow> string list \<Rightarrow> ('k, int option) io" where
  "dir_main os fuel buffer absPath argv = do {
     r \<leftarrow> sysopt (x_getcwd os 512);
     _ \<leftarrow> printf ''getcwd return is %s, buffer is %s\<newline>''
       (case r of None \<Rightarrow> [FStr ''(null)'', FStr buffer] | Some d \<Rightarrow> [FStr d, FStr d]);
     _ \<leftarrow> pathTest os absPath (argv ! 0);
     _ \<leftarrow> printf ''\<newline>\<newline>'' [];
     d \<leftarrow> dirRead os fuel ''..'';
     ret (map_option (\<lambda>_. 0) d) }"

section \<open>What is listed\<close>

text \<open>The promise of the directory calls: the entries of a directory, one per call, in some order.\<close>

locale dir_calls =
  fixes os :: "'k dir_os" and entries :: "'k \<Rightarrow> string \<Rightarrow> (string \<times> int) list option"
    and pending :: "'k \<Rightarrow> int \<Rightarrow> (string \<times> int) list option"
  assumes opendir: "entries k p = Some es \<Longrightarrow>
      \<exists>d k'. x_opendir os p k = (Inr d, k') \<and> pending k' = (pending k)(d \<mapsto> es)"
    and readdir: "pending k d = Some es \<Longrightarrow>
      \<exists>k'. x_readdir os d k = (Inr (case es of [] \<Rightarrow> None | e # _ \<Rightarrow> Some e), k') \<and> pending k' = (pending k)(d \<mapsto> tl es)"
    and closedir: "pending k d = Some es \<Longrightarrow>
      \<exists>k'. x_closedir os d k = (Inr 0, k') \<and> pending k' = (pending k)(d := None)"
begin

lemma loop_lists:
  "pending (kern s) d = Some es \<Longrightarrow> length es < fuel \<Longrightarrow>
    \<exists>s'. run_state (dirRead_loop os d fuel) s = (Some (), s') \<and> outs s' = outs s @ map show_entry es
      \<and> pending (kern s') = (pending (kern s))(d \<mapsto> [])"
proof (induction es arbitrary: s fuel)
  case Nil
  then obtain n where n: "fuel = Suc n" by (cases fuel) auto
  from readdir [OF Nil.prems(1)] n show ?case by (auto simp: io_simps)
next
  case (Cons e es)
  then obtain n where n: "fuel = Suc n" "length es < n" by (cases fuel) auto
  obtain k where k: "x_readdir os d (kern s) = (Inr (Some e), k)" "pending k = (pending (kern s))(d \<mapsto> es)"
    using readdir [OF Cons.prems(1)] by auto
  let ?s = "s\<lparr>kern := k, outs := outs s @ [show_entry e]\<rparr>"
  have "pending (kern ?s) d = Some es" using k(2) by simp
  from Cons.IH [OF this n(2)] obtain s' where "run_state (dirRead_loop os d n) ?s = (Some (), s')"
    "outs s' = outs ?s @ map show_entry es" "pending (kern s') = (pending (kern s))(d \<mapsto> [])"
    unfolding k(2) by (auto simp del: fun_upd_apply simp: k(2))
  with k n(1) show ?case by (simp add: io_simps del: fun_upd_apply)
qed

lemma dirRead_lists:
  assumes "entries (kern s) p = Some es" and "length es < fuel"
  shows "\<exists>s'. run_state (dirRead os fuel p) s = (Some (), s') \<and> outs s' = outs s @ map show_entry es
      \<and> (\<exists>d. pending (kern s') = (pending (kern s))(d := None))"
proof -
  obtain d k where k: "x_opendir os p (kern s) = (Inr d, k)" "pending k = (pending (kern s))(d \<mapsto> es)" using opendir [OF assms(1)] by blast
  obtain s1 where s1: "run_state (dirRead_loop os d fuel) (s\<lparr>kern := k\<rparr>) = (Some (), s1)"
    "outs s1 = outs s @ map show_entry es" "pending (kern s1) = (pending k)(d \<mapsto> [])"
    using loop_lists [of "s\<lparr>kern := k\<rparr>" d es fuel] assms(2) k(2) by auto
  obtain k' where "x_closedir os d (kern s1) = (Inr 0, k')" "pending k' = (pending (kern s1))(d := None)"
    using closedir [of "kern s1" d "[]"] s1(3) by auto
  with k s1 show ?thesis by (auto simp: dirRead_def io_simps)
qed

end

text \<open>A file system with directories only.\<close>

record dirtab =
  dt_dirs :: "string \<Rightarrow> (string \<times> int) list option"
  dt_open :: "int \<Rightarrow> (string \<times> int) list option"
  dt_next :: nat

definition dirtab_os :: "dirtab dir_os" where
  "dirtab_os = \<lparr>
     x_getcwd = (\<lambda>n k. (Inr ''/home'', k)), x_realpath = (\<lambda>p k. (Inr p, k)),
     x_opendir = (\<lambda>p k. case dt_dirs k p of None \<Rightarrow> (Inl ENOENT, k)
       | Some es \<Rightarrow> (Inr (int (dt_next k)), k\<lparr>dt_open := (dt_open k)(int (dt_next k) \<mapsto> es), dt_next := Suc (dt_next k)\<rparr>)),
     x_readdir = (\<lambda>d k. case dt_open k d of None \<Rightarrow> (Inl EBADF, k)
       | Some es \<Rightarrow> (Inr (case es of [] \<Rightarrow> None | e # _ \<Rightarrow> Some e), k\<lparr>dt_open := (dt_open k)(d \<mapsto> tl es)\<rparr>)),
     x_closedir = (\<lambda>d k. case dt_open k d of None \<Rightarrow> (Inl EBADF, k) | Some _ \<Rightarrow> (Inr 0, k\<lparr>dt_open := (dt_open k)(d := None)\<rparr>))\<rparr>"

interpretation dirtab: dir_calls dirtab_os dt_dirs dt_open
  by unfold_locales (auto simp: dirtab_os_def)

text \<open>
  The program lists the entries of the parent directory in the order the kernel has them and,
  since \<open>dirname\<close> cuts the path in place, shows the base name of the directory of the program,
  not of the program itself.
\<close>

lemma dir_main_lists:
  assumes "dir_calls os entries pending" and "\<And>k. \<exists>r k'. x_getcwd os 512 k = (r, k') \<and> entries k' = entries k"
    and "\<And>p k. \<exists>r k'. x_realpath os p k = (r, k') \<and> entries k' = entries k"
    and "entries (kern s) ''..'' = Some es" and "length es < fuel"
    and "argv ! 0 = d @ SLASH # b" "SLASH \<notin> set b" "b \<noteq> []" "d \<noteq> []" "last d \<noteq> SLASH"
  shows "\<exists>s' out. run_state (dir_main os fuel buffer absPath argv) s = (Some 0, s')
    \<and> outs s' = outs s @ out @ map show_entry es
    \<and> out ! 2 = Printf ''dirname is %s\<newline>'' [FStr d] \<and> out ! 4 = Printf ''basename is %s\<newline>'' [FStr (fst (basename d))]"
proof -
  obtain r k where k: "x_getcwd os 512 (kern s) = (r, k)" "entries k = entries (kern s)" using assms(2) by blast
  obtain p k' where k': "x_realpath os (snd (basename d)) k = (p, k')" "entries k' = entries k" using assms(3) by blast
  let ?cwd = "Printf ''getcwd return is %s, buffer is %s\<newline>''
       (case r of Inl _ \<Rightarrow> [FStr ''(null)'', FStr buffer] | Inr x \<Rightarrow> [FStr x, FStr x])"
  let ?out = "[?cwd, Printf ''$0 is %s\<newline>'' [FStr (argv ! 0)], Printf ''dirname is %s\<newline>'' [FStr d],
     Printf ''binPath is %s\<newline>'' [FStr d], Printf ''basename is %s\<newline>'' [FStr (fst (basename d))],
     Printf ''binPath is %s\<newline>'' [FStr (snd (basename d))],
     Printf ''realpath is %s\<newline>'' [FStr (case p of Inl _ \<Rightarrow> absPath | Inr x \<Rightarrow> x)], Printf ''\<newline>\<newline>'' []]"
  let ?err = "\<lambda>x e. case x of Inl y \<Rightarrow> y | Inr _ \<Rightarrow> e"
  let ?s = "\<lparr>kern = k', errno = ?err p (?err r (errno s)), outs = outs s @ ?out\<rparr>"
  obtain s' where s': "run_state (dirRead os fuel ''..'') ?s = (Some (), s')" "outs s' = outs ?s @ map show_entry es"
    using dir_calls.dirRead_lists [OF assms(1), of ?s "''..''" es fuel] assms(4,5) k k' by auto
  have dn: "dirname (argv ! 0) = (d, d)" using dirname_app assms(6-10) by simp
  have "run_state (dir_main os fuel buffer absPath argv) s = (Some 0, s')"
    using s'(1) k k' dn
    by (cases r; cases p; cases s) (simp_all add: dir_main_def pathTest_def io_simps split_beta)
  with s'(2) show ?thesis by (intro exI [of _ s'] exI [of _ ?out]) simp
qed

end
