(* ===== verification/File_IO.thy ===== *)
theory File_IO
  imports C_Prelude
begin

text \<open>
  Programs on ordinary files: \<open>io/bigfile\<close> and \<open>other/fread\<close>, which fill a file of more
  than 2 GB, \<open>io/base\<close>, which reads back what it wrote, and \<open>memory/mmap_file\<close>, which
  changes a file through a mapping in a child process.

  The calls are the record \<open>file_os\<close>, an argument of every definition; the locale
  \<open>appending\<close> says what the filling loops rely on. \<open>disk_os\<close> is a file system in memory
  with shared and private mappings and a limit on the bytes one call transfers.
\<close>

section \<open>The calls\<close>

datatype oflag = O_RDONLY | O_WRONLY | O_RDWR | O_CREAT | O_TRUNC | O_EXCL
datatype whence = SEEK_SET | SEEK_CUR | SEEK_END

record 'k file_os =
  f_open :: "string \<Rightarrow> oflag list \<Rightarrow> ('k, int) kcall"
  f_read :: "int \<Rightarrow> nat \<Rightarrow> ('k, char list) kcall"
  f_write :: "int \<Rightarrow> char list \<Rightarrow> ('k, int) kcall"
  f_lseek :: "int \<Rightarrow> int \<Rightarrow> whence \<Rightarrow> ('k, int) kcall"
  f_fstat :: "int \<Rightarrow> ('k, nat) kcall"
  f_close :: "int \<Rightarrow> ('k, int) kcall"
  f_unlink :: "string \<Rightarrow> ('k, int) kcall"
  f_mmap :: "nat \<Rightarrow> bool \<Rightarrow> int \<Rightarrow> ('k, nat) kcall"
  f_msync :: "nat \<Rightarrow> nat \<Rightarrow> ('k, int) kcall"
  f_munmap :: "nat \<Rightarrow> nat \<Rightarrow> ('k, int) kcall"
  f_mem :: "nat \<Rightarrow> 'k \<Rightarrow> char list"
  f_setmem :: "nat \<Rightarrow> char list \<Rightarrow> 'k \<Rightarrow> 'k"

section \<open>Filling a big file: io/bigfile\<close>

definition totalSize :: int where
  "totalSize = 1024 * 1024 * 1024 * 2 + 100"

definition bufferSize :: int where
  "bufferSize = 4096"

text \<open>
  The loop of lines 53 to 81, for a tot \<open>tot\<close> and a buffer of \<open>bs\<close> bytes. It need not
  end, so it has a fuel; \<open>None\<close> means that it was not over after that many turns. The result
  is the size written and \<open>hadError\<close>.
\<close>

fun bigfile_loop :: "'k file_os \<Rightarrow> int \<Rightarrow> int \<Rightarrow> int \<Rightarrow> nat \<Rightarrow> int \<Rightarrow> int \<Rightarrow> bool \<Rightarrow>
    ('k, (int \<times> bool) option) io" where
  "bigfile_loop os fd tot bs 0 i had err = ret (if had < tot then None else Some (had, err))"
| "bigfile_loop os fd tot bs (Suc fuel) i had err =
     (if had < tot then do {
        let i = i + 1;
        let needs = min (tot - had) bs;
        wrote \<leftarrow> sys (f_write os fd (replicate (nat needs) (CHR ''1'')));
        e \<leftarrow> get_errno;
        _ \<leftarrow> (if wrote \<noteq> needs
              then printf ''warning: %lld times: write %lld != %zu, errno is %d\<newline>''
                     [FInt i, FInt wrote, FInt bs, FInt e]
              else ret ());
        let had = had + wrote;
        offSet \<leftarrow> sys (f_lseek os fd 0 SEEK_CUR);
        e \<leftarrow> get_errno;
        err \<leftarrow> (if offSet \<noteq> had then do {
                 _ \<leftarrow> printf ''error: %lld times: lseek had error(%lld != %lld), errno is %d\<newline>''
                        [FInt i, FInt offSet, FInt had, FInt e];
                 ret True }
               else ret err);
        if err \<and> e = 27 then do {
          _ \<leftarrow> printf ''please use _FILE_OFFSET_BITS=64 for support big file\<newline>'' [];
          ret (Some (had, err)) }
        else bigfile_loop os fd tot bs fuel i had err }
      else ret (Some (had, err)))"

text \<open>\<open>main\<close>: \<open>None\<close> when the loop runs out of fuel, otherwise the exit status.\<close>

definition bigfile_head :: "('k, unit) io" where
  "bigfile_head = do {
     _ \<leftarrow> printf ''size of int is %zd\<newline>'' [FInt 4];
     _ \<leftarrow> printf ''size of long is %zd\<newline>'' [FInt 8];
     _ \<leftarrow> printf ''size of long is %zd\<newline>'' [FInt 8];
     _ \<leftarrow> printf ''2G is %lld 0x%llx\<newline>'' [FInt (2 ^ 31), FInt (2 ^ 31)];
     _ \<leftarrow> printf ''4G is %lld 0x%llx\<newline>'' [FInt (2 ^ 32), FInt (2 ^ 32)];
     _ \<leftarrow> printf ''max size_t is 0x%zx\<newline>'' [FInt (2 ^ 64 - 1)];
     printf ''is in 64 %d\<newline>'' [FInt 1] }"

definition bigfile_main :: "'k file_os \<Rightarrow> nat \<Rightarrow> ('k, int option) io" where
  "bigfile_main os fuel = do {
     _ \<leftarrow> bigfile_head;
     fd \<leftarrow> sys (f_open os ''test.txt'' [O_CREAT, O_TRUNC, O_WRONLY]);
     e \<leftarrow> get_errno;
     _ \<leftarrow> printf ''fd is %d, errno is %d\<newline>'' [FInt fd, FInt e];
     if bufferSize > 0x7ffff000 then do {
       _ \<leftarrow> printf ''write will transfer at most 0x7ffff000 (2,147,479,552) bytes\<newline>'' [];
       ret (Some 1) }
     else do {
       _ \<leftarrow> printf ''totalSize  is %lld\<newline>'' [FInt totalSize];
       _ \<leftarrow> printf ''bufferSize is %zu\<newline>'' [FInt bufferSize];
       r \<leftarrow> bigfile_loop os fd totalSize bufferSize fuel 0 0 False;
       case r of None \<Rightarrow> ret None
       | Some (had, err) \<Rightarrow> do {
           _ \<leftarrow> sys (f_close os fd);
           _ \<leftarrow> printf ''after write test, hadError? %d\<newline>'' [FInt (of_bool err)];
           fd \<leftarrow> sys (f_open os ''test.txt'' [O_RDWR]);
           offSet \<leftarrow> sys (f_lseek os fd totalSize SEEK_SET);
           _ \<leftarrow> printf ''offSet is %lld\<newline>'' [FInt offSet];
           offSet \<leftarrow> sys (f_lseek os fd 10 SEEK_SET);
           _ \<leftarrow> printf ''offSet is %lld\<newline>'' [FInt offSet];
           _ \<leftarrow> (if fd > 0 then do {
                   _ \<leftarrow> sys (f_close os fd);
                   sys (f_unlink os ''test.txt'') }
                 else ret 0);
           ret (Some 0) } } }"

text \<open>
  What the loop relies on. In the states \<open>good\<close> the descriptor is at the end of its file; a
  write stores a non-empty prefix of what it is given there and returns its length; \<open>lseek\<close>
  returns the offset. \<open>filedata\<close> is the file as the kernel has it.
\<close>

locale appending =
  fixes os :: "'k file_os" and fd :: int and filedata :: "'k \<Rightarrow> char list" and good :: "'k \<Rightarrow> bool"
  assumes write_some: "good k \<Longrightarrow> bs \<noteq> [] \<Longrightarrow>
      \<exists>n k'. f_write os fd bs k = (Inr (int n), k') \<and> 0 < n \<and> n \<le> length bs
        \<and> filedata k' = filedata k @ take n bs \<and> good k'"
    and lseek_end: "good k \<Longrightarrow>
      \<exists>k'. f_lseek os fd 0 SEEK_CUR k = (Inr (int (length (filedata k))), k')
        \<and> filedata k' = filedata k \<and> good k'"
begin

text \<open>
  Whatever the sizes of the writes, the loop ends after at most as many turns as bytes are
  missing, with exactly the missing bytes written and no error.
\<close>

lemma bigfile_loop_fills:
  assumes "had = int (length (filedata (kern s)))" and "had \<le> tot" and "0 < bs"
    and "nat (tot - had) \<le> fuel" and "good (kern s)"
  shows "\<exists>s'. run_state (bigfile_loop os fd tot bs fuel i had False) s = (Some (tot, False), s')
    \<and> filedata (kern s') = filedata (kern s) @ replicate (nat (tot - had)) (CHR ''1'')"
  using assms
proof (induction fuel arbitrary: s had i)
  case 0
  then show ?case by simp
next
  case (Suc fuel)
  show ?case
  proof (cases "had < tot")
    case True
    let ?needs = "nat (min (tot - had) bs)"
    let ?buf = "replicate ?needs (CHR ''1'')"
    have "?buf \<noteq> []" using True Suc.prems(3) by simp
    from write_some [OF Suc.prems(5) this] obtain n k' where w: "f_write os fd ?buf (kern s) = (Inr (int n), k')"
      and n: "0 < n" "n \<le> ?needs" and d: "filedata k' = filedata (kern s) @ replicate n (CHR ''1'')"
      and "good k'"
      by (auto simp: min_absorb1)
    from lseek_end [OF this(5)] obtain k2 where l: "f_lseek os fd 0 SEEK_CUR k' = (Inr (int (length (filedata k'))), k2)"
      and d2: "filedata k2 = filedata k'" and good: "good k2" by blast
    have had': "had + int n = int (length (filedata k'))" using Suc.prems(1) d by simp
    have "had + int n \<le> tot" using n(2) True by linarith
    have IH: "\<exists>s'. run_state (bigfile_loop os fd tot bs fuel i' (had + int n) False) u = (Some (tot, False), s')
      \<and> filedata (kern s') = filedata (kern s) @ replicate (nat (tot - had)) (CHR ''1'')"
      if "kern u = k2" for u i'
    proof -
      have "replicate (nat (tot - had)) (CHR ''1'')
          = replicate n (CHR ''1'') @ replicate (nat (tot - (had + int n))) (CHR ''1'')"
        using \<open>had + int n \<le> tot\<close> n by (simp add: replicate_add [symmetric] nat_diff_distrib' nat_add_distrib)
      with Suc.IH [of "had + int n" u i'] Suc.prems that had' \<open>had + int n \<le> tot\<close> n d d2 good
      show ?thesis by (auto simp: nat_le_iff)
    qed
    show ?thesis using True w l IH had' by (auto simp: io_simps Let_def)
  next
    case False
    with Suc.prems show ?thesis by simp
  qed
qed

end

section \<open>Filling a big file with stdio: other/fread\<close>

text \<open>
  \<open>fwrite\<close> returns the number of bytes it took, and sets \<open>errno\<close> when it is short; \<open>ftell\<close>
  returns the offset.
\<close>

record 'k stdio_os =
  s_fopen :: "string \<Rightarrow> string \<Rightarrow> ('k, int) kcall"
  s_fwrite :: "int \<Rightarrow> char list \<Rightarrow> 'k \<Rightarrow> (nat \<times> int option) \<times> 'k"
  s_ftell :: "int \<Rightarrow> ('k, int) kcall"
  s_fclose :: "int \<Rightarrow> ('k, int) kcall"

definition fwrite :: "'k stdio_os \<Rightarrow> int \<Rightarrow> char list \<Rightarrow> ('k, int) io" where
  "fwrite os fp bs = State (\<lambda>s. case s_fwrite os fp bs (kern s) of
      ((n, None), k) \<Rightarrow> (int n, s\<lparr>kern := k\<rparr>)
    | ((n, Some e), k) \<Rightarrow> (int n, s\<lparr>kern := k, errno := e\<rparr>))"

lemma run_fwrite [io_simps]:
  "run_state (fwrite os fp bs) s = (case s_fwrite os fp bs (kern s) of
      ((n, None), k) \<Rightarrow> (int n, s\<lparr>kern := k\<rparr>)
    | ((n, Some e), k) \<Rightarrow> (int n, s\<lparr>kern := k, errno := e\<rparr>))"
  by (simp add: fwrite_def)

fun fwrite_loop :: "'k stdio_os \<Rightarrow> int \<Rightarrow> int \<Rightarrow> int \<Rightarrow> nat \<Rightarrow> int \<Rightarrow> int \<Rightarrow> bool \<Rightarrow>
    ('k, (int \<times> bool) option) io" where
  "fwrite_loop os fp tot bs 0 i had err = ret (if had < tot then None else Some (had, err))"
| "fwrite_loop os fp tot bs (Suc fuel) i had err =
     (if had < tot then do {
        let i = i + 1;
        let needs = min (tot - had) bs;
        wrote \<leftarrow> fwrite os fp (replicate (nat needs) (CHR ''1''));
        e \<leftarrow> get_errno;
        _ \<leftarrow> (if wrote \<noteq> needs
              then printf ''warning: %lld times: write %zu != %lld, errno is %d\<newline>''
                     [FInt i, FInt wrote, FInt needs, FInt e]
              else ret ());
        let had = had + wrote;
        offSet \<leftarrow> sys (s_ftell os fp);
        e \<leftarrow> get_errno;
        err \<leftarrow> (if offSet \<noteq> had then do {
                 _ \<leftarrow> printf ''error: %lld times: lseek had error(%lld != %lld), errno is %d\<newline>''
                        [FInt i, FInt offSet, FInt had, FInt e];
                 ret True }
               else ret err);
        if err \<and> e = 27 then do {
          _ \<leftarrow> printf ''please use _FILE_OFFSET_BITS=64 for support big file\<newline>'' [];
          ret (Some (had, err)) }
        else fwrite_loop os fp tot bs fuel i had err }
      else ret (Some (had, err)))"

definition fread_main :: "'k stdio_os \<Rightarrow> nat \<Rightarrow> ('k, int option) io" where
  "fread_main os fuel = do {
     _ \<leftarrow> printf ''totalSize  is %lld\<newline>'' [FInt totalSize];
     _ \<leftarrow> printf ''bufferSize is %zu\<newline>'' [FInt bufferSize];
     pFile \<leftarrow> sysopt (s_fopen os ''test.txt'' ''rb+'');
     case pFile of
       None \<Rightarrow> do {
         e \<leftarrow> get_errno;
         _ \<leftarrow> printf ''fopen failed, errno is %d\<newline>'' [FInt e];
         ret (Some (-1)) }
     | Some fp \<Rightarrow> do {
         r \<leftarrow> fwrite_loop os fp totalSize bufferSize fuel 0 0 False;
         case r of None \<Rightarrow> ret None
         | Some (had, err) \<Rightarrow> do {
             _ \<leftarrow> sys (s_fclose os fp);
             _ \<leftarrow> printf ''after write test, hadError? %d\<newline>'' [FInt (of_bool err)];
             ret (Some 0) } } }"

section \<open>Full disks\<close>

text \<open>
  A descriptor on which no write succeeds any more (a full disk, a descriptor that is not
  open), and neither it nor \<open>lseek\<close> reports \<open>EFBIG\<close>.
\<close>

locale full_disk =
  fixes os :: "'k file_os" and fd :: int and good :: "'k \<Rightarrow> bool"
  assumes write_fails: "good k \<Longrightarrow> \<exists>e k'. f_write os fd bs k = (Inl e, k') \<and> e \<noteq> 27 \<and> good k'"
    and lseek_other: "good k \<Longrightarrow> \<exists>r k'. f_lseek os fd 0 SEEK_CUR k = (r, k') \<and> r \<noteq> Inl 27 \<and> good k'"
begin

lemma bigfile_loop_endless:
  "had < tot \<Longrightarrow> good (kern s) \<Longrightarrow>
     fst (run_state (bigfile_loop os fd tot bs fuel i had err) s) = None"
proof (induction fuel arbitrary: i had err s)
  case (Suc fuel)
  obtain e k' where w: "f_write os fd (replicate (nat (min (tot - had) bs)) (CHR ''1'')) (kern s) = (Inl e, k')"
    and e: "e \<noteq> 27" and "good k'" using write_fails [OF Suc.prems(2)] by blast
  from lseek_other [OF this(3)] obtain r k'' where l: "f_lseek os fd 0 SEEK_CUR k' = (r, k'')"
    and r: "r \<noteq> Inl 27" and g: "good k''" by blast
  have more: "fst (run_state (bigfile_loop os fd tot bs fuel i' h err') u) = None"
    if "h < tot" "kern u = k''" for i' h err' u
    using Suc.IH g that by simp
  define needs where "needs = min (tot - had) bs"
  show ?case
    using Suc.prems(1) w l e r unfolding needs_def [symmetric]
    by (cases r; cases "needs = -1") (simp_all add: io_simps Let_def more needs_def [symmetric])
qed simp

end

text \<open>A stream on which \<open>fwrite\<close> takes nothing.\<close>

locale full_stream =
  fixes os :: "'k stdio_os" and fp :: int and good :: "'k \<Rightarrow> bool"
  assumes fwrite_fails: "good k \<Longrightarrow> \<exists>e k'. s_fwrite os fp bs k = ((0, Some e), k') \<and> e \<noteq> 27 \<and> good k'"
    and ftell_other: "good k \<Longrightarrow> \<exists>r k'. s_ftell os fp k = (r, k') \<and> r \<noteq> Inl 27 \<and> good k'"
begin

lemma fwrite_loop_endless:
  "had < tot \<Longrightarrow> good (kern s) \<Longrightarrow>
     fst (run_state (fwrite_loop os fp tot bs fuel i had err) s) = None"
proof (induction fuel arbitrary: i had err s)
  case (Suc fuel)
  obtain e k' where w: "s_fwrite os fp (replicate (nat (min (tot - had) bs)) (CHR ''1'')) (kern s) = ((0, Some e), k')"
    and e: "e \<noteq> 27" and "good k'" using fwrite_fails [OF Suc.prems(2)] by blast
  from ftell_other [OF this(3)] obtain r k'' where l: "s_ftell os fp k' = (r, k'')"
    and r: "r \<noteq> Inl 27" and g: "good k''" by blast
  have more: "fst (run_state (fwrite_loop os fp tot bs fuel i' had err') u) = None" if "kern u = k''" for i' err' u
    using Suc.IH Suc.prems(1) g that by blast
  define needs where "needs = min (tot - had) bs"
  show ?case
    using Suc.prems(1) w l e r unfolding needs_def [symmetric]
    by (cases r; cases "needs = 0") (simp_all add: io_simps Let_def more needs_def [symmetric])
qed simp

end

end
