(* ===== verification/Mmap_File.thy ===== *)
theory Mmap_File
  imports File_IO
begin

text \<open>
  \<open>memory/mmap_file/main.c\<close> and \<open>io/base/main.c\<close>, and the file system in memory on which
  their runs are evaluated. \<open>_fileContext\<close> stores every chunk it reads at the start of its
  buffer, so it returns the file only when one \<open>read\<close> delivers all of it; both sides of that
  are theorems here.
\<close>

section \<open>memory/mmap\_file\<close>

text \<open>\<open>p[i] += 'A' - 'a'\<close> on a byte.\<close>

definition shift_case :: "char \<Rightarrow> char" where
  "shift_case c = char_of ((of_char c :: nat) + 224)"

definition mem_io :: "('k \<Rightarrow> char list) \<Rightarrow> ('k, char list) io" where
  "mem_io f = State (\<lambda>s. (f (kern s), s))"

definition setmem_io :: "('k \<Rightarrow> 'k) \<Rightarrow> ('k, unit) io" where
  "setmem_io f = State (\<lambda>s. ((), s\<lparr>kern := f (kern s)\<rparr>))"

lemma run_mem_io [io_simps]: "run_state (mem_io f) s = (f (kern s), s)"
  by (simp add: mem_io_def)

lemma run_setmem_io [io_simps]: "run_state (setmem_io f) s = ((), s\<lparr>kern := f (kern s)\<rparr>)"
  by (simp add: setmem_io_def)

text \<open>\<open>_childFunc\<close>; \<open>None\<close> is the missing return value at its end.\<close>

definition childFunc :: "'k file_os \<Rightarrow> nat \<Rightarrow> nat \<Rightarrow> ('k, int option) io" where
  "childFunc os addr mapSize = do {
     p \<leftarrow> mem_io (f_mem os addr);
     _ \<leftarrow> printf (TAB # ''before modify is [%s]\<newline>'') [FStr (cstr p)];
     _ \<leftarrow> setmem_io (f_setmem os addr (map shift_case (take mapSize p)));
     _ \<leftarrow> printf (TAB # ''change upper case by modify addr\<newline>'') [];
     r \<leftarrow> sys (f_msync os addr mapSize);
     if r = -1 then do {
       e \<leftarrow> get_errno;
       _ \<leftarrow> printf ''msync failed, errno is %d\<newline>'' [FInt e];
       ret (Some (-1)) }
     else do {
       r \<leftarrow> sys (f_munmap os addr mapSize);
       if r = -1 then do {
         e \<leftarrow> get_errno;
         _ \<leftarrow> printf ''munmap failed, errno is %d\<newline>'' [FInt e];
         ret (Some (-1)) }
       else ret None } }"

text \<open>
  The read loop of \<open>_fileContext\<close>: every chunk goes to the start of the buffer. Each turn
  that goes on has read at least one byte, so \<open>fileSize\<close> turns are enough.
\<close>

fun fileContext_loop :: "'k file_os \<Rightarrow> int \<Rightarrow> nat \<Rightarrow> nat \<Rightarrow> nat \<Rightarrow> char list \<Rightarrow> ('k, nat \<times> char list) io" where
  "fileContext_loop os fd 0 fsz tot buf = ret (tot, buf)"
| "fileContext_loop os fd (Suc fuel) fsz tot buf =
     (if tot < fsz then do {
        (n, bs) \<leftarrow> sysbuf (f_read os fd (fsz - tot));
        if n < 0 then do {
          e \<leftarrow> get_errno;
          _ \<leftarrow> printf ''read failed, errno is %d\<newline>'' [FInt e];
          ret (tot, buf) }
        else if n = 0 then do {
          _ \<leftarrow> (if tot \<noteq> fsz
                then printf ''read end of file, but totalReadSize(%zu) != fileSize(%zu)\<newline>''
                       [FInt (int tot), FInt (int fsz)]
                else ret ());
          ret (tot, buf) }
        else fileContext_loop os fd fuel fsz (tot + length bs) (bs @ drop (length bs) buf) }
      else ret (tot, buf))"

text \<open>
  \<open>_fileContext\<close>; \<open>None\<close> is the null pointer, \<open>g\<close> the contents of fresh memory. A failing
  \<open>fstat\<close> is not checked; its \<open>sb\<close> is then uninitialised, here of size \<open>u\<close>.
\<close>

definition fileContext :: "'k file_os \<Rightarrow> (nat \<Rightarrow> char) \<Rightarrow> nat \<Rightarrow> string \<Rightarrow> ('k, char list option) io" where
  "fileContext os g u fileName = do {
     fd \<leftarrow> sys (f_open os fileName [O_RDONLY]);
     if fd = -1 then do {
       e \<leftarrow> get_errno;
       _ \<leftarrow> printf ''open %s failed, errno is %d\<newline>'' [FStr fileName, FInt e];
       ret None }
     else do {
       sb \<leftarrow> sysopt (f_fstat os fd);
       let fsz = (case sb of Some n \<Rightarrow> n | None \<Rightarrow> u);
       (tot, buf) \<leftarrow> fileContext_loop os fd fsz fsz 0 (map g [0..<fsz + 1]);
       ret (Some (buf[tot := NUL])) } }"

text \<open>\<open>printf(\"%s\")\<close> of a pointer that may be null.\<close>

definition show_buf :: "char list option \<Rightarrow> farg" where
  "show_buf b = FStr (case b of Some bs \<Rightarrow> cstr bs | None \<Rightarrow> ''(null)'')"

text \<open>
  \<open>main\<close>. The child runs to its end before the parent continues after \<open>wait\<close>; \<open>forks\<close> says
  whether \<open>fork\<close> succeeds and \<open>pageSize\<close> is the answer of \<open>sysconf\<close>.
\<close>

definition mmap_child :: "'k file_os \<Rightarrow> (nat \<Rightarrow> char) \<Rightarrow> nat \<Rightarrow> nat \<Rightarrow> nat \<Rightarrow> ('k, unit) io" where
  "mmap_child os g u addr mapSize = do {
     _ \<leftarrow> printf (TAB # ''child: in\<newline>'') [];
     _ \<leftarrow> childFunc os addr mapSize;
     buff \<leftarrow> fileContext os g u ''test.txt'';
     _ \<leftarrow> printf (TAB # ''child: file context is [%s]\<newline>'') [show_buf buff];
     printf (TAB # ''child: out\<newline>'') [] }"

definition mmap_parent :: "'k file_os \<Rightarrow> (nat \<Rightarrow> char) \<Rightarrow> nat \<Rightarrow> ('k, unit) io" where
  "mmap_parent os g u = do {
     buff \<leftarrow> fileContext os g u ''test.txt'';
     _ \<leftarrow> printf ''parent: file context is [%s]\<newline>'' [show_buf buff];
     printf ''parent: will exit\<newline>'' [] }"

definition mmap_main :: "'k file_os \<Rightarrow> (nat \<Rightarrow> char) \<Rightarrow> nat \<Rightarrow> int \<Rightarrow> bool \<Rightarrow> string list \<Rightarrow> ('k, int) io" where
  "mmap_main os g u pageSize forks argv =
     (if length argv > 1 \<and> (argv ! 1 = ''--help'' \<or> argv ! 1 = ''-h'') then do {
        _ \<leftarrow> printf ''as default will use shared mmap\<newline>'' [];
        _ \<leftarrow> printf ''if argc > 1 will use private mmap\<newline>'' [];
        ret 0 }
      else do {
        let usePrivate = length argv > 1;
        _ \<leftarrow> printf ''will use %s flag for mmap\<newline>'' [FStr (if usePrivate then ''private'' else ''shared'')];
        _ \<leftarrow> printf ''page size is %ld\<newline>'' [FInt pageSize];
        fd \<leftarrow> sys (f_open os ''test.txt'' [O_CREAT, O_TRUNC, O_RDWR]);
        if fd = -1 then do {
          e \<leftarrow> get_errno;
          _ \<leftarrow> printf ''open %s failed, errno is %d\<newline>'' [FStr ''test.txt'', FInt e];
          ret (-1) }
        else do {
          let mapSize = length ''abcdefgh'';
          _ \<leftarrow> sys (f_write os fd ''abcdefgh'');
          addr \<leftarrow> sysopt (f_mmap os mapSize usePrivate fd);
          e \<leftarrow> get_errno;
          _ \<leftarrow> sys (f_close os fd);
          e \<leftarrow> get_errno;
          case addr of
            None \<Rightarrow> do {
              _ \<leftarrow> printf ''mmap failed, errno is %d\<newline>'' [FInt e];
              ret (-1) }
          | Some a \<Rightarrow> do {
              _ \<leftarrow> printf ''mmap return %p\<newline>'' [FInt (int a)];
              if \<not> forks then do {
                _ \<leftarrow> printf ''fork error\<newline>'' [];
                ret (-1) }
              else do {
                _ \<leftarrow> mmap_child os g u a mapSize;
                _ \<leftarrow> mmap_parent os g u;
                ret 0 } } } })"

section \<open>\<open>_fileContext\<close>\<close>

text \<open>More fuel than bytes to read changes nothing.\<close>

lemma fileContext_loop_fuel:
  "fsz - tot \<le> fuel \<Longrightarrow> run_state (fileContext_loop os fd (Suc fuel) fsz tot buf) s
     = run_state (fileContext_loop os fd fuel fsz tot buf) s"
proof (induction fuel arbitrary: tot buf s)
  case (Suc fuel)
  show ?case
  proof (cases "tot < fsz")
    case True
    then show ?thesis
      using Suc.IH Suc.prems
      by (subst (1 2) fileContext_loop.simps(2))
        (auto simp: io_simps split: prod.splits sum.splits simp del: fileContext_loop.simps)
  qed simp
qed simp

section \<open>io/base\<close>

text \<open>The read loop: one byte at a time, into a byte that is cleared before.\<close>

fun base_loop :: "'k file_os \<Rightarrow> int \<Rightarrow> nat \<Rightarrow> ('k, unit) io" where
  "base_loop os fd 0 = ret ()"
| "base_loop os fd (Suc n) = do {
     (readSize, bs) \<leftarrow> sysbuf (f_read os fd 1);
     _ \<leftarrow> printf ''read size is %zd, read char is %c\<newline>'' [FInt readSize, FChar (case bs of [] \<Rightarrow> NUL | b # _ \<Rightarrow> b)];
     base_loop os fd n }"

definition base_main :: "'k file_os \<Rightarrow> ('k, int) io" where
  "base_main os = do {
     fd \<leftarrow> sys (f_open os ''test.txt'' [O_RDWR, O_CREAT, O_TRUNC]);
     e \<leftarrow> get_errno;
     _ \<leftarrow> printf ''open new file fd is %d, errno is %d\<newline>'' [FInt fd, FInt e];
     if fd = -1 then ret (-1)
     else do {
       writeSize \<leftarrow> sys (f_write os fd ''abcd'');
       _ \<leftarrow> printf ''write size is %zd\<newline>'' [FInt writeSize];
       _ \<leftarrow> sys (f_lseek os fd 0 SEEK_SET);
       _ \<leftarrow> base_loop os fd (nat (writeSize + 3));
       _ \<leftarrow> sys (f_close os fd);
       _ \<leftarrow> sys (f_unlink os ''test.txt'');
       ret 0 } }"

section \<open>A file system in memory\<close>

text \<open>
  Files by name, descriptors with their offsets, mappings (a private one has its own copy),
  the next number to hand out, and the most bytes a read or write transfers.
\<close>

record disk =
  dfiles :: "string \<Rightarrow> char list option"
  dfds :: "int \<Rightarrow> (string \<times> nat) option"
  dmaps :: "nat \<Rightarrow> (string \<times> nat \<times> char list option) option"
  dnext :: nat
  dchunk :: nat

definition disk_open :: "string \<Rightarrow> oflag list \<Rightarrow> (disk, int) kcall" where
  "disk_open name fl d =
     (if dfiles d name = None \<and> O_CREAT \<notin> set fl then (Inl ENOENT, d)
      else (Inr (int (dnext d)),
        d\<lparr>dfiles := (dfiles d)(name := Some (if O_TRUNC \<in> set fl then [] else
                        case dfiles d name of None \<Rightarrow> [] | Some c \<Rightarrow> c)),
          dfds := (dfds d)(int (dnext d) := Some (name, 0)), dnext := Suc (dnext d)\<rparr>))"

definition file_of :: "disk \<Rightarrow> string \<Rightarrow> char list" where
  "file_of d name = (case dfiles d name of Some c \<Rightarrow> c | None \<Rightarrow> [])"

definition disk_read :: "int \<Rightarrow> nat \<Rightarrow> (disk, char list) kcall" where
  "disk_read fd n d = (case dfds d fd of
      None \<Rightarrow> (Inl EBADF, d)
    | Some (name, off) \<Rightarrow>
        (let bs = take (min n (dchunk d)) (drop off (file_of d name)) in
         (Inr bs, d\<lparr>dfds := (dfds d)(fd := Some (name, off + length bs))\<rparr>)))"

definition disk_write :: "int \<Rightarrow> char list \<Rightarrow> (disk, int) kcall" where
  "disk_write fd buf d = (case dfds d fd of
      None \<Rightarrow> (Inl EBADF, d)
    | Some (name, off) \<Rightarrow>
        (let bs = take (dchunk d) buf; c = file_of d name;
             c' = take off (c @ replicate (off - length c) NUL) @ bs @ drop (off + length bs) c in
         (Inr (int (length bs)),
          d\<lparr>dfiles := (dfiles d)(name := Some c'), dfds := (dfds d)(fd := Some (name, off + length bs))\<rparr>)))"

definition disk_lseek :: "int \<Rightarrow> int \<Rightarrow> whence \<Rightarrow> (disk, int) kcall" where
  "disk_lseek fd delta w d = (case dfds d fd of
      None \<Rightarrow> (Inl EBADF, d)
    | Some (name, off) \<Rightarrow>
        (let base = (case w of SEEK_SET \<Rightarrow> 0 | SEEK_CUR \<Rightarrow> int off | SEEK_END \<Rightarrow> int (length (file_of d name))) in
         if base + delta < 0 then (Inl EINVAL, d)
         else (Inr (base + delta), d\<lparr>dfds := (dfds d)(fd := Some (name, nat (base + delta)))\<rparr>)))"

definition disk_fstat :: "int \<Rightarrow> (disk, nat) kcall" where
  "disk_fstat fd d = (case dfds d fd of
      None \<Rightarrow> (Inl EBADF, d) | Some (name, off) \<Rightarrow> (Inr (length (file_of d name)), d))"

definition disk_close :: "int \<Rightarrow> (disk, int) kcall" where
  "disk_close fd d = (if dfds d fd = None then (Inl EBADF, d) else (Inr 0, d\<lparr>dfds := (dfds d)(fd := None)\<rparr>))"

definition disk_unlink :: "string \<Rightarrow> (disk, int) kcall" where
  "disk_unlink name d = (if dfiles d name = None then (Inl ENOENT, d)
     else (Inr 0, d\<lparr>dfiles := (dfiles d)(name := None)\<rparr>))"

definition disk_mmap :: "nat \<Rightarrow> bool \<Rightarrow> int \<Rightarrow> (disk, nat) kcall" where
  "disk_mmap n private fd d = (case dfds d fd of
      None \<Rightarrow> (Inl EBADF, d)
    | Some (name, off) \<Rightarrow> (Inr (dnext d),
        d\<lparr>dmaps := (dmaps d)(dnext d := Some (name, n, if private then Some (take n (file_of d name)) else None)),
          dnext := Suc (dnext d)\<rparr>))"

definition disk_mem :: "nat \<Rightarrow> disk \<Rightarrow> char list" where
  "disk_mem a d = (case dmaps d a of None \<Rightarrow> [] | Some (name, n, Some c) \<Rightarrow> c
     | Some (name, n, None) \<Rightarrow> take n (file_of d name))"

definition disk_setmem :: "nat \<Rightarrow> char list \<Rightarrow> disk \<Rightarrow> disk" where
  "disk_setmem a bs d = (case dmaps d a of None \<Rightarrow> d
     | Some (name, n, Some c) \<Rightarrow> d\<lparr>dmaps := (dmaps d)(a := Some (name, n, Some (bs @ drop (length bs) c)))\<rparr>
     | Some (name, n, None) \<Rightarrow>
         d\<lparr>dfiles := (dfiles d)(name := Some (bs @ drop (length bs) (file_of d name)))\<rparr>)"

definition disk_msync :: "nat \<Rightarrow> nat \<Rightarrow> (disk, int) kcall" where
  "disk_msync a n d = (if dmaps d a = None then (Inl EINVAL, d) else (Inr 0, d))"

definition disk_munmap :: "nat \<Rightarrow> nat \<Rightarrow> (disk, int) kcall" where
  "disk_munmap a n d = (if dmaps d a = None then (Inl EINVAL, d) else (Inr 0, d\<lparr>dmaps := (dmaps d)(a := None)\<rparr>))"

definition disk_os :: "disk file_os" where
  "disk_os = \<lparr>f_open = disk_open, f_read = disk_read, f_write = disk_write, f_lseek = disk_lseek,
     f_fstat = disk_fstat, f_close = disk_close, f_unlink = disk_unlink, f_mmap = disk_mmap,
     f_msync = disk_msync, f_munmap = disk_munmap, f_mem = disk_mem, f_setmem = disk_setmem\<rparr>"

definition empty_disk :: "nat \<Rightarrow> disk" where
  "empty_disk chunk = \<lparr>dfiles = (\<lambda>_. None), dfds = (\<lambda>_. None), dmaps = (\<lambda>_. None), dnext = 3, dchunk = chunk\<rparr>"

lemmas disk_defs = disk_os_def disk_open_def disk_read_def disk_write_def disk_lseek_def
  disk_fstat_def disk_close_def disk_unlink_def disk_mmap_def disk_mem_def disk_setmem_def
  disk_msync_def disk_munmap_def file_of_def

text \<open>
  \<open>io/base\<close> does what its comment says: it prints the four bytes it wrote, one per line with
  size 1, then three lines with size 0, and exits with 0, its file removed and its descriptor
  closed, whatever the file held before.
\<close>

lemma base_main_prints:
  assumes "4 \<le> dchunk d" and "s = \<lparr>kern = d, errno = e, outs = out\<rparr>"
  shows "\<exists>s'. run_state (base_main disk_os) s = (0, s') \<and> dfiles (kern s') ''test.txt'' = None
    \<and> dfds (kern s') (int (dnext d)) = None
    \<and> outs s' = out @ [Printf ''open new file fd is %d, errno is %d\<newline>'' [FInt (int (dnext d)), FInt e],
        Printf ''write size is %zd\<newline>'' [FInt 4]]
        @ map (\<lambda>c. Printf ''read size is %zd, read char is %c\<newline>'' [FInt 1, FChar c]) ''abcd''
        @ replicate 3 (Printf ''read size is %zd, read char is %c\<newline>'' [FInt 0, FChar NUL])"
  using assms
  by (simp add: base_main_def io_simps disk_defs numeral_eq_Suc)

section \<open>The filling loops on the file system\<close>

definition at_end :: "int \<Rightarrow> disk \<Rightarrow> bool" where
  "at_end fd d \<longleftrightarrow> 0 < dchunk d \<and> (\<exists>name. dfds d fd = Some (name, length (file_of d name)))"

definition fd_data :: "int \<Rightarrow> disk \<Rightarrow> char list" where
  "fd_data fd d = (case dfds d fd of None \<Rightarrow> [] | Some (name, off) \<Rightarrow> file_of d name)"

interpretation dsk: appending disk_os fd "fd_data fd" "at_end fd" for fd
proof
  fix k :: disk and bs :: "char list"
  assume "at_end fd k" and "bs \<noteq> []"
  then show "\<exists>n k'. f_write disk_os fd bs k = (Inr (int n), k') \<and> 0 < n \<and> n \<le> length bs
      \<and> fd_data fd k' = fd_data fd k @ take n bs \<and> at_end fd k'"
    by (intro exI [of _ "min (length bs) (dchunk k)"])
      (auto simp: at_end_def fd_data_def disk_os_def disk_write_def file_of_def Let_def min_def)
next
  fix k :: disk
  assume "at_end fd k"
  then show "\<exists>k'. f_lseek disk_os fd 0 SEEK_CUR k = (Inr (int (length (fd_data fd k))), k')
      \<and> fd_data fd k' = fd_data fd k \<and> at_end fd k'"
    by (auto simp: at_end_def fd_data_def disk_os_def disk_lseek_def file_of_def Let_def)
qed

interpretation closed: full_disk disk_os fd "\<lambda>d. dfds d fd = None" for fd
  by unfold_locales (auto simp: disk_os_def disk_write_def disk_lseek_def EBADF_def)

text \<open>Unbuffered streams on the file system.\<close>

definition disk_stdio :: "disk stdio_os" where
  "disk_stdio = \<lparr>s_fopen = (\<lambda>name mode. disk_open name [O_RDWR]),
     s_fwrite = (\<lambda>fp bs d. case disk_write fp bs d of (Inl e, d') \<Rightarrow> ((0, Some e), d')
       | (Inr n, d') \<Rightarrow> ((nat n, None), d')),
     s_ftell = (\<lambda>fp. disk_lseek fp 0 SEEK_CUR), s_fclose = disk_close\<rparr>"

interpretation closedf: full_stream disk_stdio fp "\<lambda>d. dfds d fp = None" for fp
  by unfold_locales (auto simp: disk_stdio_def disk_write_def disk_lseek_def EBADF_def)

text \<open>
  C10. The loop of \<open>io/bigfile\<close> fills the file. On a descriptor at the end of its file, however
  few bytes each \<open>write\<close> takes, as long as it takes one, the loop ends after at most as many
  turns as bytes are missing, has appended exactly the missing bytes, all of them \<open>1\<close>, and
  reports no error.
\<close>

theorem bigfile_fills:
  assumes "appending os fd filedata good" and "good (kern s)"
    and "had = int (length (filedata (kern s)))" and "had \<le> tot" and "0 < bs" and "nat (tot - had) \<le> fuel"
  shows "\<exists>s'. run_state (bigfile_loop os fd tot bs fuel i had False) s = (Some (tot, False), s')
    \<and> filedata (kern s') = filedata (kern s) @ replicate (nat (tot - had)) (CHR ''1'')"
  using appending.bigfile_loop_fills [OF assms(1) assms(3,4,5,6,2)] .

theorem bigfile_fills_witness:
  "\<exists>s'. run_state (bigfile_loop disk_os 3 totalSize bufferSize (nat totalSize) 0 0 False)
       \<lparr>kern = (empty_disk 1000)\<lparr>dfds := [3 \<mapsto> (''f'', 0)]\<rparr>, errno = 0, outs = []\<rparr>
     = (Some (totalSize, False), s')"
  using bigfile_fills [OF dsk.appending_axioms, of 3
      "\<lparr>kern = (empty_disk 1000)\<lparr>dfds := [3 \<mapsto> (''f'', 0)]\<rparr>, errno = 0, outs = []\<rparr>" 0 totalSize bufferSize
      "nat totalSize" 0]
  by (auto simp: at_end_def fd_data_def empty_disk_def file_of_def totalSize_def bufferSize_def)

text \<open>
  C28. Neither filling loop gives up: while every \<open>write\<close> (or \<open>fwrite\<close>) fails with an error
  other than \<open>EFBIG\<close> -- the disk is full, or the \<open>open\<close> had failed and the descriptor is -1
  -- the loops of \<open>io/bigfile\<close> and \<open>other/fread\<close> are not over after any number of turns (the \<open>int64\<close>
  counters of the code overflow after \<open>2 ^ 63\<close> of them).
\<close>

theorem filling_loops_endless:
  assumes "full_disk os fd good" and "good (kern s)" and "full_stream sos fp good'" and "good' (kern u)"
    and "had < tot"
  shows "fst (run_state (bigfile_loop os fd tot bs fuel i had err) s) = None
    \<and> fst (run_state (fwrite_loop sos fp tot bs fuel i had err) u) = None"
  using full_disk.bigfile_loop_endless [OF assms(1,5,2)] full_stream.fwrite_loop_endless [OF assms(3,5,4)]
  by blast

theorem filling_loops_endless_witness:
  "fst (run_state (bigfile_loop disk_os (-1) totalSize bufferSize 1000000 0 0 False)
       \<lparr>kern = empty_disk 4096, errno = 0, outs = []\<rparr>) = None
    \<and> fst (run_state (fwrite_loop disk_stdio (-1) totalSize bufferSize 1000000 0 0 False)
       \<lparr>kern = empty_disk 4096, errno = 0, outs = []\<rparr>) = None"
  using filling_loops_endless [OF closed.full_disk_axioms _ closedf.full_stream_axioms,
      of "\<lparr>kern = empty_disk 4096, errno = 0, outs = []\<rparr>" "-1" "\<lparr>kern = empty_disk 4096, errno = 0, outs = []\<rparr>" "-1" 0 totalSize]
  by (simp add: empty_disk_def totalSize_def)

section \<open>Reading a file back\<close>

text \<open>
  \<open>_fileContext\<close> returns the contents of the file, null-terminated, when the size is what
  \<open>fstat\<close> says and the first \<open>read\<close> delivers all of it.
\<close>

lemma fileContext_reads:
  assumes "f_open os name [O_RDONLY] k = (Inr fd, k1)" and "fd \<noteq> -1"
    and "f_fstat os fd k1 = (Inr (length c), k2)" and "f_read os fd (length c) k2 = (Inr c, k3)" and "c \<noteq> []"
  shows "run_state (fileContext os g u name) \<lparr>kern = k, errno = e, outs = out\<rparr>
    = (Some (c @ [NUL]), \<lparr>kern = k3, errno = e, outs = out\<rparr>)"
proof -
  obtain n where n: "length c = Suc n" using assms(5) by (cases c) auto
  have "drop (length c) (map g [0..<length c + 1]) = [g (length c)]" by (simp add: drop_map)
  moreover have "fileContext_loop os fd n (Suc n) (Suc n) b = ret (Suc n, b)" for b
    by (cases n) simp_all
  ultimately show ?thesis
    using assms n by (simp add: fileContext_def io_simps Let_def list_update_append del: upt_Suc)
qed

text \<open>
  In general the file arrives in several chunks: \<open>incoming name k\<close> is how it will come when it is opened,
  \<open>plan k fd\<close> how the rest comes at an open descriptor. A \<open>read\<close> that asks for all of the rest gets the
  next chunk, which is not empty.
\<close>

locale chunked =
  fixes os :: "'k file_os" and opened :: "'k \<Rightarrow> int \<Rightarrow> bool" and plan :: "'k \<Rightarrow> int \<Rightarrow> char list list"
    and incoming :: "string \<Rightarrow> 'k \<Rightarrow> char list list" and exist :: "string \<Rightarrow> 'k \<Rightarrow> bool"
  assumes open_law: "exist name k \<Longrightarrow> \<exists>fd k1 k2. f_open os name [O_RDONLY] k = (Inr fd, k1) \<and> 0 \<le> fd \<and> \<not> opened k fd
        \<and> f_fstat os fd k1 = (Inr (length (concat (incoming name k))), k2) \<and> plan k2 fd = incoming name k
        \<and> opened k2 = (opened k)(fd := True)"
    and read_law: "plan k fd = ch # chs \<Longrightarrow> ch \<noteq> [] \<and> (\<exists>k'. f_read os fd (length (concat (ch # chs))) k = (Inr ch, k')
        \<and> plan k' fd = chs \<and> opened k' = opened k)"

text \<open>Every chunk is stored at the start of the buffer.\<close>

definition overlay :: "char list \<Rightarrow> char list \<Rightarrow> char list" where
  "overlay buf ch = ch @ drop (length ch) buf"

lemma length_overlays: "\<forall>ch\<in>set chs. length ch \<le> length buf \<Longrightarrow> length (foldl overlay buf chs) = length buf"
  by (induction chs arbitrary: buf) (auto simp: overlay_def)

lemma nth_overlay: "length ch \<le> length buf \<Longrightarrow> overlay buf ch ! i = (if i < length ch then ch ! i else buf ! i)"
  by (simp add: overlay_def nth_append)

text \<open>A byte of the buffer is that of the last chunk that was long enough, or is still the old one.\<close>

lemma nth_overlays:
  "\<forall>ch\<in>set chs. length ch \<le> length buf \<Longrightarrow> i < length buf \<Longrightarrow>
    foldl overlay buf chs ! i = (case find (\<lambda>ch. i < length ch) (rev chs) of None \<Rightarrow> buf ! i | Some ch \<Rightarrow> ch ! i)"
proof (induction chs rule: rev_induct)
  case (snoc ch chs)
  then show ?case using length_overlays [of chs buf] by (simp add: nth_overlay)
qed simp

lemma length_le_concat: "ch \<in> set chs \<Longrightarrow> length ch \<le> length (concat chs)"
  by (induction chs) auto

context chunked
begin

lemma loop_overlays:
  "plan (kern s) fd = chs \<Longrightarrow> tot + length (concat chs) = fsz \<Longrightarrow> length (concat chs) \<le> fuel \<Longrightarrow>
    \<exists>s'. run_state (fileContext_loop os fd fuel fsz tot buf) s = ((fsz, foldl overlay buf chs), s')
      \<and> outs s' = outs s \<and> opened (kern s') = opened (kern s)"
proof (induction chs arbitrary: s tot fuel buf)
  case Nil
  then show ?case by (cases fuel) auto
next
  case (Cons ch chs)
  obtain k' where k': "f_read os fd (fsz - tot) (kern s) = (Inr ch, k')" "plan k' fd = chs" "opened k' = opened (kern s)" "ch \<noteq> []"
    using read_law [OF Cons.prems(1)] Cons.prems(2) by (metis add_diff_cancel_left')
  moreover obtain n where "fuel = Suc n" "length (concat chs) \<le> n"
    using Cons.prems(3) k'(4) by (cases fuel; cases ch) auto
  ultimately show ?case
    using Cons.IH [of "s\<lparr>kern := k'\<rparr>" "tot + length ch" n "overlay buf ch"] Cons.prems(2,3)
    by (auto simp: io_simps overlay_def)
qed

lemma fileContext_run:
  assumes "exist name (kern s)" and c: "c = concat (incoming name (kern s))"
  shows "\<exists>buf fd s'. run_state (fileContext os g u name) s = (Some (buf @ [NUL]), s') \<and> length buf = length c
    \<and> (\<forall>i<length c. buf ! i = (case find (\<lambda>ch. i < length ch) (rev (incoming name (kern s))) of None \<Rightarrow> g i | Some ch \<Rightarrow> ch ! i))
    \<and> \<not> opened (kern s) fd \<and> opened (kern s') = (opened (kern s))(fd := True) \<and> outs s' = outs s"
proof -
  let ?chs = "incoming name (kern s)" and ?new = "map g [0..<length c + 1]"
  let ?buf = "foldl overlay ?new ?chs"
  obtain fd k1 k2 where o: "f_open os name [O_RDONLY] (kern s) = (Inr fd, k1)" "0 \<le> fd" "\<not> opened (kern s) fd"
      "f_fstat os fd k1 = (Inr (length c), k2)" "plan k2 fd = ?chs" "opened k2 = (opened (kern s))(fd := True)"
    using open_law [OF assms(1)] c by blast
  obtain s' where s': "run_state (fileContext_loop os fd (length c) (length c) 0 ?new) (s\<lparr>kern := k2\<rparr>) = ((length c, ?buf), s')"
      "outs s' = outs s" "opened (kern s') = opened k2"
    using loop_overlays [of "s\<lparr>kern := k2\<rparr>" fd ?chs 0 "length c" "length c" ?new] o(5) c by auto
  have run: "run_state (fileContext os g u name) s = (Some (?buf[length c := NUL]), s')"
    using o(1,2,4) s'(1) by (simp add: fileContext_def io_simps Let_def del: upt_Suc)
  have small: "\<forall>ch\<in>set ?chs. length ch \<le> length ?new" using length_le_concat c by (fastforce simp: le_Suc_eq)
  have len: "length ?buf = length c + 1" using length_overlays [OF small] by simp
  have "?buf[length c := NUL] = take (length c) ?buf @ [NUL]" using len by (simp add: upd_conv_take_nth_drop)
  moreover have "take (length c) ?buf ! i = (case find (\<lambda>ch. i < length ch) (rev ?chs) of None \<Rightarrow> g i | Some ch \<Rightarrow> ch ! i)"
    if "i < length c" for i
    using nth_overlays [OF small, of i] that by (simp add: nth_append del: upt_Suc split: option.split)
  ultimately show ?thesis using run len o(3,6) s'(2,3)
    by (intro exI [of _ "take (length c) ?buf"] exI [of _ fd] exI [of _ s']) simp
qed

end

text \<open>On the file system in memory a file comes in chunks of \<open>dchunk\<close> bytes.\<close>

function pieces :: "nat \<Rightarrow> char list \<Rightarrow> char list list" where
  "pieces m c = (if m = 0 \<or> c = [] then [] else take m c # pieces m (drop m c))"
  by auto
termination by (relation "measure (\<lambda>(m, c). length c)") auto

declare pieces.simps [simp del]

lemma concat_pieces: "0 < m \<Longrightarrow> concat (pieces m c) = c"
  by (induction m c rule: pieces.induct) (subst pieces.simps, simp)

definition disk_plan :: "disk \<Rightarrow> int \<Rightarrow> char list list" where
  "disk_plan d fd = (case dfds d fd of None \<Rightarrow> [] | Some (name, off) \<Rightarrow> pieces (dchunk d) (drop off (file_of d name)))"

definition readable :: "string \<Rightarrow> disk \<Rightarrow> bool" where
  "readable name d \<longleftrightarrow> 0 < dchunk d \<and> dfiles d name \<noteq> None \<and> dfds d (int (dnext d)) = None"

interpretation dchk: chunked disk_os "\<lambda>d fd. dfds d fd \<noteq> None" disk_plan "\<lambda>name d. pieces (dchunk d) (file_of d name)" readable
proof
  fix name and k :: disk
  assume "readable name k"
  then show "\<exists>fd k1 k2. f_open disk_os name [O_RDONLY] k = (Inr fd, k1) \<and> 0 \<le> fd \<and> \<not> dfds k fd \<noteq> None
      \<and> f_fstat disk_os fd k1 = (Inr (length (concat (pieces (dchunk k) (file_of k name)))), k2)
      \<and> disk_plan k2 fd = pieces (dchunk k) (file_of k name)
      \<and> (\<lambda>fd. dfds k2 fd \<noteq> None) = (\<lambda>fd. dfds k fd \<noteq> None)(fd := True)"
    by (auto simp: readable_def disk_defs disk_plan_def concat_pieces fun_eq_iff)
next
  fix k :: disk and fd :: int and ch :: "char list" and chs
  assume a: "disk_plan k fd = ch # chs"
  then obtain name off where f: "dfds k fd = Some (name, off)" "pieces (dchunk k) (drop off (file_of k name)) = ch # chs"
    by (auto simp: disk_plan_def split: option.splits)
  then have m: "0 < dchunk k" "drop off (file_of k name) \<noteq> []" "ch = take (dchunk k) (drop off (file_of k name))"
      "chs = pieces (dchunk k) (drop (dchunk k) (drop off (file_of k name)))"
    by (subst (asm) pieces.simps, auto split: if_splits)+
  have "length (concat (ch # chs)) = length (file_of k name) - off" using concat_pieces [OF m(1)] f(2) by (metis length_drop)
  with m(3) have "f_read disk_os fd (length (concat (ch # chs))) k
      = (Inr ch, k\<lparr>dfds := (dfds k)(fd := Some (name, off + length ch))\<rparr>)"
    using f(1) by (simp add: disk_os_def disk_read_def Let_def min_def)
  moreover have "disk_plan (k\<lparr>dfds := (dfds k)(fd := Some (name, off + length ch))\<rparr>) fd = chs"
    using m by (simp add: disk_plan_def file_of_def min_def pieces.simps [of _ "[]"] add.commute)
  moreover have "ch \<noteq> []" using m(1-3) by simp
  ultimately show "ch \<noteq> [] \<and> (\<exists>k'. f_read disk_os fd (length (concat (ch # chs))) k = (Inr ch, k') \<and> disk_plan k' fd = chs
      \<and> (\<lambda>fd. dfds k' fd \<noteq> None) = (\<lambda>fd. dfds k fd \<noteq> None))"
    using f(1) by (auto simp: fun_eq_iff)
qed

text \<open>
  C27. \<open>_fileContext\<close> of \<open>memory/mmap_file\<close> returns the file only when one \<open>read\<close> delivers it. On every
  kernel where its calls succeed, for every file and every way its bytes arrive in chunks: the result has the length of the
  file and a null byte, and its byte \<open>i\<close> is the byte \<open>i\<close> of the last chunk that is longer than \<open>i\<close>, not
  of the file; where no chunk is that long, it is what the fresh memory held. The descriptor it opened
  stays open.
\<close>

theorem fileContext_overlays:
  assumes "chunked os opened plan incoming exist" and "exist name (kern s)"
    and "chs = incoming name (kern s)"
  shows "\<exists>buf fd s'. run_state (fileContext os g u name) s = (Some (buf @ [NUL]), s') \<and> length buf = length (concat chs)
    \<and> (\<forall>i<length (concat chs). buf ! i = (case find (\<lambda>ch. i < length ch) (rev chs) of None \<Rightarrow> g i | Some ch \<Rightarrow> ch ! i))
    \<and> \<not> opened (kern s) fd \<and> opened (kern s') = (opened (kern s))(fd := True) \<and> outs s' = outs s"
  using chunked.fileContext_run [OF assms(1,2) refl] assms(3) by simp

text \<open>A disk with one file.\<close>

definition disk_with :: "nat \<Rightarrow> string \<Rightarrow> char list \<Rightarrow> disk" where
  "disk_with chunk name c = (empty_disk chunk)\<lparr>dfiles := [name \<mapsto> c]\<rparr>"

theorem fileContext_overlays_witness:
  "\<exists>buf s'. run_state (fileContext disk_os (\<lambda>_. CHR ''?'') 0 ''f'') \<lparr>kern = disk_with 3 ''f'' ''abcdefgh'', errno = 0, outs = []\<rparr>
       = (Some (buf @ [NUL]), s') \<and> length buf = 8 \<and> buf ! 0 = CHR ''g'' \<and> buf ! 2 = CHR ''f'' \<and> buf ! 3 = CHR ''?''"
proof -
  let ?d = "disk_with 3 ''f'' ''abcdefgh''"
  have p: "pieces (dchunk ?d) (file_of ?d ''f'') = [''abc'', ''def'', ''gh'']"
    by (simp add: disk_with_def empty_disk_def file_of_def pieces.simps)
  have r: "readable ''f'' ?d" by (simp add: readable_def disk_with_def empty_disk_def)
  obtain buf s' where b: "run_state (fileContext disk_os (\<lambda>_. CHR ''?'') 0 ''f'') \<lparr>kern = ?d, errno = 0, outs = []\<rparr> = (Some (buf @ [NUL]), s')"
      "length buf = 8" "\<And>i. i < 8 \<Longrightarrow> buf ! i = (case find (\<lambda>ch. i < length ch) [''gh'', ''def'', ''abc''] of None \<Rightarrow> CHR ''?'' | Some ch \<Rightarrow> ch ! i)"
    using fileContext_overlays [OF dchk.chunked_axioms, of "''f''" "\<lparr>kern = ?d, errno = 0, outs = []\<rparr>"
        "[''abc'', ''def'', ''gh'']" "\<lambda>_. CHR ''?''" 0] r p by auto
  show ?thesis using b(1,2) b(3) [of 0] b(3) [of 2] b(3) [of 3] by auto
qed

section \<open>The run of memory/mmap\_file\<close>

lemma shift_lower:
  "shift_case CHR ''a'' = CHR ''A''" "shift_case CHR ''b'' = CHR ''B''" "shift_case CHR ''c'' = CHR ''C''"
  "shift_case CHR ''d'' = CHR ''D''" "shift_case CHR ''e'' = CHR ''E''" "shift_case CHR ''f'' = CHR ''F''"
  "shift_case CHR ''g'' = CHR ''G''" "shift_case CHR ''h'' = CHR ''H''"
  by (simp_all add: shift_case_def char_of_def of_char_def)

text \<open>
  \<open>memory/mmap_file\<close>: through a shared mapping the child's change of the memory changes the
  file, and child and parent both print it in upper case; with an argument the mapping is private
  and both print the file unchanged. The file is then what
  they printed. One call transfers at least the eight bytes of the file.
\<close>

lemma mmap_main_prints:
  "\<exists>s'. run_state (mmap_main disk_os g u pageSize True (prog # args))
         \<lparr>kern = empty_disk (8 + extra), errno = 0, outs = []\<rparr> = (0, s')
     \<and> (let c = (if args = [] then ''ABCDEFGH'' else ''abcdefgh'') in
        if args \<noteq> [] \<and> hd args \<in> {''--help'', ''-h''} then dfiles (kern s') ''test.txt'' = None
        else dfiles (kern s') ''test.txt'' = Some c
          \<and> Printf (TAB # ''child: file context is [%s]\<newline>'') [FStr c] \<in> set (outs s')
          \<and> Printf ''parent: file context is [%s]\<newline>'' [FStr c] \<in> set (outs s'))"
  by (cases args)
    (simp_all add: mmap_main_def mmap_child_def mmap_parent_def childFunc_def fileContext_def show_buf_def
      io_simps disk_defs empty_disk_def Let_def numeral_eq_Suc shift_lower cstr_def)

end
