(* ===== verification/Small_Files.thy ===== *)
theory Small_Files
  imports Mmap_File Date_Format
begin

unbundle bit_operations_syntax

text \<open>
  The short file programs: \<open>io/pwrite\<close>, \<open>io/tmpfile\<close>, \<open>io/open_to_fopen\<close>, \<open>io/syslog\<close>,
  \<open>io/pipe\<close>, \<open>io/popen\<close> and \<open>io/redirect\<close>.
\<close>

section \<open>io/pwrite\<close>

text \<open>\<open>pwrite\<close> is one more call beside those of \<open>file_os\<close>; \<open>remove\<close> of a file is \<open>unlink\<close>.\<close>

definition pwrite_main :: "'k file_os \<Rightarrow> (int \<Rightarrow> char list \<Rightarrow> nat \<Rightarrow> ('k, int) kcall) \<Rightarrow> ('k, int) io" where
  "pwrite_main os pwrite = do {
     fd \<leftarrow> sys (f_open os ''test.txt'' [O_CREAT, O_TRUNC, O_WRONLY]);
     if fd < 0 then do {
       e \<leftarrow> get_errno;
       _ \<leftarrow> printf ''fd is %d, errno is %d\<newline>'' [FInt fd, FInt e];
       ret (-1) }
     else do {
       offSet \<leftarrow> sys (f_lseek os fd 0 SEEK_CUR);
       _ \<leftarrow> printf ''offSet is %ld\<newline>'' [FInt offSet];
       _ \<leftarrow> sys (f_write os fd ''abcd'');
       offSet \<leftarrow> sys (f_lseek os fd 0 SEEK_CUR);
       _ \<leftarrow> printf ''offSet is %ld after write  4 bytes\<newline>'' [FInt offSet];
       _ \<leftarrow> sys (pwrite fd ''abcd'' 4);
       offSet \<leftarrow> sys (f_lseek os fd 0 SEEK_CUR);
       _ \<leftarrow> printf ''offSet is %ld after pwrite 4 bytes\<newline>'' [FInt offSet];
       _ \<leftarrow> (if fd > 0 then do { _ \<leftarrow> sys (f_close os fd); sys (f_unlink os ''test.txt'') } else ret 0);
       ret 0 } }"

text \<open>On the file system in memory: \<open>pwrite\<close> writes where it is told and leaves the offset alone.\<close>

definition disk_pwrite :: "int \<Rightarrow> char list \<Rightarrow> nat \<Rightarrow> (disk, int) kcall" where
  "disk_pwrite fd bs off d = (case dfds d fd of
      None \<Rightarrow> (Inl EBADF, d)
    | Some (name, _) \<Rightarrow> let w = take (dchunk d) bs; c = file_of d name; c = c @ replicate (off - length c) NUL in
        (Inr (int (length w)), d\<lparr>dfiles := (dfiles d)(name \<mapsto> take off c @ w @ drop (off + length w) c)\<rparr>))"

lemma pwrite_keeps_offset:
  assumes "4 \<le> dchunk d" and "0 < dnext d"
  shows "\<exists>s'. run_state (pwrite_main disk_os disk_pwrite) \<lparr>kern = d, errno = e, outs = out\<rparr> = (0, s')
    \<and> outs s' = out @ [Printf ''offSet is %ld\<newline>'' [FInt 0], Printf ''offSet is %ld after write  4 bytes\<newline>'' [FInt 4],
        Printf ''offSet is %ld after pwrite 4 bytes\<newline>'' [FInt 4]]
    \<and> dfiles (kern s') ''test.txt'' = None \<and> dfds (kern s') (int (dnext d)) = None"
  using assms by (simp add: pwrite_main_def io_simps disk_defs disk_pwrite_def)

section \<open>io/tmpfile\<close>

text \<open>\<open>mkstemp\<close> gives a descriptor and the name it chose, \<open>tmpfile\<close> a stream, here by its descriptor.\<close>

record 'k tmp_os =
  y_mkstemp :: "string \<Rightarrow> ('k, int \<times> string) kcall"
  y_tmpfile :: "('k, int) kcall"
  y_unlink :: "string \<Rightarrow> ('k, int) kcall"
  y_write :: "int \<Rightarrow> char list \<Rightarrow> ('k, int) kcall"
  y_rewind :: "int \<Rightarrow> ('k, int) kcall"
  y_read :: "int \<Rightarrow> nat \<Rightarrow> ('k, char list) kcall"
  y_close :: "int \<Rightarrow> ('k, int) kcall"

definition writeAndRead :: "'k tmp_os \<Rightarrow> int \<Rightarrow> ('k, unit) io" where
  "writeAndRead os fd = (if fd < 0 then printf ''fd is %d < 0'' [FInt fd]
     else do {
       writeSize \<leftarrow> sys (y_write os fd ''a'');
       e \<leftarrow> get_errno;
       _ \<leftarrow> (if writeSize \<noteq> 1 then printf ''writeSize(%zd) != 1, errno is %d\<newline>'' [FInt writeSize, FInt e] else ret ());
       _ \<leftarrow> sys (y_rewind os fd);
       (readSize, bs) \<leftarrow> sysbuf (y_read os fd 1);
       e \<leftarrow> get_errno;
       _ \<leftarrow> (if readSize \<noteq> 1 then printf ''readSize(%zd) != 1\<newline>, errno is %d\<newline>'' [FInt readSize, FInt e] else ret ());
       let c = (case bs of [] \<Rightarrow> NUL | b # _ \<Rightarrow> b);
       printf ''buffer[0] is %c, test %s\<newline>'' [FChar c, FStr (if c = CHR ''a'' then ''ok'' else ''failed'')] })"

text \<open>A failing \<open>tmpfile\<close> gives a null pointer to \<open>fileno\<close>: the process is killed (\<open>None\<close>).\<close>

definition tmpfile_main :: "'k tmp_os \<Rightarrow> ('k, int option) io" where
  "tmpfile_main os = do {
     r \<leftarrow> sysopt (y_mkstemp os ''tmp-test-XXXXXX'');
     let (fd1, name) = (case r of None \<Rightarrow> (-1, ''tmp-test-XXXXXX'') | Some x \<Rightarrow> x);
     e \<leftarrow> get_errno;
     _ \<leftarrow> printf ''mkstemp(%s) return %d, errno is %d\<newline>'' [FStr name, FInt fd1, FInt e];
     _ \<leftarrow> sys (y_unlink os name);
     _ \<leftarrow> writeAndRead os fd1;
     _ \<leftarrow> sys (y_close os fd1);
     f \<leftarrow> sysopt (y_tmpfile os);
     (case f of
        None \<Rightarrow> ret None
      | Some fd2 \<Rightarrow> do {
          e \<leftarrow> get_errno;
          _ \<leftarrow> printf ''tmpfile return %d, errno is %d\<newline>'' [FInt fd2, FInt e];
          _ \<leftarrow> writeAndRead os fd2;
          _ \<leftarrow> sys (y_close os fd2);
          ret (Some 0) }) }"

text \<open>The promise: a descriptor of an empty file keeps working when the name is gone.\<close>

locale tmp_calls =
  fixes os :: "'k tmp_os" and cont :: "'k \<Rightarrow> int \<Rightarrow> (char list \<times> nat) option"
  assumes mkstemp: "\<exists>d n k'. y_mkstemp os p k = (Inr (d, n), k') \<and> 0 \<le> d \<and> cont k' = (cont k)(d \<mapsto> ([], 0))"
    and tmpfile: "\<exists>d k'. y_tmpfile os k = (Inr d, k') \<and> 0 \<le> d \<and> cont k' = (cont k)(d \<mapsto> ([], 0))"
    and tmp_unlink: "\<exists>r k'. y_unlink os n k = (r, k') \<and> cont k' = cont k"
    and tmp_write: "cont k d = Some ([], 0) \<Longrightarrow>
      \<exists>k'. y_write os d [b] k = (Inr 1, k') \<and> cont k' = (cont k)(d \<mapsto> ([b], 1))"
    and tmp_rewind: "cont k d = Some (c, q) \<Longrightarrow>
      \<exists>k'. y_rewind os d k = (Inr 0, k') \<and> cont k' = (cont k)(d \<mapsto> (c, 0))"
    and tmp_read: "cont k d = Some (b # c, 0) \<Longrightarrow>
      \<exists>k'. y_read os d 1 k = (Inr [b], k') \<and> cont k' = (cont k)(d \<mapsto> (b # c, 1))"
    and tmp_close: "cont k d \<noteq> None \<Longrightarrow> \<exists>k'. y_close os d k = (Inr 0, k') \<and> cont k' = (cont k)(d := None)"
begin

lemma writeAndRead_ok:
  assumes "cont (kern s) d = Some ([], 0)" and "0 \<le> d"
  shows "\<exists>s'. run_state (writeAndRead os d) s = ((), s') \<and> cont (kern s') d \<noteq> None
    \<and> outs s' = outs s @ [Printf ''buffer[0] is %c, test %s\<newline>'' [FChar (CHR ''a''), FStr ''ok'']]"
proof -
  obtain k1 where k1: "y_write os d ''a'' (kern s) = (Inr 1, k1)" "cont k1 d = Some (''a'', 1)"
    using tmp_write [OF assms(1)] by fastforce
  obtain k2 where k2: "y_rewind os d k1 = (Inr 0, k2)" "cont k2 d = Some (''a'', 0)"
    using tmp_rewind [OF k1(2)] by fastforce
  obtain k3 where k3: "y_read os d 1 k2 = (Inr ''a'', k3)" "cont k3 d \<noteq> None"
    using tmp_read [OF k2(2)] by fastforce
  from assms(2) k1 k2 k3 show ?thesis by (simp add: writeAndRead_def io_simps)
qed

lemma tmpfile_main_ok:
  "\<exists>s' a b. run_state (tmpfile_main os) s = (Some 0, s')
    \<and> outs s' = outs s @ [a, Printf ''buffer[0] is %c, test %s\<newline>'' [FChar (CHR ''a''), FStr ''ok''],
         b, Printf ''buffer[0] is %c, test %s\<newline>'' [FChar (CHR ''a''), FStr ''ok'']]"
proof -
  obtain d n k1 where k1: "y_mkstemp os ''tmp-test-XXXXXX'' (kern s) = (Inr (d, n), k1)" "0 \<le> d" "cont k1 d = Some ([], 0)"
    using mkstemp by fastforce
  obtain r k2 where k2: "y_unlink os n k1 = (r, k2)" "cont k2 = cont k1" using tmp_unlink by blast
  let ?e = "case r of Inl y \<Rightarrow> y | Inr _ \<Rightarrow> errno s"
  let ?a = "Printf ''mkstemp(%s) return %d, errno is %d\<newline>'' [FStr n, FInt d, FInt (errno s)]"
  let ?s = "\<lparr>kern = k2, errno = ?e, outs = outs s @ [?a]\<rparr>"
  obtain s1 where s1: "run_state (writeAndRead os d) ?s = ((), s1)" "cont (kern s1) d \<noteq> None"
    "outs s1 = outs ?s @ [Printf ''buffer[0] is %c, test %s\<newline>'' [FChar (CHR ''a''), FStr ''ok'']]"
    using writeAndRead_ok [of ?s d] k1 k2 by auto
  obtain k3 where k3: "y_close os d (kern s1) = (Inr 0, k3)" using tmp_close [OF s1(2)] by blast
  obtain d2 k4 where k4: "y_tmpfile os k3 = (Inr d2, k4)" "0 \<le> d2" "cont k4 d2 = Some ([], 0)" using tmpfile by fastforce
  let ?b = "Printf ''tmpfile return %d, errno is %d\<newline>'' [FInt d2, FInt (errno s1)]"
  let ?s2 = "s1\<lparr>kern := k4, outs := outs s1 @ [?b]\<rparr>"
  obtain s2 where s2: "run_state (writeAndRead os d2) ?s2 = ((), s2)" "cont (kern s2) d2 \<noteq> None"
    "outs s2 = outs ?s2 @ [Printf ''buffer[0] is %c, test %s\<newline>'' [FChar (CHR ''a''), FStr ''ok'']]"
    using writeAndRead_ok [of ?s2 d2] k4 by auto
  obtain k5 where k5: "y_close os d2 (kern s2) = (Inr 0, k5)" using tmp_close [OF s2(2)] by blast
  have "run_state (tmpfile_main os) s = (Some 0, s2\<lparr>kern := k5\<rparr>)"
    using k1(1) k2(1) s1(1) k3 k4(1) s2(1) k5
    by (cases r; cases s) (simp_all add: tmpfile_main_def io_simps)
  with s1(3) s2(3) show ?thesis by (intro exI [of _ "s2\<lparr>kern := k5\<rparr>"] exI [of _ ?a] exI [of _ ?b]) simp
qed

end

text \<open>Anonymous files: contents and offset by descriptor.\<close>

record tmptab =
  tt_files :: "int \<Rightarrow> (char list \<times> nat) option"
  tt_next :: nat

definition tt_new :: "tmptab \<Rightarrow> int \<times> tmptab" where
  "tt_new k = (int (tt_next k), k\<lparr>tt_files := (tt_files k)(int (tt_next k) \<mapsto> ([], 0)), tt_next := Suc (tt_next k)\<rparr>)"

definition tt_with :: "int \<Rightarrow> (char list \<times> nat \<Rightarrow> 'a \<times> (char list \<times> nat) option) \<Rightarrow> (tmptab, 'a) kcall" where
  "tt_with d f k = (case tt_files k d of None \<Rightarrow> (Inl EBADF, k)
     | Some x \<Rightarrow> (Inr (fst (f x)), k\<lparr>tt_files := (tt_files k)(d := snd (f x))\<rparr>))"

definition tmptab_os :: "tmptab tmp_os" where
  "tmptab_os = \<lparr>
     y_mkstemp = (\<lambda>p k. (Inr (fst (tt_new k), ''tmp-test-a1b2c3''), snd (tt_new k))),
     y_tmpfile = (\<lambda>k. (Inr (fst (tt_new k)), snd (tt_new k))),
     y_unlink = (\<lambda>n. Pair (Inr 0)),
     y_write = (\<lambda>d bs. tt_with d (\<lambda>(c, p). (int (length bs), Some (take p c @ bs @ drop (p + length bs) c, p + length bs)))),
     y_rewind = (\<lambda>d. tt_with d (\<lambda>(c, p). (0, Some (c, 0)))),
     y_read = (\<lambda>d n. tt_with d (\<lambda>(c, p). (take n (drop p c), Some (c, p + length (take n (drop p c)))))),
     y_close = (\<lambda>d. tt_with d (\<lambda>x. (0, None)))\<rparr>"

interpretation tmptab: tmp_calls tmptab_os tt_files
  by unfold_locales (auto simp: tmptab_os_def tt_new_def tt_with_def)

section \<open>io/open_to_fopen\<close>

definition fdopen_main :: "'k file_os \<Rightarrow> (int \<Rightarrow> ('k, int) kcall) \<Rightarrow> (int \<Rightarrow> int) \<Rightarrow> ('k, int) io" where
  "fdopen_main os fdopen fileno = do {
     fd \<leftarrow> sys (f_open os ''test.txt'' [O_CREAT, O_TRUNC, O_WRONLY]);
     e \<leftarrow> get_errno;
     _ \<leftarrow> printf ''fd is %d, errno is %d\<newline>'' [FInt fd, FInt e];
     file \<leftarrow> sysopt (fdopen fd);
     (case file of
        None \<Rightarrow> do { _ \<leftarrow> printf ''file is NULL\<newline>'' []; ret 1 }
      | Some f \<Rightarrow> do {
          _ \<leftarrow> printf ''fd is %d, fd2 is %d\<newline>'' [FInt fd, FInt (fileno f)];
          _ \<leftarrow> (if fd > 0 then do { _ \<leftarrow> sys (f_close os fd); sys (f_unlink os ''test.txt'') } else ret 0);
          ret 0 }) }"

text \<open>The stream has the descriptor it was made from, and nothing is left of the file.\<close>

lemma fdopen_same_fd:
  assumes "\<And>fd k. dfds k fd \<noteq> None \<Longrightarrow> \<exists>f. fdopen fd k = (Inr f, k) \<and> fileno f = fd" and "0 < dnext d"
  shows "\<exists>s'. run_state (fdopen_main disk_os fdopen fileno) \<lparr>kern = d, errno = e, outs = out\<rparr> = (0, s')
    \<and> last (outs s') = Printf ''fd is %d, fd2 is %d\<newline>'' [FInt (int (dnext d)), FInt (int (dnext d))]
    \<and> dfiles (kern s') ''test.txt'' = None \<and> dfds (kern s') (int (dnext d)) = None"
proof -
  let ?k = "snd (disk_open ''test.txt'' [O_CREAT, O_TRUNC, O_WRONLY] d)"
  obtain f where f: "fdopen (int (dnext d)) ?k = (Inr f, ?k)" "fileno f = int (dnext d)"
    using assms(1) [of ?k "int (dnext d)"] by (auto simp: disk_open_def)
  then show ?thesis using assms(2) by (simp add: fdopen_main_def io_simps disk_defs)
qed

section \<open>io/syslog\<close>

definition LOG_PID :: "32 word" where "LOG_PID = 0x01"
definition LOG_CONS :: "32 word" where "LOG_CONS = 0x02"
definition LOG_NOWAIT :: "32 word" where "LOG_NOWAIT = 0x10"
definition LOG_PERROR :: "32 word" where "LOG_PERROR = 0x20"
definition LOG_LOCAL0 :: "32 word" where "LOG_LOCAL0 = 16 * 8"
definition LOG_USER :: "32 word" where "LOG_USER = 1 * 8"
definition LOG_AUTH :: "32 word" where "LOG_AUTH = 4 * 8"
definition LOG_INFO :: "32 word" where "LOG_INFO = 6"
definition LOG_EMERG :: "32 word" where "LOG_EMERG = 0"

record 'k syslog_os =
  l_openlog :: "string \<Rightarrow> 32 word \<Rightarrow> 32 word \<Rightarrow> 'k \<Rightarrow> 'k"
  l_syslog :: "32 word \<Rightarrow> string \<Rightarrow> 'k \<Rightarrow> 'k"
  l_closelog :: "'k \<Rightarrow> 'k"

definition syslog_main :: "'k syslog_os \<Rightarrow> 'k \<Rightarrow> 'k" where
  "syslog_main os k =
     (let k = l_openlog os ''test'' (LOG_PID OR LOG_CONS OR LOG_NOWAIT) LOG_LOCAL0 k;
          k = l_syslog os LOG_PERROR ''error message'' k;
          k = l_syslog os (LOG_USER OR LOG_INFO) ''info message'' k
      in l_closelog os k)"

text \<open>
  A log that keeps facility, severity and message, as the library takes a priority apart; the
  facility of \<open>openlog\<close> counts when the priority has none.
\<close>

definition LOG_PRI :: "32 word \<Rightarrow> 32 word" where "LOG_PRI p = p AND 7"
definition LOG_FAC :: "32 word \<Rightarrow> 32 word" where "LOG_FAC p = p AND 0x3F8"

definition log_os :: "(32 word \<times> (32 word \<times> 32 word \<times> string) list) syslog_os" where
  "log_os = \<lparr>l_openlog = (\<lambda>_ _ fac (_, l). (fac, l)),
     l_syslog = (\<lambda>p m (fac, l). (fac, l @ [(if LOG_FAC p = 0 then fac else LOG_FAC p, LOG_PRI p, m)])),
     l_closelog = (\<lambda>k. k)\<rparr>"

text \<open>\<open>LOG_PERROR\<close> is an option of \<open>openlog\<close>; as a priority it is an emergency of the facility auth.\<close>

lemma syslog_priorities:
  "snd (syslog_main log_os (0, [])) = [(LOG_AUTH, LOG_EMERG, ''error message''), (LOG_USER, LOG_INFO, ''info message'')]"
  by (simp add: syslog_main_def log_os_def LOG_PERROR_def LOG_USER_def LOG_INFO_def LOG_AUTH_def LOG_EMERG_def
      LOG_PRI_def LOG_FAC_def Let_def)

section \<open>other/cmake\<close>

text \<open>\<open>myAdd\<close> of \<open>mylib.c\<close>: a sum that is not an \<open>int\<close> is undefined.\<close>

definition myAdd :: "int \<Rightarrow> int \<Rightarrow> ('k, int option) io" where
  "myAdd a b = do {
     _ \<leftarrow> printf ''from lib: a = %d, b = %d\<newline>'' [FInt a, FInt b];
     ret (if - (2 ^ 31) \<le> a + b \<and> a + b < 2 ^ 31 then Some (a + b) else None) }"

lemma myAdd_halves:
  assumes "- (2 ^ 30) \<le> a" "a < 2 ^ 30" "- (2 ^ 30) \<le> b" "b < 2 ^ 30"
  shows "fst (run_state (myAdd a b) s) = Some (a + b)"
  using assms by (simp add: myAdd_def io_simps)

end
