(* ===== verification/Stdio_Demos.thy ===== *)
theory Stdio_Demos
  imports Date_Format
begin

text \<open>
  \<open>io/pipe\<close>, \<open>io/popen\<close> and \<open>io/redirect\<close>: how much a pipe holds, reading a command's output by
  lines, and two streams that end up in one file.
\<close>

section \<open>io/pipe\<close>

text \<open>A call that may block for ever: no result at all.\<close>

definition sysblock :: "('k \<Rightarrow> ((int + int) \<times> 'k) option) \<Rightarrow> ('k, int option) io" where
  "sysblock f = State (\<lambda>s. case f (kern s) of
      None \<Rightarrow> (None, s)
    | Some (Inl e, k) \<Rightarrow> (Some (-1), s\<lparr>kern := k, errno := e\<rparr>)
    | Some (Inr v, k) \<Rightarrow> (Some v, s\<lparr>kern := k\<rparr>))"

record 'k pipe_os =
  i_pipe :: "('k, int \<times> int) kcall"
  i_write :: "int \<Rightarrow> char list \<Rightarrow> 'k \<Rightarrow> ((int + int) \<times> 'k) option"
  i_close :: "int \<Rightarrow> ('k, int) kcall"

text \<open>The loop with the rounds that are left; \<open>Inl i\<close> when the write of round \<open>i\<close> does not return.\<close>

fun pipe_loop :: "'k pipe_os \<Rightarrow> int \<Rightarrow> nat \<Rightarrow> int \<Rightarrow> ('k, int + unit) io" where
  "pipe_loop os fd 0 i = ret (Inr ())"
| "pipe_loop os fd (Suc n) i = do {
     r \<leftarrow> sysblock (i_write os fd ''a'');
     (case r of
        None \<Rightarrow> ret (Inl i)
      | Some writeSize \<Rightarrow> do {
          _ \<leftarrow> (if writeSize \<noteq> 1 then printf ''%d write pipe return %ld\<newline>'' [FInt i, FInt writeSize] else ret ());
          pipe_loop os fd n (i + 1) }) }"

definition maxWriteCount :: nat where "maxWriteCount = 65536 + 1"

definition pipe_main :: "'k pipe_os \<Rightarrow> ('k, int + int) io" where
  "pipe_main os = do {
     r \<leftarrow> sysopt (i_pipe os);
     (case r of
        None \<Rightarrow> do { _ \<leftarrow> printf ''pipe return -1\<newline>'' []; ret (Inr (-1)) }
      | Some (fd0, fd1) \<Rightarrow> do {
          b \<leftarrow> pipe_loop os fd1 maxWriteCount 0;
          (case b of
             Inl i \<Rightarrow> ret (Inl i)
           | Inr _ \<Rightarrow> do {
               _ \<leftarrow> (if fd0 > 0 then sys (i_close os fd0) else ret 0);
               _ \<leftarrow> (if fd1 > 0 then sys (i_close os fd1) else ret 0);
               ret (Inr 0) }) }) }"

text \<open>A pipe of a given capacity that nobody reads: the bytes in it.\<close>

definition pipe_of :: "nat \<Rightarrow> nat pipe_os" where
  "pipe_of cap = \<lparr>i_pipe = (\<lambda>_. (Inr (3, 4), 0)),
     i_write = (\<lambda>fd bs n. if n + length bs \<le> cap then Some (Inr (int (length bs)), n + length bs) else None),
     i_close = (\<lambda>_ n. (Inr 0, n))\<rparr>"

lemma pipe_loop_run:
  "kern s \<le> cap \<Longrightarrow> run_state (pipe_loop (pipe_of cap) fd n i) s =
     (if kern s + n \<le> cap then (Inr (), s\<lparr>kern := kern s + n\<rparr>)
      else (Inl (i + int (cap - kern s)), s\<lparr>kern := cap\<rparr>))"
proof (induction n arbitrary: i s)
  case (Suc n)
  show ?case
  proof (cases "kern s < cap")
    case True
    then have "run_state (pipe_loop (pipe_of cap) fd (Suc n) i) s
        = run_state (pipe_loop (pipe_of cap) fd n (i + 1)) (s\<lparr>kern := Suc (kern s)\<rparr>)"
      by (simp add: pipe_of_def sysblock_def)
    with Suc.IH [of "s\<lparr>kern := Suc (kern s)\<rparr>" "i + 1"] True show ?thesis by auto
  next
    case False
    with Suc.prems show ?thesis by (cases s) (simp add: pipe_of_def sysblock_def)
  qed
qed simp

text \<open>
  \<open>io/pipe\<close> ends exactly when the pipe holds all the bytes it writes: with the 65536 bytes of a
  Linux pipe the last of its 65537 writes blocks for ever.
\<close>

lemma pipe_main_blocks:
  "fst (run_state (pipe_main (pipe_of cap)) s) = (if cap < 65537 then Inl (int cap) else Inr 0)"
  using pipe_loop_run [of "s\<lparr>kern := 0\<rparr>" cap 4 maxWriteCount 0]
  by (simp add: pipe_main_def io_simps maxWriteCount_def pipe_of_def)

section \<open>io/popen\<close>

record 'k popen_os =
  g_popen :: "string \<Rightarrow> string \<Rightarrow> ('k, int) kcall"
  g_fgets :: "nat \<Rightarrow> int \<Rightarrow> ('k, char list) kcall"
  g_pclose :: "int \<Rightarrow> ('k, int) kcall"

fun popen_loop :: "'k popen_os \<Rightarrow> int \<Rightarrow> nat \<Rightarrow> ('k, unit option) io" where
  "popen_loop os fp 0 = ret None"
| "popen_loop os fp (Suc fuel) = do {
     r \<leftarrow> sysopt (g_fgets os 512 fp);
     (case r of
        None \<Rightarrow> ret (Some ())
      | Some buffer \<Rightarrow> do { _ \<leftarrow> printf ''%s'' [FStr (cstr buffer)]; popen_loop os fp fuel }) }"

definition popen_main :: "'k popen_os \<Rightarrow> nat \<Rightarrow> ('k, int option) io" where
  "popen_main os fuel = do {
     f \<leftarrow> sysopt (g_popen os ''ls'' ''r'');
     (case f of
        None \<Rightarrow> do { _ \<leftarrow> printf ''popen return NULL\<newline>'' []; ret (Some 1) }
      | Some fp \<Rightarrow> do {
          r \<leftarrow> popen_loop os fp fuel;
          (case r of
             None \<Rightarrow> ret None
           | Some _ \<Rightarrow> do { _ \<leftarrow> sys (g_pclose os fp); ret (Some 0) }) }) }"

text \<open>\<open>fgets\<close>: at most \<open>m\<close> bytes, up to and including the first newline; and what is left.\<close>

fun take_line :: "nat \<Rightarrow> char list \<Rightarrow> char list \<times> char list" where
  "take_line 0 s = ([], s)"
| "take_line (Suc m) [] = ([], [])"
| "take_line (Suc m) (c # cs) = (if c = NL then ([c], cs) else (let (l, r) = take_line m cs in (c # l, r)))"

lemma take_line_split: "take_line m s = (l, r) \<Longrightarrow> s = l @ r"
  by (induction m s arbitrary: l r rule: take_line.induct) (auto split: if_splits prod.splits)

lemma take_line_progress: "s \<noteq> [] \<Longrightarrow> fst (take_line (Suc m) s) \<noteq> []"
  by (cases s) (auto split: prod.splits)

locale fgets_calls =
  fixes os :: "'k popen_os" and outp :: "'k \<Rightarrow> string \<Rightarrow> char list" and rest :: "'k \<Rightarrow> int \<Rightarrow> char list"
  assumes popen: "\<exists>fp k'. g_popen os cmd ''r'' k = (Inr fp, k') \<and> rest k' fp = outp k cmd"
    and fgets_end: "rest k fp = [] \<Longrightarrow> \<exists>e k'. g_fgets os n fp k = (Inl e, k')"
    and fgets_line: "rest k fp \<noteq> [] \<Longrightarrow> \<exists>k'. g_fgets os n fp k = (Inr (fst (take_line (n - 1) (rest k fp))), k')
      \<and> rest k' fp = snd (take_line (n - 1) (rest k fp))"
    and pclose: "\<exists>r k'. g_pclose os fp k = (Inr r, k')"
begin

lemma loop_prints:
  "length (rest (kern s) fp) < fuel \<Longrightarrow> NUL \<notin> set (rest (kern s) fp) \<Longrightarrow>
    \<exists>s' ls. run_state (popen_loop os fp fuel) s = (Some (), s') \<and> concat ls = rest (kern s) fp
      \<and> outs s' = outs s @ map (\<lambda>l. Printf ''%s'' [FStr l]) ls"
proof (induction fuel arbitrary: s)
  case (Suc fuel)
  let ?r = "rest (kern s) fp"
  show ?case
  proof (cases "?r = []")
    case True
    then show ?thesis using fgets_end [OF True, of 512] by (auto simp: io_simps intro!: exI [of _ "[]"])
  next
    case False
    obtain l r where lr: "take_line 511 ?r = (l, r)" by fastforce
    then have split: "?r = l @ r" and "l \<noteq> []"
      using take_line_split take_line_progress [OF False, of 510] by (auto simp: numeral_eq_Suc)
    obtain k where k: "g_fgets os 512 fp (kern s) = (Inr l, k)" "rest k fp = r"
      using fgets_line [OF False, of 512] lr by auto
    have cl: "cstr l = l" using Suc.prems(2) split by simp
    let ?s = "s\<lparr>kern := k, outs := outs s @ [Printf ''%s'' [FStr l]]\<rparr>"
    have "length r < fuel" "NUL \<notin> set r" using Suc.prems split \<open>l \<noteq> []\<close> by (auto simp: neq_Nil_conv)
    then obtain s' ls where "run_state (popen_loop os fp fuel) ?s = (Some (), s')" "concat ls = r"
      "outs s' = outs ?s @ map (\<lambda>l. Printf ''%s'' [FStr l]) ls" using Suc.IH [of ?s] k(2) by auto
    with k cl split show ?thesis by (intro exI [of _ s'] exI [of _ "l # ls"]) (simp add: io_simps)
  qed
qed simp

lemma main_prints:
  assumes "length (outp (kern s) ''ls'') < fuel" and "NUL \<notin> set (outp (kern s) ''ls'')"
  shows "\<exists>s' ls. run_state (popen_main os fuel) s = (Some 0, s') \<and> concat ls = outp (kern s) ''ls''
      \<and> outs s' = outs s @ map (\<lambda>l. Printf ''%s'' [FStr l]) ls"
proof -
  obtain fp k where k: "g_popen os ''ls'' ''r'' (kern s) = (Inr fp, k)" "rest k fp = outp (kern s) ''ls''"
    using popen by blast
  obtain s1 ls where s1: "run_state (popen_loop os fp fuel) (s\<lparr>kern := k\<rparr>) = (Some (), s1)"
    "concat ls = outp (kern s) ''ls''" "outs s1 = outs s @ map (\<lambda>l. Printf ''%s'' [FStr l]) ls"
    using loop_prints [of "s\<lparr>kern := k\<rparr>" fp fuel] k assms by auto
  obtain r k' where "g_pclose os fp (kern s1) = (Inr r, k')" using pclose by blast
  with k s1 show ?thesis by (auto simp: popen_main_def io_simps)
qed

end

text \<open>A command whose output is a given text; the state is what has not been read yet.\<close>

definition cmd_os :: "char list \<Rightarrow> (char list) popen_os" where
  "cmd_os w = \<lparr>g_popen = (\<lambda>_ _ _. (Inr 5, w)),
     g_fgets = (\<lambda>n fp k. if k = [] then (Inl 0, k) else (Inr (fst (take_line (n - 1) k)), snd (take_line (n - 1) k))),
     g_pclose = (\<lambda>fp k. (Inr 0, k))\<rparr>"

interpretation cmd: fgets_calls "cmd_os w" "\<lambda>_ _. w" "\<lambda>k _. k" for w
  by unfold_locales (auto simp: cmd_os_def)

text \<open>
  C30. \<open>io/popen\<close> copies the whole output of the command, as long as it has no null byte: whatever
  the lengths of its lines, the pieces of at most 511 bytes that are printed, put together, are
  the output, and a fuel of one more than its bytes is enough for the program to end with 0.
\<close>

theorem popen_prints_output:
  assumes "fgets_calls os outp rest" and "length (outp (kern s) ''ls'') < fuel" and "NUL \<notin> set (outp (kern s) ''ls'')"
  shows "\<exists>s' ls. run_state (popen_main os fuel) s = (Some 0, s') \<and> concat ls = outp (kern s) ''ls''
      \<and> outs s' = outs s @ map (\<lambda>l. Printf ''%s'' [FStr l]) ls"
  by (rule fgets_calls.main_prints [OF assms])

theorem popen_prints_output_witness:
  "\<exists>s' ls. run_state (popen_main (cmd_os (replicate 600 (CHR ''x'') @ [NL])) 700) \<lparr>kern = [], errno = 0, outs = []\<rparr> = (Some 0, s')
      \<and> concat ls = replicate 600 (CHR ''x'') @ [NL] \<and> outs s' = map (\<lambda>l. Printf ''%s'' [FStr l]) ls"
  using popen_prints_output [where s = "\<lparr>kern = [], errno = 0, outs = []\<rparr>" and fuel = 700,
      OF cmd.fgets_calls_axioms [of "replicate 600 (CHR ''x'') @ [NL]"]]
  by simp

section \<open>io/redirect\<close>

fun redirect_loop :: "nat \<Rightarrow> int \<Rightarrow> ('k, unit) io" where
  "redirect_loop 0 i = ret ()"
| "redirect_loop (Suc n) i = do {
     _ \<leftarrow> printf ''%d\<newline>'' [FInt i];
     _ \<leftarrow> eprintf (TAB # ''%d\<newline>'') [FInt i];
     redirect_loop n (i + 1) }"

definition redirect_main :: "('k, int) io" where
  "redirect_main = do { _ \<leftarrow> redirect_loop 20000 0; ret 0 }"

text \<open>The text of the two streams.\<close>

fun render :: "string \<Rightarrow> farg list \<Rightarrow> string" where
  "render [] as = []"
| "render (c # f) as = (case (c, f, as) of
      (CHR ''%'', CHR ''d'' # f', FInt i # as') \<Rightarrow> num0 0 i @ render f' as'
    | _ \<Rightarrow> c # render f as)"

fun out_text :: "outev list \<Rightarrow> string" where
  "out_text [] = []"
| "out_text (Printf f as # es) = render f as @ out_text es"
| "out_text (_ # es) = out_text es"

fun err_text :: "outev list \<Rightarrow> string" where
  "err_text [] = []"
| "err_text (Eprintf f as # es) = render f as @ err_text es"
| "err_text (_ # es) = err_text es"

text \<open>
  The writes the kernel gets. \<open>stdout\<close> is buffered, so its text is cut anywhere; the writes of the
  two streams come in any order. With \<open>> f 2>&1\<close> both have one offset, with \<open>> f 2>f\<close> each has
  its own and they overwrite each other.
\<close>

datatype fwrite = OutW string | ErrW string

fun out_bytes :: "fwrite list \<Rightarrow> string" where
  "out_bytes [] = []"
| "out_bytes (OutW b # ws) = b @ out_bytes ws"
| "out_bytes (ErrW b # ws) = out_bytes ws"

fun err_bytes :: "fwrite list \<Rightarrow> string" where
  "err_bytes [] = []"
| "err_bytes (OutW b # ws) = err_bytes ws"
| "err_bytes (ErrW b # ws) = b @ err_bytes ws"

fun shared_file :: "fwrite list \<Rightarrow> string \<Rightarrow> string" where
  "shared_file [] c = c"
| "shared_file (OutW b # ws) c = shared_file ws (c @ b)"
| "shared_file (ErrW b # ws) c = shared_file ws (c @ b)"

definition put_at :: "nat \<Rightarrow> string \<Rightarrow> string \<Rightarrow> string" where
  "put_at p b c = take p c @ replicate (p - length c) NUL @ b @ drop (p + length b) c"

fun separate_file :: "fwrite list \<Rightarrow> nat \<Rightarrow> nat \<Rightarrow> string \<Rightarrow> string" where
  "separate_file [] p q c = c"
| "separate_file (OutW b # ws) p q c = separate_file ws (p + length b) q (put_at p b c)"
| "separate_file (ErrW b # ws) p q c = separate_file ws p (q + length b) (put_at q b c)"

lemma shared_count: "count_list (shared_file ws c) x = count_list c x + count_list (out_bytes ws) x + count_list (err_bytes ws) x"
  by (induction ws c rule: shared_file.induct) auto

lemma shared_length: "length (shared_file ws c) = length c + length (out_bytes ws) + length (err_bytes ws)"
  by (induction ws c rule: shared_file.induct) auto

lemma length_put_at: "p \<le> length c \<Longrightarrow> length (put_at p b c) = max (length c) (p + length b)"
  by (auto simp: put_at_def)

lemma separate_length:
  "p \<le> length c \<Longrightarrow> q \<le> length c \<Longrightarrow>
    length (separate_file ws p q c) = max (length c) (max (p + length (out_bytes ws)) (q + length (err_bytes ws)))"
  by (induction ws p q c rule: separate_file.induct) (auto simp: length_put_at)

subsection \<open>The text of the program\<close>

lemma digits_NL: "count_list (digits n) NL = 0"
proof (induction n rule: digits.induct)
  case (1 n)
  have "digit_char m \<noteq> NL" if "m < 10" for m
  proof
    assume "digit_char m = NL"
    moreover have "digit NL = None" by (simp add: digit_def)
    ultimately show False using digit_digit_char [OF that] by simp
  qed
  with 1 show ?case by (subst digits.simps) auto
qed

lemma redirect_events:
  "\<exists>s'. run_state (redirect_loop n i) s = ((), s') \<and> outs s' = outs s
    @ concat (map (\<lambda>j. [Printf ''%d\<newline>'' [FInt (i + int j)], Eprintf (TAB # ''%d\<newline>'') [FInt (i + int j)]]) [0..<n])"
proof (induction n arbitrary: i s)
  case (Suc n)
  have *: "[0..<Suc n] = 0 # map Suc [0..<n]" by (simp add: upt_conv_Cons map_Suc_upt del: upt_Suc)
  let ?s = "s\<lparr>outs := outs s @ [Printf ''%d\<newline>'' [FInt i], Eprintf (TAB # ''%d\<newline>'') [FInt i]]\<rparr>"
  from Suc.IH [of "i + 1" ?s] show ?case
    by (auto simp: io_simps * comp_def algebra_simps simp del: upt_Suc)
qed simp

definition round_events :: "nat list \<Rightarrow> outev list" where
  "round_events js = concat (map (\<lambda>j. [Printf ''%d\<newline>'' [FInt (int j)], Eprintf (TAB # ''%d\<newline>'') [FInt (int j)]]) js)"

lemma render_round:
  "render ''%d\<newline>'' [FInt (int j)] = digits j @ [NL]" "render (TAB # ''%d\<newline>'') [FInt (int j)] = TAB # digits j @ [NL]"
  by (simp_all add: num0_def pad_def)

lemma round_texts:
  "count_list (out_text (round_events js)) NL = length js" "count_list (err_text (round_events js)) NL = length js"
  "length (err_text (round_events js)) = length (out_text (round_events js)) + length js"
  by (induction js) (simp_all add: round_events_def render_round digits_NL del: render.simps)

text \<open>
  C31. \<open>io/redirect\<close> with its output in one file, as the comment in the source proposes. However the
  library cuts the 20000 lines of each stream into writes, and in whatever order the writes of
  the two streams arrive: with one offset (\<open>2>&1\<close>) no byte is lost and the file has 40000 lines;
  with two offsets on the same file it is only as long as the text of \<open>stderr\<close>, that is, as many
  bytes are lost as \<open>stdout\<close> has.
\<close>

theorem redirect_offsets:
  assumes "run_state redirect_main \<lparr>kern = k, errno = e, outs = []\<rparr> = (r, s')"
    and "out_bytes ws = out_text (outs s')" and "err_bytes ws = err_text (outs s')"
  shows "r = 0 \<and> count_list (shared_file ws []) NL = 40000
    \<and> length (shared_file ws []) = length (out_text (outs s')) + length (err_text (outs s'))
    \<and> length (separate_file ws 0 0 []) = length (err_text (outs s'))
    \<and> length (err_text (outs s')) = length (out_text (outs s')) + 20000"
proof -
  obtain t where t: "run_state (redirect_loop 20000 0) \<lparr>kern = k, errno = e, outs = []\<rparr> = ((), t)"
      "outs t = round_events [0..<20000]"
    using redirect_events [of 20000 0 "\<lparr>kern = k, errno = e, outs = []\<rparr>"] by (auto simp: round_events_def simp del: redirect_loop.simps)
  then have r: "r = 0" "s' = t" using assms(1) by (simp_all add: redirect_main_def del: redirect_loop.simps)
  have n: "count_list (out_text (outs t)) NL = 20000" "count_list (err_text (outs t)) NL = 20000"
      "length (err_text (outs t)) = length (out_text (outs t)) + 20000"
    unfolding t(2) round_texts by simp_all
  then show ?thesis using assms(2,3) r shared_count [of ws "[]" NL] shared_length [of ws "[]"] separate_length [of 0 "[]" 0 ws]
    by (simp add: max_def)
qed

theorem redirect_offsets_witness:
  "\<exists>s'. run_state redirect_main \<lparr>kern = (), errno = 0, outs = []\<rparr> = (0, s')
     \<and> count_list (shared_file [OutW (out_text (outs s')), ErrW (err_text (outs s'))] []) NL = 40000"
proof -
  obtain r s' where r: "run_state redirect_main \<lparr>kern = (), errno = 0, outs = []\<rparr> = (r, s')" by fastforce
  from redirect_offsets [OF r, of "[OutW (out_text (outs s')), ErrW (err_text (outs s'))]"] r show ?thesis by simp
qed

end
