(* ===== verification/Thread_Cancel.thy ===== *)
theory Thread_Cancel
  imports C_Prelude
begin

text \<open>
  \<open>thread/cancel/main.c\<close>: a thread that holds cancellation off for its first second and is
  cancelled by \<open>main\<close>. A step is one statement of the thread or of \<open>main\<close>. Cancellation is
  deferred: a request is acted on where the thread calls \<open>sleep\<close>, while cancellation is enabled,
  and it may be acted on where it prints (POSIX leaves that open). \<open>pthread_cancel\<close> only leaves the request.
  The two calls that set the type and the state do not fail with these arguments; \<open>pthread_create\<close>,
  \<open>pthread_cancel\<close> and \<open>pthread_join\<close> can, and then \<open>main\<close> returns, which ends the thread as well.
\<close>

section \<open>State and steps\<close>

text \<open>Places of \<open>_func\<close>; \<open>CSleep i\<close> is inside the sleep of round \<open>i\<close>.\<close>

datatype child_pc = CType | CTypeMsg | CDisable | CDisableMsg | CLoop nat | CSleep nat | CEnable | CEnableMsg
  | CFinish | CReturned nat | CCancelled

datatype cancel_main_pc = XCreate | XSleep | XCancel | XJoin | XResult bool nat | XFail

record cstate =
  c_child :: "child_pc option"
  c_enabled :: bool
  c_pending :: bool
  c_main :: cancel_main_pc
  c_log :: "string list"

definition c_rounds :: nat where "c_rounds = 3"

definition c_start :: cstate where
  "c_start = \<lparr>c_child = None, c_enabled = True, c_pending = False, c_main = XCreate, c_log = []\<rparr>"

definition c_init :: "cstate \<Rightarrow> bool" where
  "c_init s \<longleftrightarrow> s = c_start"

text \<open>Where a request is acted on: it must be in \<open>sleep\<close>, and may be where the thread prints.\<close>

fun prints_at :: "child_pc \<Rightarrow> bool" where
  "prints_at CTypeMsg = True"
| "prints_at CDisableMsg = True"
| "prints_at (CLoop i) = True"
| "prints_at CEnableMsg = True"
| "prints_at CFinish = True"
| "prints_at _ = False"

fun sleeps_at :: "child_pc \<Rightarrow> bool" where
  "sleeps_at (CSleep i) = True"
| "sleeps_at _ = False"

definition say :: "string \<Rightarrow> child_pc \<Rightarrow> cstate \<Rightarrow> cstate" where
  "say m p s = s\<lparr>c_log := c_log s @ [m], c_child := Some p\<rparr>"

inductive func_step :: "nat \<Rightarrow> cstate \<Rightarrow> cstate \<Rightarrow> bool" for t :: nat where
  set_type: "c_child s = Some CType \<Longrightarrow> func_step t s (s\<lparr>c_child := Some CTypeMsg\<rparr>)"
| type_msg: "c_child s = Some CTypeMsg \<Longrightarrow> func_step t s (say ''set cancel type to DEFERED'' CDisable s)"
| disable: "c_child s = Some CDisable \<Longrightarrow> func_step t s (s\<lparr>c_child := Some CDisableMsg, c_enabled := False\<rparr>)"
| disable_msg: "c_child s = Some CDisableMsg \<Longrightarrow> func_step t s (say ''set cancel state to DISABLED'' (CLoop 0) s)"
| round: "c_child s = Some (CLoop i) \<Longrightarrow> i < t \<Longrightarrow> func_step t s (say ''will sleep 1 s'' (CSleep i) s)"
| awake: "c_child s = Some (CSleep i) \<Longrightarrow> \<not> (c_enabled s \<and> c_pending s) \<Longrightarrow>
    func_step t s (s\<lparr>c_child := Some (if i = 0 then CEnable else CLoop (Suc i))\<rparr>)"
| enable: "c_child s = Some CEnable \<Longrightarrow> func_step t s (s\<lparr>c_child := Some CEnableMsg, c_enabled := True\<rparr>)"
| enable_msg: "c_child s = Some CEnableMsg \<Longrightarrow> func_step t s (say ''set cancel state to DISABLED'' (CLoop 1) s)"
| leave: "c_child s = Some (CLoop i) \<Longrightarrow> \<not> i < t \<Longrightarrow> func_step t s (s\<lparr>c_child := Some CFinish\<rparr>)"
| finish: "c_child s = Some CFinish \<Longrightarrow> func_step t s (say ''sleep finish, will return'' (CReturned t) s)"
| acted_on: "c_child s = Some p \<Longrightarrow> prints_at p \<or> sleeps_at p \<Longrightarrow> c_enabled s \<Longrightarrow> c_pending s \<Longrightarrow>
    func_step t s (s\<lparr>c_child := Some CCancelled\<rparr>)"

inductive cancel_main_step :: "cstate \<Rightarrow> cstate \<Rightarrow> bool" where
  created: "c_main s = XCreate \<Longrightarrow> cancel_main_step s (s\<lparr>c_main := XSleep, c_child := Some CType\<rparr>)"
| create_fails: "c_main s = XCreate \<Longrightarrow> cancel_main_step s (s\<lparr>c_log := c_log s @ [''pthread_cread failed''], c_main := XFail\<rparr>)"
| main_awake: "c_main s = XSleep \<Longrightarrow> cancel_main_step s (s\<lparr>c_log := c_log s @ [''will cancel thread''], c_main := XCancel\<rparr>)"
| cancel: "c_main s = XCancel \<Longrightarrow> cancel_main_step s (s\<lparr>c_pending := True, c_main := XJoin\<rparr>)"
| cancel_fails: "c_main s = XCancel \<Longrightarrow>
    cancel_main_step s (s\<lparr>c_log := c_log s @ [''pthread_cancel failed''], c_main := XFail, c_child := None\<rparr>)"
| join_fails: "c_main s = XJoin \<Longrightarrow>
    cancel_main_step s (s\<lparr>c_log := c_log s @ [''pthread_join failed''], c_main := XFail, c_child := None\<rparr>)"
| join_cancelled: "c_main s = XJoin \<Longrightarrow> c_child s = Some CCancelled \<Longrightarrow>
    cancel_main_step s (s\<lparr>c_log := c_log s @ [''child was cancelled''], c_main := XResult True 0\<rparr>)"
| join_returned: "c_main s = XJoin \<Longrightarrow> c_child s = Some (CReturned v) \<Longrightarrow>
    cancel_main_step s (s\<lparr>c_log := c_log s @ [''child thread exit normally''], c_main := XResult False v\<rparr>)"

definition cancel_step :: "nat \<Rightarrow> cstate \<Rightarrow> cstate \<Rightarrow> bool" where
  "cancel_step t s u \<longleftrightarrow> func_step t s u \<or> cancel_main_step s u"

section \<open>Invariants\<close>

text \<open>
  Cancellation is disabled exactly from \<open>CDisableMsg\<close> to \<open>CEnable\<close>. A request while a sleep of a later
  round is still to be finished cannot be missed.
\<close>

fun held_off :: "child_pc \<Rightarrow> bool" where
  "held_off CDisableMsg = True"
| "held_off (CLoop i) = (i = 0)"
| "held_off (CSleep i) = (i = 0)"
| "held_off CEnable = True"
| "held_off _ = False"

text \<open>The last sleep is not over: the thread is before it or in it.\<close>

fun sleep_ahead :: "nat \<Rightarrow> child_pc \<Rightarrow> bool" where
  "sleep_ahead t (CLoop i) = (i < t)"
| "sleep_ahead t (CSleep i) = (i < t)"
| "sleep_ahead t CFinish = False"
| "sleep_ahead t (CReturned v) = False"
| "sleep_ahead t CCancelled = False"
| "sleep_ahead t _ = True"

definition child_ok :: "nat \<Rightarrow> bool \<Rightarrow> bool \<Rightarrow> child_pc \<Rightarrow> bool" where
  "child_ok t enabled pending p \<longleftrightarrow>
     (if p = CCancelled then enabled \<and> pending else (enabled \<longleftrightarrow> \<not> held_off p))
     \<and> (\<forall>i. p = CSleep i \<longrightarrow> i < t) \<and> (\<forall>v. p = CReturned v \<longrightarrow> v = t)"

definition c_inv :: "nat \<Rightarrow> cstate \<Rightarrow> bool" where
  "c_inv t s \<longleftrightarrow>
     (case c_child s of
        None \<Rightarrow> c_main s = XCreate \<and> \<not> c_pending s \<and> c_enabled s \<or> c_main s = XFail
      | Some p \<Rightarrow> c_main s \<noteq> XCreate \<and> c_main s \<noteq> XFail \<and> child_ok t (c_enabled s) (c_pending s) p)
     \<and> (\<forall>b v. c_main s = XResult b v \<longrightarrow> c_child s = Some (if b then CCancelled else CReturned v))
     \<and> (c_pending s \<longrightarrow> c_main s = XJoin \<or> c_main s = XFail \<or> (\<exists>b v. c_main s = XResult b v))"

lemma c_inv_child:
  assumes "c_inv t s" and "c_child s = Some p" and "p \<noteq> CCancelled" and "\<forall>v. p \<noteq> CReturned v"
    and "c_main u = c_main s" and "c_pending u = c_pending s" and "c_child u = Some q"
    and "child_ok t (c_enabled u) (c_pending u) q"
  shows "c_inv t u"
  using assms by (cases "c_main s") (auto simp: c_inv_def)

lemma c_inv_result: "c_inv t s \<Longrightarrow> c_main s = XResult b v \<Longrightarrow> c_child s = Some (if b then CCancelled else CReturned v)"
  by (simp add: c_inv_def)

lemma c_inv_ok: "c_inv t s \<Longrightarrow> c_child s = Some p \<Longrightarrow> child_ok t (c_enabled s) (c_pending s) p"
  by (simp add: c_inv_def)

lemma func_step_child:
  "func_step t s u \<Longrightarrow> \<exists>p q. c_child s = Some p \<and> p \<noteq> CCancelled \<and> (\<forall>v. p \<noteq> CReturned v)
     \<and> c_main u = c_main s \<and> c_pending u = c_pending s \<and> c_child u = Some q"
  by (induction rule: func_step.induct) (auto simp: say_def)

lemma func_step_ok:
  assumes "func_step t s u" and "1 < t" and "c_child s = Some p" and "child_ok t (c_enabled s) (c_pending s) p"
    and "c_child u = Some q"
  shows "child_ok t (c_enabled u) (c_pending u) q"
  using assms
proof (cases rule: func_step.cases)
  case (acted_on p')
  with assms show ?thesis by (simp add: child_ok_def)
qed (use assms(2-) in \<open>auto simp: child_ok_def say_def split: if_splits\<close>)

lemma c_inv_func: "func_step t s u \<Longrightarrow> 1 < t \<Longrightarrow> c_inv t s \<Longrightarrow> c_inv t u"
  using func_step_child [of t s u] func_step_ok [of t s u] c_inv_ok [of t s] c_inv_child [of t s _ u] by metis

lemma c_inv_main: "cancel_main_step s u \<Longrightarrow> c_inv t s \<Longrightarrow> c_inv t u"
  by (induction rule: cancel_main_step.induct) (auto simp: c_inv_def child_ok_def split: option.splits if_splits)

lemma c_inv_start: "c_inv t c_start"
  by (simp add: c_inv_def c_start_def)

interpretation canc: inductive_invariant c_init "cancel_step c_rounds" "c_inv c_rounds"
  by unfold_locales
    (auto simp: c_init_def cancel_step_def c_rounds_def c_inv_start intro: c_inv_func c_inv_main)

text \<open>
  A request that comes while a sleep is ahead: from then on the thread cannot return. Without a
  thread the program has ended.
\<close>

definition caught :: "nat \<Rightarrow> cstate \<Rightarrow> bool" where
  "caught t s \<longleftrightarrow> c_inv t s \<and> c_pending s \<and> (\<forall>p. c_child s = Some p \<longrightarrow> p = CCancelled \<or> sleep_ahead t p)"

lemma caught_func:
  assumes "func_step t s u" and "1 < t" and "caught t s"
  shows "\<exists>q. c_child u = Some q \<and> (q = CCancelled \<or> sleep_ahead t q)"
proof -
  from assms(3) obtain p where p: "c_child s = Some p" "p = CCancelled \<or> sleep_ahead t p" "c_pending s"
      "child_ok t (c_enabled s) (c_pending s) p"
    unfolding caught_def using c_inv_ok func_step_child [OF assms(1)] by blast
  from assms(1) show ?thesis
  proof (cases rule: func_step.cases)
    case (awake i)
    with p assms(2) show ?thesis by (auto simp: child_ok_def)
  qed (use p assms(2) in \<open>auto simp: say_def\<close>)
qed

lemma caught_step: "cancel_step t s u \<Longrightarrow> 1 < t \<Longrightarrow> caught t s \<Longrightarrow> caught t u"
proof -
  assume a: "cancel_step t s u" "1 < t" "caught t s"
  then have inv: "c_inv t u" using c_inv_func c_inv_main by (auto simp: cancel_step_def caught_def)
  from a(1) consider (f) "func_step t s u" | (m) "cancel_main_step s u" by (auto simp: cancel_step_def)
  then show "caught t u"
  proof cases
    case f
    from func_step_child [OF f] have "c_pending u = c_pending s" by blast
    with a inv caught_func [OF f a(2,3)] show ?thesis by (auto simp: caught_def)
  next
    case m
    then show ?thesis using a(3) inv
      by (cases rule: cancel_main_step.cases) (auto simp: caught_def c_inv_def)
  qed
qed

interpretation caught: inductive_invariant "caught c_rounds" "cancel_step c_rounds" "caught c_rounds"
  by unfold_locales (auto simp: c_rounds_def intro: caught_step)

section \<open>The outcome\<close>

text \<open>The thread alone comes to its end: a rank that every statement lowers.\<close>

fun child_rank :: "nat \<Rightarrow> child_pc \<Rightarrow> nat" where
  "child_rank t CType = 2 * t + 20"
| "child_rank t CTypeMsg = 2 * t + 19"
| "child_rank t CDisable = 2 * t + 18"
| "child_rank t CDisableMsg = 2 * t + 17"
| "child_rank t (CLoop i) = (if i = 0 then 2 * t + 16 else 2 * (t - i) + 5)"
| "child_rank t (CSleep i) = (if i = 0 then 2 * t + 15 else 2 * (t - i) + 4)"
| "child_rank t CEnable = 2 * t + 14"
| "child_rank t CEnableMsg = 2 * t + 13"
| "child_rank t CFinish = 2"
| "child_rank t _ = 0"

definition rank_of :: "nat \<Rightarrow> cstate \<Rightarrow> nat" where
  "rank_of t s = (case c_child s of None \<Rightarrow> 0 | Some p \<Rightarrow> child_rank t p)"

lemma func_rank:
  assumes "func_step t s u" and "caught t s"
  shows "rank_of t u < rank_of t s"
proof -
  from assms(2) obtain p where p: "c_child s = Some p" "child_ok t (c_enabled s) (c_pending s) p"
    unfolding caught_def using c_inv_ok func_step_child [OF assms(1)] by blast
  from assms(1) show ?thesis
  proof (cases rule: func_step.cases)
    case (acted_on q)
    then show ?thesis by (cases q) (auto simp: rank_of_def)
  qed (use p in \<open>auto simp: rank_of_def say_def child_ok_def\<close>)
qed

interpretation child: decreasing_system "func_step c_rounds" "caught c_rounds" "rank_of c_rounds"
  by unfold_locales (auto simp: c_rounds_def cancel_step_def intro: func_rank caught_step)

lemma func_not_stuck:
  assumes "caught t s" and "\<And>u. \<not> func_step t s u" and "c_child s \<noteq> None"
  shows "c_child s = Some CCancelled"
proof -
  from assms(1,3) obtain p where p: "c_child s = Some p" "p = CCancelled \<or> sleep_ahead t p" "c_pending s"
    unfolding caught_def by blast
  have "\<not> (sleeps_at p \<and> c_enabled s)" using acted_on [OF p(1)] p(3) assms(2) by blast
  with p assms(2) show ?thesis
    by (cases p) (auto dest: set_type type_msg disable disable_msg enable enable_msg round awake)
qed

lemma caught_ends:
  assumes "caught c_rounds s" and "\<And>b v. c_main s \<noteq> XResult b v" and "c_child s \<noteq> None"
  shows "\<exists>u. (cancel_step c_rounds)\<^sup>*\<^sup>* s u \<and> c_main u = XResult True 0"
proof -
  obtain t where t: "(func_step c_rounds)\<^sup>*\<^sup>* s t" "caught c_rounds t" "\<forall>u. \<not> func_step c_rounds t u"
    using child.reaches_stuck [OF assms(1)] by blast
  have "c_child t \<noteq> None" using t(1) assms(3)
    by (induction rule: rtranclp_induct) (auto dest: func_step_child)
  then have c: "c_child t = Some CCancelled" using func_not_stuck t(2,3) by blast
  have m: "c_main t = c_main s" using t(1)
    by (induction rule: rtranclp_induct) (auto dest: func_step_child)
  have "c_main t = XJoin" using t(2) assms(2) m c by (auto simp: caught_def c_inv_def)
  then have "cancel_step c_rounds t (t\<lparr>c_log := c_log t @ [''child was cancelled''], c_main := XResult True 0\<rparr>)"
    using c by (auto simp: cancel_step_def intro: join_cancelled)
  moreover have "(cancel_step c_rounds)\<^sup>*\<^sup>* s t"
    using t(1) by (rule rtranclp_mono [THEN predicate2D, rotated]) (auto simp: cancel_step_def)
  ultimately show ?thesis
    by (intro exI [of _ "t\<lparr>c_log := c_log t @ [''child was cancelled''], c_main := XResult True 0\<rparr>"])
      (auto intro: rtranclp.rtrancl_into_rtrancl)
qed

text \<open>
  C16. \<open>thread/cancel\<close>. What \<open>main\<close> reports is what happened to the thread. While the thread holds
  cancellation off -- from its \<open>pthread_setcancelstate\<close> through its first sleep -- no step cancels
  it. But once \<open>main\<close> has asked for it while a sleep of the thread is not over, the thread never
  returns normally, whatever the interleaving, and \<open>main\<close> can still come to its report that the
  child was cancelled.
\<close>

theorem cancel_outcome:
  assumes "reach c_init (cancel_step c_rounds) s"
  shows "(c_main s = XResult b v \<longrightarrow> c_child s = Some (if b then CCancelled else CReturned 3))
    \<and> (c_child s = Some p \<longrightarrow> held_off p \<longrightarrow> cancel_step c_rounds s u \<longrightarrow> c_child u \<noteq> Some CCancelled)
    \<and> (c_pending s \<longrightarrow> c_child s = Some p \<longrightarrow> sleep_ahead c_rounds p \<longrightarrow>
        (\<forall>w r. (cancel_step c_rounds)\<^sup>*\<^sup>* s w \<longrightarrow> c_child w \<noteq> Some (CReturned r))
        \<and> (\<exists>w. (cancel_step c_rounds)\<^sup>*\<^sup>* s w \<and> c_main w = XResult True 0))"
proof (intro conjI impI allI)
  have inv: "c_inv c_rounds s" using canc.inv_reach [OF assms] .
  assume "c_main s = XResult b v"
  with inv show "c_child s = Some (if b then CCancelled else CReturned 3)"
    by (auto simp: c_inv_def child_ok_def c_rounds_def)
next
  have inv: "c_inv c_rounds s" using canc.inv_reach [OF assms] .
  assume p: "c_child s = Some p" "held_off p" and u: "cancel_step c_rounds s u"
  have "\<not> c_enabled s" using c_inv_ok [OF inv p(1)] p(2) by (auto simp: child_ok_def split: if_splits)
  with p u inv show "c_child u \<noteq> Some CCancelled"
    by (auto simp: cancel_step_def c_inv_def say_def elim!: func_step.cases cancel_main_step.cases split: if_splits)
next
  fix w r
  assume p: "c_pending s" "c_child s = Some p" "sleep_ahead c_rounds p"
  then have c: "caught c_rounds s" using canc.inv_reach [OF assms] by (auto simp: caught_def)
  assume "(cancel_step c_rounds)\<^sup>*\<^sup>* s w"
  then have "caught c_rounds w" using caught.inv_run c by blast
  then show "c_child w \<noteq> Some (CReturned r)" by (auto simp: caught_def)
next
  assume p: "c_pending s" "c_child s = Some p" "sleep_ahead c_rounds p"
  then have c: "caught c_rounds s" using canc.inv_reach [OF assms] by (auto simp: caught_def)
  have "c_main s \<noteq> XResult b v" for b v
    using c_inv_result [of c_rounds s b v] p(2,3) c by (cases b) (auto simp: caught_def)
  with caught_ends [OF c] p(2) show "\<exists>w. (cancel_step c_rounds)\<^sup>*\<^sup>* s w \<and> c_main w = XResult True 0" by blast
qed

theorem cancel_outcome_witness:
  "\<exists>s. reach c_init (cancel_step c_rounds) s \<and> c_pending s \<and> c_child s = Some CType
     \<and> (\<exists>w. (cancel_step c_rounds)\<^sup>*\<^sup>* s w \<and> c_main w = XResult True 0)"
proof -
  let ?s1 = "c_start\<lparr>c_main := XSleep, c_child := Some CType\<rparr>"
  let ?s2 = "?s1\<lparr>c_log := c_log ?s1 @ [''will cancel thread''], c_main := XCancel\<rparr>"
  let ?s3 = "?s2\<lparr>c_pending := True, c_main := XJoin\<rparr>"
  have "cancel_step c_rounds c_start ?s1" "cancel_step c_rounds ?s1 ?s2" "cancel_step c_rounds ?s2 ?s3"
    using created [of c_start] main_awake [of ?s1] cancel [of ?s2] by (simp_all add: cancel_step_def c_start_def)
  moreover have "c_init c_start" by (simp add: c_init_def)
  ultimately have "reach c_init (cancel_step c_rounds) ?s3" by (meson reach.intros)
  with cancel_outcome [OF this, of True 0 CType ?s3] show ?thesis
    by (intro exI [of _ ?s3]) (simp add: c_rounds_def)
qed

end
