(* ===== verification/Thread_Data.thy ===== *)
theory Thread_Data
  imports C_Prelude
begin

text \<open>
  \<open>thread/tls-tsd/main.c\<close>: two threads, each with a thread-local number and a buffer under a
  common key whose destructor frees it. Steps are single statements of the threads and of
  \<open>main\<close>, in any order; \<open>malloc\<close>, \<open>pthread_key_create\<close>, \<open>pthread_create\<close> and
  \<open>pthread_setspecific\<close> can fail. A \<open>free\<close> of memory that is not allocated is a place of its own.
\<close>

section \<open>State and steps\<close>

datatype tpc = TNew | TTls | TMalloc | TSet | TSleep | TGet | TShow | TExit | TDone | TCrash

text \<open>
  A thread: its place, \<open>tls\<close>, the value under the key, its variable \<open>buffer\<close>, what it has
  printed for \<open>pthread_getspecific\<close> and for \<open>tls\<close>, and, for the statements only, what its
  \<open>malloc\<close> gave.
\<close>

record thr =
  th_pc :: tpc
  th_tls :: int
  th_tsd :: "nat option"
  th_buf :: "nat option"
  th_got :: "nat option option"
  th_shown :: "int option"
  th_mine :: "nat option"

datatype tmain = NKey | NCreate1 | NCreate2 | NJoin1 | NJoin2 | NEnd int

text \<open>\<open>ts_leaked\<close> are the buffers nobody can free any more.\<close>

record tsys =
  ts_thr :: "nat \<Rightarrow> thr"
  ts_heap :: "nat set"
  ts_fresh :: nat
  ts_freed :: "nat list"
  ts_leaked :: "nat set"
  ts_main :: tmain

definition thr_new :: thr where
  "thr_new = \<lparr>th_pc = TNew, th_tls = 0, th_tsd = None, th_buf = None, th_got = None, th_shown = None, th_mine = None\<rparr>"

definition ts_start :: tsys where
  "ts_start = \<lparr>ts_thr = (\<lambda>_. thr_new), ts_heap = {}, ts_fresh = 0, ts_freed = [], ts_leaked = {}, ts_main = NKey\<rparr>"

definition ts_init :: "tsys \<Rightarrow> bool" where
  "ts_init s \<longleftrightarrow> s = ts_start"

definition upd :: "nat \<Rightarrow> (thr \<Rightarrow> thr) \<Rightarrow> tsys \<Rightarrow> tsys" where
  "upd i f s = s\<lparr>ts_thr := (ts_thr s)(i := f (ts_thr s i))\<rparr>"

inductive tsd_func_step :: "nat \<Rightarrow> tsys \<Rightarrow> tsys \<Rightarrow> bool" for i :: nat where
  t_tls: "th_pc (ts_thr s i) = TTls \<Longrightarrow>
    tsd_func_step i s (upd i (\<lambda>h. h\<lparr>th_tls := int i, th_pc := TMalloc\<rparr>) s)"
| t_malloc: "th_pc (ts_thr s i) = TMalloc \<Longrightarrow>
    tsd_func_step i s (upd i (\<lambda>h. h\<lparr>th_buf := Some (ts_fresh s), th_mine := Some (ts_fresh s), th_pc := TSet\<rparr>)
      (s\<lparr>ts_heap := insert (ts_fresh s) (ts_heap s), ts_fresh := Suc (ts_fresh s)\<rparr>))"
| t_malloc_fails: "th_pc (ts_thr s i) = TMalloc \<Longrightarrow>
    tsd_func_step i s (upd i (\<lambda>h. h\<lparr>th_buf := None, th_pc := TSet\<rparr>) s)"
| t_set: "th_pc (ts_thr s i) = TSet \<Longrightarrow>
    tsd_func_step i s (upd i (\<lambda>h. h\<lparr>th_tsd := th_buf h, th_pc := TSleep\<rparr>) s)"
| t_set_fails: "th_pc (ts_thr s i) = TSet \<Longrightarrow>
    tsd_func_step i s (upd i (\<lambda>h. h\<lparr>th_pc := TExit\<rparr>) (s\<lparr>ts_leaked := ts_leaked s \<union> set_option (th_buf (ts_thr s i))\<rparr>))"
| t_sleep: "th_pc (ts_thr s i) = TSleep \<Longrightarrow> tsd_func_step i s (upd i (\<lambda>h. h\<lparr>th_pc := TGet\<rparr>) s)"
| t_get: "th_pc (ts_thr s i) = TGet \<Longrightarrow>
    tsd_func_step i s (upd i (\<lambda>h. h\<lparr>th_buf := th_tsd h, th_got := Some (th_tsd h), th_pc := TShow\<rparr>) s)"
| t_show: "th_pc (ts_thr s i) = TShow \<Longrightarrow>
    tsd_func_step i s (upd i (\<lambda>h. h\<lparr>th_shown := Some (th_tls h), th_pc := TExit\<rparr>) s)"

text \<open>The end of a thread: a value under the key is taken away and given to \<open>_cleanUp\<close>.\<close>

inductive cleanUp_step :: "nat \<Rightarrow> tsys \<Rightarrow> tsys \<Rightarrow> bool" for i :: nat where
  t_free: "th_pc (ts_thr s i) = TExit \<Longrightarrow> th_tsd (ts_thr s i) = Some b \<Longrightarrow> b \<in> ts_heap s \<Longrightarrow>
    cleanUp_step i s (upd i (\<lambda>h. h\<lparr>th_tsd := None, th_pc := TDone\<rparr>)
      (s\<lparr>ts_heap := ts_heap s - {b}, ts_freed := ts_freed s @ [b]\<rparr>))"
| t_bad_free: "th_pc (ts_thr s i) = TExit \<Longrightarrow> th_tsd (ts_thr s i) = Some b \<Longrightarrow> b \<notin> ts_heap s \<Longrightarrow>
    cleanUp_step i s (upd i (\<lambda>h. h\<lparr>th_pc := TCrash\<rparr>) s)"
| t_nothing: "th_pc (ts_thr s i) = TExit \<Longrightarrow> th_tsd (ts_thr s i) = None \<Longrightarrow>
    cleanUp_step i s (upd i (\<lambda>h. h\<lparr>th_pc := TDone\<rparr>) s)"

inductive tsd_main_step :: "tsys \<Rightarrow> tsys \<Rightarrow> bool" where
  n_key: "ts_main s = NKey \<Longrightarrow> tsd_main_step s (s\<lparr>ts_main := NCreate1\<rparr>)"
| n_fails: "ts_main s = NKey \<or> ts_main s = NCreate1 \<or> ts_main s = NCreate2 \<Longrightarrow> tsd_main_step s (s\<lparr>ts_main := NEnd (-1)\<rparr>)"
| n_create1: "ts_main s = NCreate1 \<Longrightarrow>
    tsd_main_step s (upd 1 (\<lambda>h. if th_pc h = TNew then h\<lparr>th_pc := TTls\<rparr> else h) (s\<lparr>ts_main := NCreate2\<rparr>))"
| n_create2: "ts_main s = NCreate2 \<Longrightarrow>
    tsd_main_step s (upd 2 (\<lambda>h. if th_pc h = TNew then h\<lparr>th_pc := TTls\<rparr> else h) (s\<lparr>ts_main := NJoin1\<rparr>))"
| n_join1: "ts_main s = NJoin1 \<Longrightarrow> th_pc (ts_thr s 1) = TDone \<Longrightarrow> tsd_main_step s (s\<lparr>ts_main := NJoin2\<rparr>)"
| n_join2: "ts_main s = NJoin2 \<Longrightarrow> th_pc (ts_thr s 2) = TDone \<Longrightarrow> tsd_main_step s (s\<lparr>ts_main := NEnd 0\<rparr>)"

text \<open>Nothing runs after the return of \<open>main\<close>.\<close>

definition tsd_step :: "tsys \<Rightarrow> tsys \<Rightarrow> bool" where
  "tsd_step s u \<longleftrightarrow> (\<forall>r. ts_main s \<noteq> NEnd r) \<and>
     ((\<exists>i. tsd_func_step i s u \<or> cleanUp_step i s u) \<or> tsd_main_step s u)"

section \<open>Invariant\<close>

text \<open>A buffer belongs to the thread that has just got it or has it under the key.\<close>

definition owns :: "thr \<Rightarrow> nat \<Rightarrow> bool" where
  "owns h b \<longleftrightarrow> th_tsd h = Some b \<or> th_pc h = TSet \<and> th_buf h = Some b"

definition thr_ok :: "nat \<Rightarrow> thr \<Rightarrow> bool" where
  "thr_ok i h \<longleftrightarrow> th_pc h \<noteq> TCrash
     \<and> (th_pc h \<in> {TNew, TTls, TMalloc, TSet, TDone} \<longrightarrow> th_tsd h = None)
     \<and> (th_pc h \<in> {TNew, TTls, TMalloc} \<longrightarrow> th_mine h = None)
     \<and> (th_pc h = TSet \<longrightarrow> th_buf h = th_mine h)
     \<and> (th_pc h \<in> {TSleep, TGet, TShow} \<longrightarrow> th_tsd h = th_mine h)
     \<and> (th_pc h \<in> {TNew, TTls, TMalloc, TSet, TSleep, TGet} \<longrightarrow> th_got h = None)
     \<and> (\<forall>x. th_got h = Some x \<longrightarrow> x = th_mine h)
     \<and> (th_pc h \<notin> {TNew, TTls} \<longrightarrow> th_tls h = int i)
     \<and> (\<forall>x. th_shown h = Some x \<longrightarrow> x = int i)"

text \<open>The heap: every buffer in it belongs to one thread or is lost, the freed ones are gone for good.\<close>

definition heap_ok :: "(nat \<Rightarrow> thr) \<Rightarrow> nat set \<Rightarrow> nat \<Rightarrow> nat list \<Rightarrow> nat set \<Rightarrow> bool" where
  "heap_ok f H n freed L \<longleftrightarrow>
     (\<forall>i b. owns (f i) b \<longrightarrow> b \<in> H) \<and> (\<forall>i j b. owns (f i) b \<longrightarrow> owns (f j) b \<longrightarrow> i = j)
     \<and> (\<forall>b \<in> H. b < n \<and> ((\<exists>i. owns (f i) b) \<or> b \<in> L)) \<and> distinct freed \<and> (\<forall>b \<in> set freed. b < n \<and> b \<notin> H)"

definition ts_inv :: "tsys \<Rightarrow> bool" where
  "ts_inv s \<longleftrightarrow> (\<forall>i. thr_ok i (ts_thr s i)) \<and> heap_ok (ts_thr s) (ts_heap s) (ts_fresh s) (ts_freed s) (ts_leaked s)"

lemma heap_same:
  assumes "heap_ok f H n freed L" and "\<And>b. owns h b = owns (f i) b"
  shows "heap_ok (f(i := h)) H n freed L"
proof -
  have "owns ((f(i := h)) j) b = owns (f j) b" for j b using assms(2) by simp
  with assms(1) show ?thesis unfolding heap_ok_def by (simp del: fun_upd_apply)
qed

lemma heap_new:
  assumes "heap_ok f H n freed L" and "\<And>b. owns h b \<longleftrightarrow> b = n" and "\<And>b. \<not> owns (f i) b"
  shows "heap_ok (f(i := h)) (insert n H) (Suc n) freed L"
proof -
  have o: "owns ((f(i := h)) j) b \<longleftrightarrow> owns (f j) b \<or> j = i \<and> b = n" for j b using assms(2,3) by auto
  have n: "\<not> owns (f j) n" "n \<notin> H" "n \<notin> set freed" for j using assms(1) by (auto simp: heap_ok_def)
  with assms(1) show ?thesis unfolding heap_ok_def o by (intro conjI) (blast, blast, auto simp: less_Suc_eq)
qed

lemma heap_lost:
  assumes "heap_ok f H n freed L" and "\<And>b. \<not> owns h b" and "\<And>b. owns (f i) b \<Longrightarrow> b \<in> M"
  shows "heap_ok (f(i := h)) H n freed (L \<union> M)"
proof -
  have o: "owns ((f(i := h)) j) b \<longleftrightarrow> owns (f j) b \<and> j \<noteq> i" for j b using assms(2) by auto
  from assms(1,3) show ?thesis unfolding heap_ok_def o by (intro conjI) blast+
qed

lemma heap_free:
  assumes "heap_ok f H n freed L" and "\<And>c. \<not> owns h c" and "\<And>c. owns (f i) c \<longleftrightarrow> c = b"
  shows "heap_ok (f(i := h)) (H - {b}) n (freed @ [b]) L"
proof -
  have o: "owns ((f(i := h)) j) c \<longleftrightarrow> owns (f j) c \<and> j \<noteq> i" for j c using assms(2) by auto
  have "b \<in> H" using assms(1,3) unfolding heap_ok_def by blast
  with assms(1) have b: "b \<in> H" "b < n" "b \<notin> set freed" unfolding heap_ok_def by blast+
  have "owns (f j) b \<Longrightarrow> j = i" for j using assms(1,3) by (auto simp: heap_ok_def)
  with assms(1,3) b show ?thesis unfolding heap_ok_def o by (intro conjI) (blast, blast, blast, auto)
qed

lemma ts_inv_upd:
  assumes "ts_inv s" and "thr_ok i (f (ts_thr s i))"
    and "heap_ok ((ts_thr s)(i := f (ts_thr s i))) (ts_heap t) (ts_fresh t) (ts_freed t) (ts_leaked t)"
    and "ts_thr t = ts_thr s"
  shows "ts_inv (upd i f t)"
  using assms by (auto simp: ts_inv_def upd_def)

lemma ts_inv_parts: "ts_inv s \<Longrightarrow> thr_ok i (ts_thr s i)"
  "ts_inv s \<Longrightarrow> heap_ok (ts_thr s) (ts_heap s) (ts_fresh s) (ts_freed s) (ts_leaked s)"
  by (simp_all add: ts_inv_def)

text \<open>A step of one thread that keeps what it owns.\<close>

lemma ts_inv_keep:
  assumes "ts_inv s" and "thr_ok i (f (ts_thr s i))" and "\<And>b. owns (f (ts_thr s i)) b = owns (ts_thr s i) b"
  shows "ts_inv (upd i f s)"
  using assms ts_inv_parts(2) [OF assms(1)] by (intro ts_inv_upd heap_same) auto

lemma ts_inv_func: "tsd_func_step i s t \<Longrightarrow> ts_inv s \<Longrightarrow> ts_inv t"
proof (induction rule: tsd_func_step.induct)
  case (t_malloc s)
  note p = ts_inv_parts(1) [OF t_malloc(2), of i]
  show ?case
    using t_malloc p heap_new [OF ts_inv_parts(2) [OF t_malloc(2)], of "(ts_thr s i)\<lparr>th_buf := Some (ts_fresh s), th_mine := Some (ts_fresh s), th_pc := TSet\<rparr>" i]
    by (intro ts_inv_upd) (auto simp: thr_ok_def owns_def)
next
  case (t_set_fails s)
  note p = ts_inv_parts(1) [OF t_set_fails(2), of i]
  show ?case
    using t_set_fails p heap_lost [OF ts_inv_parts(2) [OF t_set_fails(2)], of "(ts_thr s i)\<lparr>th_pc := TExit\<rparr>" i
        "set_option (th_buf (ts_thr s i))"]
    by (intro ts_inv_upd) (auto simp: thr_ok_def owns_def)
next
  case (t_tls s)
  then show ?case using ts_inv_parts(1) [OF t_tls(2), of i] by (intro ts_inv_keep) (auto simp: thr_ok_def owns_def)
next
  case (t_malloc_fails s)
  then show ?case using ts_inv_parts(1) [OF t_malloc_fails(2), of i] by (intro ts_inv_keep) (auto simp: thr_ok_def owns_def)
next
  case (t_set s)
  then show ?case using ts_inv_parts(1) [OF t_set(2), of i] by (intro ts_inv_keep) (auto simp: thr_ok_def owns_def)
next
  case (t_sleep s)
  then show ?case using ts_inv_parts(1) [OF t_sleep(2), of i] by (intro ts_inv_keep) (auto simp: thr_ok_def owns_def)
next
  case (t_get s)
  then show ?case using ts_inv_parts(1) [OF t_get(2), of i] by (intro ts_inv_keep) (auto simp: thr_ok_def owns_def)
next
  case (t_show s)
  then show ?case using ts_inv_parts(1) [OF t_show(2), of i] by (intro ts_inv_keep) (auto simp: thr_ok_def owns_def)
qed

lemma ts_inv_cleanUp: "cleanUp_step i s t \<Longrightarrow> ts_inv s \<Longrightarrow> ts_inv t"
proof (induction rule: cleanUp_step.induct)
  case (t_free s b)
  note p = ts_inv_parts(1) [OF t_free(4), of i]
  show ?case
    using t_free p heap_free [OF ts_inv_parts(2) [OF t_free(4)], of "(ts_thr s i)\<lparr>th_tsd := None, th_pc := TDone\<rparr>" i b]
    by (intro ts_inv_upd) (auto simp: thr_ok_def owns_def)
next
  case (t_bad_free s b)
  then have "owns (ts_thr s i) b" by (simp add: owns_def)
  with ts_inv_parts(2) [OF t_bad_free(4)] t_bad_free(3) show ?case unfolding heap_ok_def by blast
next
  case (t_nothing s)
  then show ?case using ts_inv_parts(1) [OF t_nothing(3), of i] by (intro ts_inv_keep) (auto simp: thr_ok_def owns_def)
qed

lemma ts_inv_create:
  assumes "ts_inv s"
  shows "ts_inv (upd i (\<lambda>h. if th_pc h = TNew then h\<lparr>th_pc := TTls\<rparr> else h) (s\<lparr>ts_main := m\<rparr>))"
proof -
  have "ts_inv (upd i (\<lambda>h. if th_pc h = TNew then h\<lparr>th_pc := TTls\<rparr> else h) s)"
    using ts_inv_parts(1) [OF assms, of i] assms by (intro ts_inv_keep) (auto simp: thr_ok_def owns_def)
  moreover have "upd i f (s\<lparr>ts_main := m\<rparr>) = (upd i f s)\<lparr>ts_main := m\<rparr>" for f by (simp add: upd_def)
  moreover have "ts_inv (t\<lparr>ts_main := m\<rparr>) = ts_inv t" for t by (simp add: ts_inv_def)
  ultimately show ?thesis by (simp only:)
qed

lemma ts_inv_main: "tsd_main_step s t \<Longrightarrow> ts_inv s \<Longrightarrow> ts_inv t"
proof (induction rule: tsd_main_step.induct)
  case (n_create1 s)
  then show ?case by (intro ts_inv_create)
next
  case (n_create2 s)
  then show ?case by (intro ts_inv_create)
qed (simp_all add: ts_inv_def)

lemma ts_inv_start: "ts_inv ts_start"
  by (simp add: ts_inv_def ts_start_def heap_ok_def owns_def thr_ok_def thr_new_def)

interpretation tsd: inductive_invariant ts_init tsd_step ts_inv
  by unfold_locales
    (auto simp: ts_init_def tsd_step_def ts_inv_start intro: ts_inv_func ts_inv_cleanUp ts_inv_main)

text \<open>Threads that \<open>main\<close> has not created, and those it has joined.\<close>

definition main_inv :: "tsys \<Rightarrow> bool" where
  "main_inv s \<longleftrightarrow> (\<forall>i. i \<noteq> 1 \<and> i \<noteq> 2 \<longrightarrow> th_pc (ts_thr s i) = TNew)
     \<and> (ts_main s = NJoin2 \<or> ts_main s = NEnd 0 \<longrightarrow> th_pc (ts_thr s 1) = TDone)
     \<and> (ts_main s = NEnd 0 \<longrightarrow> th_pc (ts_thr s 2) = TDone)"

lemma main_inv_thread:
  assumes "tsd_func_step i s t \<or> cleanUp_step i s t" and "main_inv s"
  shows "main_inv t"
proof -
  have "th_pc (ts_thr s i) \<noteq> TNew \<and> th_pc (ts_thr s i) \<noteq> TDone \<and> ts_main t = ts_main s
      \<and> (\<forall>j. j \<noteq> i \<longrightarrow> ts_thr t j = ts_thr s j)"
    using assms(1) by (auto simp: upd_def elim!: tsd_func_step.cases cleanUp_step.cases)
  with assms(2) show ?thesis unfolding main_inv_def by metis
qed

lemma main_inv_main: "tsd_main_step s t \<Longrightarrow> main_inv s \<Longrightarrow> main_inv t"
  by (induction rule: tsd_main_step.induct) (auto simp: main_inv_def upd_def)

interpretation tsd_main: inductive_invariant ts_init tsd_step main_inv
  by unfold_locales
    (auto simp: tsd_step_def intro: main_inv_thread main_inv_main,
     simp add: ts_init_def ts_start_def main_inv_def thr_new_def)

text \<open>
  C17. \<open>thread/tls-tsd\<close>. In every interleaving, and whichever calls fail, each thread reads back
  under the key the buffer its own \<open>malloc\<close> gave, and its own thread-local number, no buffer is freed twice or while another thread
  has it, and when \<open>main\<close> returns 0 the only memory that is left is that of a thread whose
  \<open>pthread_setspecific\<close> failed.
\<close>

theorem tsd_private_and_freed:
  assumes "reach ts_init tsd_step s"
  shows "th_pc (ts_thr s i) \<noteq> TCrash
    \<and> (th_got (ts_thr s i) = Some x \<longrightarrow> x = th_mine (ts_thr s i)) \<and> (th_shown (ts_thr s i) = Some v \<longrightarrow> v = int i)
    \<and> distinct (ts_freed s)
    \<and> (owns (ts_thr s i) b \<longrightarrow> b \<in> ts_heap s \<and> b \<notin> set (ts_freed s) \<and> (\<forall>j. owns (ts_thr s j) b \<longrightarrow> j = i))
    \<and> (ts_main s = NEnd 0 \<longrightarrow> ts_heap s \<subseteq> ts_leaked s)"
proof -
  have inv: "ts_inv s" and m: "main_inv s" using tsd.inv_reach [OF assms] tsd_main.inv_reach [OF assms] .
  note ok = ts_inv_parts(1) [OF inv] and h = ts_inv_parts(2) [OF inv, unfolded heap_ok_def]
  have "ts_heap s \<subseteq> ts_leaked s" if "ts_main s = NEnd 0"
  proof -
    have pc: "th_pc (ts_thr s j) = TNew \<or> th_pc (ts_thr s j) = TDone" for j
      using m that by (cases "j = 1 \<or> j = 2") (auto simp: main_inv_def)
    have "th_tsd (ts_thr s j) = None" for j using ok [of j] pc [of j] unfolding thr_ok_def by blast
    then have "\<not> owns (ts_thr s j) c" for j c using pc [of j] by (auto simp: owns_def)
    with h show ?thesis by blast
  qed
  moreover have "owns (ts_thr s i) b \<longrightarrow> b \<in> ts_heap s \<and> b \<notin> set (ts_freed s) \<and> (\<forall>j. owns (ts_thr s j) b \<longrightarrow> j = i)"
    using h by blast
  ultimately show ?thesis using ok [of i] h by (auto simp: thr_ok_def)
qed

theorem tsd_private_and_freed_witness:
  "\<exists>s. reach ts_init tsd_step s \<and> th_got (ts_thr s 1) = Some (Some 0) \<and> Some 0 = th_mine (ts_thr s 1)"
proof -
  let ?h = "\<lambda>p. \<lparr>th_pc = p, th_tls = 1, th_tsd = Some 0, th_buf = Some 0, th_got = None, th_shown = None, th_mine = Some 0\<rparr>"
  let ?mk = "\<lambda>h H n. ts_start\<lparr>ts_main := NCreate2, ts_thr := (\<lambda>_. thr_new)(1 := h), ts_heap := H, ts_fresh := n\<rparr>"
  let ?s0 = "ts_start\<lparr>ts_main := NCreate1\<rparr>"
  let ?s1 = "?mk (thr_new\<lparr>th_pc := TTls\<rparr>) {} 0"
  let ?s2 = "?mk (thr_new\<lparr>th_pc := TMalloc, th_tls := 1\<rparr>) {} 0"
  let ?s3 = "?mk (thr_new\<lparr>th_pc := TSet, th_tls := 1, th_buf := Some 0, th_mine := Some 0\<rparr>) {0} 1"
  let ?s4 = "?mk (?h TSleep) {0} 1"
  let ?s5 = "?mk (?h TGet) {0} 1"
  let ?s6 = "?mk ((?h TShow)\<lparr>th_got := Some (Some 0)\<rparr>) {0} 1"
  have st: "tsd_step s t" if "tsd_func_step 1 s t" "ts_main s = NCreate2" for s t using that by (auto simp: tsd_step_def)
  have "tsd_step ts_start ?s0" "tsd_step ?s0 ?s1"
    using n_key [of ts_start] n_create1 [of ?s0] by (simp_all add: tsd_step_def ts_start_def upd_def thr_new_def)
  moreover have "tsd_step ?s1 ?s2" by (rule st) (use t_tls [of ?s1 1] in \<open>simp_all add: upd_def thr_new_def ts_start_def\<close>)
  moreover have "tsd_step ?s2 ?s3" by (rule st) (use t_malloc [of ?s2 1] in \<open>simp_all add: upd_def thr_new_def ts_start_def\<close>)
  moreover have "tsd_step ?s3 ?s4" by (rule st) (use t_set [of ?s3 1] in \<open>simp_all add: upd_def thr_new_def ts_start_def\<close>)
  moreover have "tsd_step ?s4 ?s5" by (rule st) (use t_sleep [of ?s4 1] in \<open>simp_all add: upd_def thr_new_def ts_start_def\<close>)
  moreover have "tsd_step ?s5 ?s6" by (rule st) (use t_get [of ?s5 1] in \<open>simp_all add: upd_def thr_new_def ts_start_def\<close>)
  moreover have "ts_init ts_start" by (simp add: ts_init_def)
  ultimately have r: "reach ts_init tsd_step ?s6" by (meson reach.intros)
  with tsd_private_and_freed [OF r, of 1 "Some 0" 1 0] show ?thesis by (intro exI [of _ ?s6]) simp
qed

end
