(* ===== verification/Proc_Basics.thy ===== *)
theory Proc_Basics
  imports C_Prelude
begin

text \<open>
  Starting threads and processes, and signals: \<open>thread/basic/main.c\<close> and \<open>process/basic/main.c\<close>
  as steps of their parts in any order, \<open>signal/main.c\<close> as a program during whose sleeps any
  number of interrupts arrive.
\<close>

section \<open>thread/basic\<close>

text \<open>\<open>_func\<close>: not started, before its first message, asleep, returned.\<close>

datatype fpc = FNew | FStart | FSleep | FReturned

datatype bmain = BOnce | BCreate1 | BCreate2 | BDetach | BJoin | BEnd int

record bsys =
  b_main :: bmain
  b_thr :: "nat \<Rightarrow> fpc"
  b_out :: "outev list"

text \<open>The argument of thread 1 and of thread 2.\<close>

definition func_arg :: "nat \<Rightarrow> int" where
  "func_arg i = (if i = 1 then 3 else 5)"

definition func_start_msg :: "int \<Rightarrow> nat \<Rightarrow> outev" where
  "func_start_msg tId i = Printf (TAB # '' in %p thread: will sleep %ld s\<newline>'') [FInt tId, FInt (func_arg i)]"

definition func_finish_msg :: "int \<Rightarrow> nat \<Rightarrow> outev" where
  "func_finish_msg tId i = Printf (TAB # '' in %p thread: sleep finish, will return %ld\<newline>'') [FInt tId, FInt (func_arg i)]"

definition init_log :: "outev list" where
  "init_log = [Printf ''at _init function, before sleep 1\<newline>'' [], Printf ''at _init function, after  sleep 1\<newline>'' []]"

inductive basic_func_step :: "(nat \<Rightarrow> int) \<Rightarrow> nat \<Rightarrow> bsys \<Rightarrow> bsys \<Rightarrow> bool" for tid :: "nat \<Rightarrow> int" and i :: nat where
  b_start: "b_thr s i = FStart \<Longrightarrow> basic_func_step tid i s
    (s\<lparr>b_thr := (b_thr s)(i := FSleep), b_out := b_out s @ [func_start_msg (tid i) i]\<rparr>)"
| b_finish: "b_thr s i = FSleep \<Longrightarrow> basic_func_step tid i s
    (s\<lparr>b_thr := (b_thr s)(i := FReturned), b_out := b_out s @ [func_finish_msg (tid i) i]\<rparr>)"

text \<open>\<open>main\<close>; every call can fail with a number \<open>e\<close>, which is printed. \<open>pthread_once\<close> runs \<open>_init\<close>.\<close>

inductive basic_main_step :: "bsys \<Rightarrow> bsys \<Rightarrow> bool" where
  b_once: "b_main s = BOnce \<Longrightarrow> basic_main_step s (s\<lparr>b_main := BCreate1, b_out := b_out s @ init_log\<rparr>)"
| b_once_fails: "b_main s = BOnce \<Longrightarrow>
    basic_main_step s (s\<lparr>b_main := BEnd (-1), b_out := b_out s @ [Printf ''pthread_init failed, ret is %d\<newline>'' [FInt e]]\<rparr>)"
| b_create1: "b_main s = BCreate1 \<Longrightarrow> basic_main_step s (s\<lparr>b_main := BCreate2, b_thr := (b_thr s)(1 := FStart)\<rparr>)"
| b_create2: "b_main s = BCreate2 \<Longrightarrow> basic_main_step s (s\<lparr>b_main := BDetach, b_thr := (b_thr s)(2 := FStart)\<rparr>)"
| b_create_fails: "b_main s = BCreate1 \<or> b_main s = BCreate2 \<Longrightarrow>
    basic_main_step s (s\<lparr>b_main := BEnd (-1), b_out := b_out s @ [Printf ''pthread_cread failed, ret is %d\<newline>'' [FInt e]]\<rparr>)"
| b_detach: "b_main s = BDetach \<Longrightarrow> basic_main_step s (s\<lparr>b_main := BJoin\<rparr>)"
| b_detach_fails: "b_main s = BDetach \<Longrightarrow>
    basic_main_step s (s\<lparr>b_main := BEnd (-1), b_out := b_out s @ [Printf ''pthread_det failed, ret is %d\<newline>'' [FInt e]]\<rparr>)"
| b_join: "b_main s = BJoin \<Longrightarrow> b_thr s 1 = FReturned \<Longrightarrow>
    basic_main_step s (s\<lparr>b_main := BEnd 0, b_out := b_out s @ [Printf ''child thread return %ld\<newline>'' [FInt (func_arg 1)]]\<rparr>)"
| b_join_fails: "b_main s = BJoin \<Longrightarrow>
    basic_main_step s (s\<lparr>b_main := BEnd (-1), b_out := b_out s @ [Printf ''pthread_join failed, ret is %d\<newline>'' [FInt e]]\<rparr>)"

text \<open>The return of \<open>main\<close> ends the process with all its threads.\<close>

definition basic_step :: "(nat \<Rightarrow> int) \<Rightarrow> bsys \<Rightarrow> bsys \<Rightarrow> bool" where
  "basic_step tid s t \<longleftrightarrow> (\<forall>r. b_main s \<noteq> BEnd r) \<and> ((\<exists>i. basic_func_step tid i s t) \<or> basic_main_step s t)"

definition b_init :: "bsys \<Rightarrow> bool" where
  "b_init s \<longleftrightarrow> b_main s = BOnce \<and> b_thr s = (\<lambda>_. FNew) \<and> b_out s = []"

text \<open>What a thread has printed so far goes with its place; \<open>_init\<close> was first, and alone.\<close>

definition b_inv :: "(nat \<Rightarrow> int) \<Rightarrow> bsys \<Rightarrow> bool" where
  "b_inv tid s \<longleftrightarrow> (b_main s = BOnce \<longrightarrow> b_thr s = (\<lambda>_. FNew) \<and> b_out s = [])
     \<and> (b_main s \<noteq> BOnce \<and> b_main s \<noteq> BEnd (-1) \<longrightarrow> (\<exists>mid. b_out s = init_log @ mid))
     \<and> (b_main s \<in> {BOnce, BCreate1} \<longrightarrow> b_thr s 1 = FNew)
     \<and> (b_thr s 1 = FReturned \<longrightarrow> func_finish_msg (tid 1) 1 \<in> set (b_out s))
     \<and> (b_main s = BEnd 0 \<longrightarrow> (\<exists>mid. b_out s = init_log @ mid @ [Printf ''child thread return %ld\<newline>'' [FInt 3]]
          \<and> func_finish_msg (tid 1) 1 \<in> set mid))"

lemma b_inv_func: "basic_func_step tid i s t \<Longrightarrow> b_inv tid s \<Longrightarrow> \<forall>r. b_main s \<noteq> BEnd r \<Longrightarrow> b_inv tid t"
  by (induction rule: basic_func_step.induct) (auto simp: b_inv_def)

lemma finish_not_init: "func_finish_msg t i \<notin> set init_log"
  by (simp add: func_finish_msg_def init_log_def)

lemma b_inv_join:
  assumes "b_inv tid s" and "b_main s = BJoin" and "b_thr s 1 = FReturned"
  shows "b_inv tid (s\<lparr>b_main := BEnd 0, b_out := b_out s @ [Printf ''child thread return %ld\<newline>'' [FInt (func_arg 1)]]\<rparr>)"
proof -
  obtain mid where "b_out s = init_log @ mid" using assms by (auto simp: b_inv_def)
  moreover have "func_finish_msg (tid 1) 1 \<in> set (b_out s)" using assms by (simp add: b_inv_def)
  ultimately show ?thesis using assms finish_not_init [of "tid 1" 1] by (auto simp: b_inv_def func_arg_def)
qed

lemma b_inv_main: "basic_main_step s t \<Longrightarrow> b_inv tid s \<Longrightarrow> b_inv tid t"
proof (induction rule: basic_main_step.induct)
  case (b_join s)
  then show ?case by (intro b_inv_join)
qed (auto simp: b_inv_def)

interpretation basic: inductive_invariant b_init "basic_step tid" "b_inv tid" for tid
  by unfold_locales (auto simp: basic_step_def intro: b_inv_func b_inv_main, simp add: b_inv_def b_init_def)

text \<open>
  When \<open>main\<close> returns 0 it has printed the lines of \<open>_init\<close> first and the value 3 last, and the
  joined thread's own last line is between them; the detached thread has no such guarantee.
\<close>

lemma basic_joins:
  "reach b_init (basic_step tid) s \<Longrightarrow> b_main s = BEnd 0 \<Longrightarrow>
     \<exists>mid. b_out s = init_log @ mid @ [Printf ''child thread return %ld\<newline>'' [FInt 3]] \<and> func_finish_msg (tid 1) 1 \<in> set mid"
  using basic.inv_reach [of tid s] by (simp add: b_inv_def)

section \<open>process/basic\<close>

datatype parent_pc = PaFork | PaMsg | PaWait | PaFinished | PaEnd int
datatype kid_pc = KIn | KSleep | KExit

record fsys =
  f_parent :: parent_pc
  f_kid :: "kid_pc option"
  f_out :: "outev list"

inductive fork_step :: "int \<Rightarrow> int \<Rightarrow> fsys \<Rightarrow> fsys \<Rightarrow> bool" for ppid cpid :: int where
  f_fork: "f_parent s = PaFork \<Longrightarrow> fork_step ppid cpid s (s\<lparr>f_parent := PaMsg, f_kid := Some KIn\<rparr>)"
| f_fork_fails: "f_parent s = PaFork \<Longrightarrow> fork_step ppid cpid s
    (s\<lparr>f_parent := PaEnd (-1), f_out := f_out s @ [Printf ''fork error, errno is %d\<newline>'' [FInt e]]\<rparr>)"
| f_kid_in: "f_kid s = Some KIn \<Longrightarrow> fork_step ppid cpid s
    (s\<lparr>f_kid := Some KSleep, f_out := f_out s @ [Printf (TAB # ''child(%ld): in \<newline>'') [FInt cpid]]\<rparr>)"
| f_kid_out: "f_kid s = Some KSleep \<Longrightarrow> fork_step ppid cpid s
    (s\<lparr>f_kid := Some KExit, f_out := f_out s @ [Printf (TAB # ''child(%ld): out\<newline>'') [FInt cpid]]\<rparr>)"
| f_msg: "f_parent s = PaMsg \<Longrightarrow> fork_step ppid cpid s
    (s\<lparr>f_parent := PaWait, f_out := f_out s @ [Printf ''parent(%ld): wait for child(%ld) ........\<newline>'' [FInt ppid, FInt cpid]]\<rparr>)"
| f_wait: "f_parent s = PaWait \<Longrightarrow> f_kid s = Some KExit \<Longrightarrow> fork_step ppid cpid s (s\<lparr>f_parent := PaFinished\<rparr>)"
| f_finished: "f_parent s = PaFinished \<Longrightarrow> fork_step ppid cpid s
    (s\<lparr>f_parent := PaEnd 0, f_out := f_out s @ [Printf ''parent(%ld): wait for child(%ld) finished\<newline>'' [FInt ppid, FInt cpid]]\<rparr>)"

definition f_init :: "fsys \<Rightarrow> bool" where
  "f_init s \<longleftrightarrow> f_parent s = PaFork \<and> f_kid s = None \<and> f_out s = []"

text \<open>The lines of each side, in its own order, and how far they are.\<close>

definition kid_lines :: "int \<Rightarrow> outev list" where
  "kid_lines cpid = [Printf (TAB # ''child(%ld): in \<newline>'') [FInt cpid], Printf (TAB # ''child(%ld): out\<newline>'') [FInt cpid]]"

definition wait_line :: "int \<Rightarrow> int \<Rightarrow> outev" where
  "wait_line ppid cpid = Printf ''parent(%ld): wait for child(%ld) ........\<newline>'' [FInt ppid, FInt cpid]"

definition f_inv :: "int \<Rightarrow> int \<Rightarrow> fsys \<Rightarrow> bool" where
  "f_inv ppid cpid s \<longleftrightarrow>
     (case f_kid s of
        None \<Rightarrow> f_parent s = PaFork \<or> f_parent s = PaEnd (-1)
      | Some k \<Rightarrow> f_parent s \<in> {PaMsg, PaWait, PaFinished, PaEnd 0}
          \<and> (f_parent s \<in> {PaFinished, PaEnd 0} \<longrightarrow> k = KExit)
          \<and> filter (\<lambda>e. e \<in> set (kid_lines cpid)) (f_out s)
             = take (case k of KIn \<Rightarrow> 0 | KSleep \<Rightarrow> 1 | KExit \<Rightarrow> 2) (kid_lines cpid)
          \<and> (f_parent s = PaEnd 0 \<longrightarrow> last (f_out s) = Printf ''parent(%ld): wait for child(%ld) finished\<newline>'' [FInt ppid, FInt cpid])
          \<and> length (f_out s) = (case k of KIn \<Rightarrow> 0 | KSleep \<Rightarrow> 1 | KExit \<Rightarrow> 2)
             + (case f_parent s of PaMsg \<Rightarrow> 0 | PaWait \<Rightarrow> 1 | PaFinished \<Rightarrow> 1 | _ \<Rightarrow> 2))
     \<and> (f_parent s = PaFork \<longrightarrow> f_out s = [])"

lemma f_inv_step: "fork_step ppid cpid s t \<Longrightarrow> f_inv ppid cpid s \<Longrightarrow> f_inv ppid cpid t"
  by (induction rule: fork_step.induct)
    (auto simp: f_inv_def kid_lines_def wait_line_def split: option.splits kid_pc.splits)

interpretation forked: inductive_invariant f_init "fork_step ppid cpid" "f_inv ppid cpid" for ppid cpid
  by unfold_locales (auto simp: f_init_def intro: f_inv_step, simp add: f_inv_def)

text \<open>When the parent returns 0, four lines were printed, both of the child's, in order, before the parent's last.\<close>

lemma parent_waits:
  assumes "reach f_init (fork_step ppid cpid) s" and "f_parent s = PaEnd 0"
  shows "filter (\<lambda>e. e \<in> set (kid_lines cpid)) (f_out s) = kid_lines cpid \<and> length (f_out s) = 4
    \<and> last (f_out s) = Printf ''parent(%ld): wait for child(%ld) finished\<newline>'' [FInt ppid, FInt cpid]"
  using forked.inv_reach [OF assms(1)] assms(2)
  by (auto simp: f_inv_def kid_lines_def split: option.splits)

section \<open>signal\<close>

datatype disposition = SIG_DFL | SIG_IGN | SignalHandler

text \<open>
  \<open>signal\<close> and \<open>sigaction\<close> give the disposition or the flags before; \<open>sleep\<close> gives how often the
  handler ran meanwhile, or nothing when the process was killed.
\<close>

record 'k sig_os =
  s_signal :: "disposition \<Rightarrow> ('k, disposition) kcall"
  s_sigaction :: "disposition \<Rightarrow> int \<Rightarrow> ('k, int) kcall"
  s_sleep :: "'k \<Rightarrow> nat option \<times> 'k"

definition SIGINT :: int where "SIGINT = 2"

definition signalHandler :: "('k, unit) io" where
  "signalHandler = printf ''received signal %d\<newline>'' [FInt SIGINT]"

fun handle :: "nat \<Rightarrow> ('k, unit) io" where
  "handle 0 = ret ()"
| "handle (Suc n) = do { _ \<leftarrow> signalHandler; handle n }"

definition sleep_for :: "'k sig_os \<Rightarrow> ('k, bool) io" where
  "sleep_for os = do {
     r \<leftarrow> State (\<lambda>s. case s_sleep os (kern s) of (r, k) \<Rightarrow> (r, s\<lparr>kern := k\<rparr>));
     (case r of None \<Rightarrow> ret False | Some n \<Rightarrow> do { _ \<leftarrow> handle n; ret True }) }"

text \<open>\<open>main\<close>: the exit status, or \<open>None\<close> when a signal killed it.\<close>

definition signal_main :: "'k sig_os \<Rightarrow> ('k, int option) io" where
  "signal_main os = do {
     old \<leftarrow> sysopt (s_signal os SIG_IGN);
     if old = None then do { e \<leftarrow> get_errno; _ \<leftarrow> printf ''signal return error, errno is %d\<newline>'' [FInt e]; ret (Some (-1)) }
     else do {
       alive \<leftarrow> sleep_for os;
       if \<not> alive then ret None else do {
       _ \<leftarrow> printf ''after sleep 1\<newline>'' [];
       old \<leftarrow> sysopt (s_signal os SignalHandler);
       if old = None then do { e \<leftarrow> get_errno; _ \<leftarrow> printf ''signal return error, errno is %d\<newline>'' [FInt e]; ret (Some (-1)) }
       else do {
         alive \<leftarrow> sleep_for os;
         if \<not> alive then ret None else do {
         _ \<leftarrow> printf ''after sleep 2\<newline>'' [];
         r \<leftarrow> sysopt (s_sigaction os SignalHandler 0);
         (case r of
            None \<Rightarrow> do { e \<leftarrow> get_errno; _ \<leftarrow> printf ''sigaction return -1, errno is %d\<newline>'' [FInt e]; ret (Some (-1)) }
          | Some sa_flags \<Rightarrow> do {
              _ \<leftarrow> printf ''oldAction: flag is %d\<newline>'' [FInt sa_flags];
              alive \<leftarrow> sleep_for os;
              if \<not> alive then ret None else do {
              _ \<leftarrow> printf ''after sleep 3\<newline>'' [];
              ret (Some 0) } }) } } } } }"

text \<open>
  A process with its disposition of \<open>SIGINT\<close>, the flags that go with it, and how many interrupts
  arrive during each of the next sleeps. \<open>signal\<close> of the GNU library sets \<open>SA_RESTART\<close>.
\<close>

definition SA_RESTART :: int where "SA_RESTART = 0x10000000"

record sigproc =
  g_disp :: disposition
  g_flags :: int
  g_arrive :: "nat list"

definition proc_os :: "sigproc sig_os" where
  "proc_os = \<lparr>
     s_signal = (\<lambda>d k. (Inr (g_disp k), k\<lparr>g_disp := d, g_flags := SA_RESTART\<rparr>)),
     s_sigaction = (\<lambda>d fl k. (Inr (g_flags k), k\<lparr>g_disp := d, g_flags := fl\<rparr>)),
     s_sleep = (\<lambda>k. case g_arrive k of [] \<Rightarrow> (Some 0, k)
       | n # ns \<Rightarrow> (if n = 0 then Some 0 else case g_disp k of SIG_DFL \<Rightarrow> None | SIG_IGN \<Rightarrow> Some 0 | SignalHandler \<Rightarrow> Some n,
            k\<lparr>g_arrive := ns\<rparr>))\<rparr>"

lemma run_handle: "run_state (handle n) s = ((), s\<lparr>outs := outs s @ replicate n (Printf ''received signal %d\<newline>'' [FInt 2])\<rparr>)"
  by (induction n arbitrary: s) (simp_all add: signalHandler_def SIGINT_def io_simps)

text \<open>
  Interrupts during the first sleep are ignored, those during the others are each reported, and
  none ends the program, whatever the disposition at its start; the flags that \<open>sigaction\<close> finds
  are those \<open>signal\<close> left.
\<close>

lemma signal_main_survives:
  "\<exists>s'. run_state (signal_main proc_os) \<lparr>kern = \<lparr>g_disp = d, g_flags = fl, g_arrive = [a, b, c]\<rparr>, errno = e, outs = []\<rparr> = (Some 0, s')
    \<and> outs s' = [Printf ''after sleep 1\<newline>'' []] @ replicate b (Printf ''received signal %d\<newline>'' [FInt 2])
       @ [Printf ''after sleep 2\<newline>'' [], Printf ''oldAction: flag is %d\<newline>'' [FInt SA_RESTART]]
       @ replicate c (Printf ''received signal %d\<newline>'' [FInt 2]) @ [Printf ''after sleep 3\<newline>'' []]"
  by (cases "a = 0"; cases "b = 0"; cases "c = 0")
    (simp_all add: signal_main_def proc_os_def io_simps sleep_for_def run_handle)

end
