(* ===== verification/Spec2Isabelle.thy ===== *)
theory Spec2Isabelle
  imports Tcp_Echo Sem_Program RW_Lock Prod_Cons File_Locks Sysv_Sem Shm_Counter Posix_Ipc Unnamed_Sem
    Inotify Datagrams Streams Event_Kernel Clocks Timers File_Meta Directory Small_Files Stdio_Demos
    Thread_Cancel Thread_Data Proc_Basics
begin

text \<open>
  Verification of the programs of \<open>linux-programing-demo\<close>.

  The repository is a collection of small C programs, each of which demonstrates a part of the
  Linux programming interface: sockets, threads and their synchronisation, interprocess
  communication, files and file locks, time. The programs do not call each other; what interacts
  is the parts of one program (a client and a server, a producer and a consumer, the threads
  around one lock) and each program with the kernel.

  \<^bold>\<open>How programs are modelled.\<close> Sequential code is a state transformer over a record with the
  kernel's state, \<open>errno\<close> and the output (\<open>C_Prelude\<close>, with the \<open>State_Monad\<close> of the library).
  System calls are arguments, gathered in a record per program (\<open>sock_os\<close>, \<open>file_os\<close>, \<open>lock_os\<close>,
  \<open>ipc_os\<close>, \<open>clock_os\<close>, \<open>inotify_os\<close>, \<open>dgram_os\<close>, \<open>stream_os\<close>, \<open>event_os\<close>, \<open>time_os\<close>, \<open>timer_os\<close>,
  \<open>nsem_os\<close>, \<open>mq_os\<close>, \<open>stat_os\<close>, \<open>dir_os\<close>, \<open>tmp_os\<close>, \<open>popen_os\<close>, \<open>sig_os\<close> and others); what a program
  relies on is a locale over that record, and each locale is interpreted on a kernel in memory.
  Functions of the C library that compute something (\<open>gmtime_r\<close>, \<open>strftime\<close>, \<open>strptime\<close>, \<open>nftw\<close>,
  \<open>dirname\<close>, \<open>basename\<close>, \<open>fgets\<close>) are definitions. Printing is recorded as the format string with its
  arguments. Concurrent code is a step relation with one statement or one memory access per step
  and any scheduler; functions that run a schedule are proved sound for it and give the
  witnesses.

  \<^bold>\<open>The theories\<close>, with the sources under \<open>src/\<close>:

  \<^item> \<open>C_Prelude\<close>: output, \<open>errno\<close>, system calls, C strings, \<open>atoi\<close>; reachability, the locale of
    an inductive invariant and the one of a decreasing system; locks by their holder.
  \<^item> \<open>Read_Line\<close>: \<open>readLine\<close> and \<open>fatalError\<close> of \<open>socket/internet_tcp/common.c\<close>. Whatever
    \<open>read\<close> does, \<open>readLine\<close> writes only inside the buffer; on a stream, in any chunks and with
    any interruptions, it stores exactly the first line, cut to the buffer.
  \<^item> \<open>Tcp_Echo\<close>: \<open>client.c\<close> and \<open>server.c\<close> of \<open>socket/internet_tcp\<close>. The address loops leak no
    descriptor; a turn of the server echoes a line or reports that a \<open>write\<close> failed or was short; where
    writes are complete, client and server composed bring the first line of a message there and back.
  \<^item> \<open>Sem_CondVar\<close>: \<open>semaphore_post\<close> and \<open>semaphore_wait\<close> of \<open>thread/semaphore/sem.c\<close>, a semaphore
    from a mutex and a condition variable, and their use in \<open>main.c\<close>. The count is what posts and
    waits make it; the processes that share one semaphore file exclude each other and lose no wake-up;
    with two tokens a wake-up can be lost. \<open>Sem_Program\<close> puts creation, opening, closing and removal
    around it and proves that the whole program refines that system once a semaphore is set up. A
    process that uses it before that may change the shared object in any way, so the refinement is
    for runs without such a use; after the removal, two files can have a holder each.
  \<^item> \<open>Counter_Locks\<close>: the worker loop that \<open>thread/mutex\<close>, \<open>thread/spin-lock\<close>,
    \<open>thread/rw-lock\<close> and \<open>process/posix-ipc/semaphore/unnamed.c\<close> share, over any lock that
    satisfies \<open>exclusion\<close>; \<open>Lock_Programs\<close> interprets the locale on the four locks and has the
    programs; \<open>RW_Lock\<close> adds the readers and proves that their program refines the counter
    system. No increment is lost, every run ends, the printed counter is exact.
  \<^item> \<open>Prod_Cons\<close>: \<open>thread/cond\<close>. Items are conserved, and none is stranded as long as the signals
    succeed; a run that leaves the consumer asleep for ever, and one where a failing signal strands
    an item, are exhibited.
  \<^item> \<open>Thread_Cancel\<close>, \<open>Thread_Data\<close>, \<open>Proc_Basics\<close>: \<open>thread/cancel\<close> (a request is held off and then
    never missed), \<open>thread/tls-tsd\<close> (values are private, buffers are freed once),
    \<open>thread/basic\<close>, \<open>process/basic\<close> and \<open>signal\<close>.
  \<^item> \<open>File_IO\<close>, \<open>Mmap_File\<close>: \<open>io/bigfile\<close>, \<open>other/fread\<close>, \<open>io/base\<close>,
    \<open>memory/mmap_file\<close>. The filling loop appends exactly the missing bytes under any short
    writes, and never ends on a full disk; a shared mapping changes the file and a private one does
    not; \<open>_fileContext\<close> puts the chunks of a file over each other, so it is right for one read only.
  \<^item> \<open>File_Locks\<close>: \<open>io/file_lock/fcntl\<close> and \<open>io/file_lock/flock\<close>. Record locks belong to the
    process, locks of \<open>flock\<close> to the open file, on every kernel that follows \<open>flock(2)\<close>; the whence argument is taken for the command.
  \<^item> \<open>File_Meta\<close>, \<open>Directory\<close>: \<open>io/stat\<close>, \<open>directory/file_tree_walk\<close>, \<open>directory/base\<close>. Every file
    type is named; the walk reports exactly the nodes with no ``.git'' above them.
  \<^item> \<open>Small_Files\<close>, \<open>Stdio_Demos\<close>: \<open>io/pwrite\<close>, \<open>io/tmpfile\<close>, \<open>io/open_to_fopen\<close>, \<open>io/syslog\<close>,
    \<open>other/cmake\<close>; \<open>io/pipe\<close>, \<open>io/popen\<close>, \<open>io/redirect\<close>. The output of a command is copied in full;
    what one and two offsets do to a redirected file.
  \<^item> \<open>Sysv_Sem\<close>: \<open>process/system-v-ipc/semaphore\<close>. The \<open>sem_otime\<close> protocol never hands out
    an uninitialised semaphore; \<open>_trySemWait\<close> only looks.
  \<^item> \<open>Shm_Counter\<close>: \<open>process/posix-ipc/shared-memory\<close> and
    \<open>process/system-v-ipc/shared-memory\<close>. The System V counter is exact in every interleaving; the
    POSIX one can lose increments and be killed while the object is being created.
  \<^item> \<open>Posix_Ipc\<close>: \<open>semaphore/named.c\<close> and \<open>msg-queue\<close> of \<open>process/posix-ipc\<close>, run after run.
    \<open>Unnamed_Sem\<close>: the whole of \<open>semaphore/unnamed.c\<close>, from the creation of the memory on; the number is
    exact in runs where no \<open>sem_wait\<close> fails, no process comes too early and no \<open>int\<close> overflows, and what
    happens otherwise is left open.
  \<^item> \<open>Sleep\<close>: \<open>time/sleep\<close>. On a clock with a granularity the restarting sleeps last at least as long as asked and can
    round up at every signal, the one with an absolute deadline only once; the rounding of the conversions and where \<open>timeInterval\<close> is undefined.
  \<^item> \<open>Calendar\<close>, \<open>Date_Format\<close>, \<open>Clocks\<close>: \<open>time/unix\<close> and \<open>time/posix\<close>, with the calendar functions and
    formats of the C library. Broken-down times and HTTP dates are read back as they were written; local
    time is that of a zone with a standard and a summer offset, and \<open>mktime\<close> honours \<open>tm_isdst\<close>.
  \<^item> \<open>Timers\<close>: \<open>timer/linux\<close> reports ten expirations; \<open>timer/posix\<close> returns only after ten callbacks,
    in every interleaving, although their increments race.
  \<^item> \<open>Inotify\<close>: \<open>io/inotify\<close>. Decoding the records inverts the kernel's encoding and stays
    inside the buffer.
  \<^item> \<open>Event_Loops\<close>, \<open>Event_Kernel\<close>: \<open>io/select\<close>, \<open>io/poll\<close>, \<open>io/epoll\<close>. Poll and epoll show every byte
    they read, in order, and end by their time-outs; at the end of its input poll spins; select waits once; the edge-triggered reader
    takes one byte per write.
  \<^item> \<open>Datagrams\<close>: \<open>socket/internet_udp\<close> and \<open>socket/unix_domain_udp\<close>, composed with their
    servers, with the address length that the Unix server never resets. \<open>Streams\<close>: \<open>socket/unix_domain_tcp\<close>, \<open>io/fifo\<close> and \<open>socket/http_client\<close>;
    copying is complete and the header loops print exactly the header.

  \<^bold>\<open>Fuel.\<close> A loop that need not end has a fuel and the result \<open>None\<close> when it is used up, and the
  theorems say how much is enough: for \<open>readLine_loop\<close>, the copy loops and the loop of \<open>io/popen\<close>
  one turn per byte (and interruption) and one more, for \<open>bigfile_loop\<close> one turn per missing byte,
  for the sleeping loops one more call than there are signals, for \<open>dirRead_loop\<close> one more than
  entries, for the loops of poll and epoll the bytes and the time-outs. Endless server loops are
  modelled by their turns. That \<open>bigfile_loop\<close>, \<open>fwrite_loop\<close> and \<open>poll_loop\<close> may never end is
  itself proved, for every fuel.

  \<^bold>\<open>Integers.\<close> The count of the semaphore, the numbers in shared memory, the masks of inotify and the
  modes of files are words; milliseconds are reduced modulo \<open>2 ^ 64\<close> and \<open>2 ^ 32\<close> where the code converts
  them; the counters of the thread programs are integers with a proved bound far inside \<open>long\<close>.

  \<^bold>\<open>Not modelled:\<close> \<open>malloc\<close> and \<open>free\<close> beyond the contents of fresh memory and, in
  \<open>Thread_Data\<close>, what is allocated; the length of \<open>sleep\<close> where nothing depends on it; the messages of the
  step relations unless a property is about them; and \<open>memory/base\<close>, which prints the addresses
  of the program's segments and of allocated blocks: neither the language nor the library
  determines them.
\<close>

end
